(* ===== verification/Prelude.thy ===== *)
theory Prelude
  imports Main "HOL-Library.Word" "HOL-Library.AList"
begin

text \<open>
  Shared material of the ElCache development: the machine integer types of the C++ sources,
  the named collections of simplification rules, and generic lemmas on words, byte lists and
  association lists that the component theories use.

  A \<^verbatim>\<open>uint64_t\<close> or \<^verbatim>\<open>size_t\<close> is a \<^typ>\<open>64 word\<close>, so that \<open>+\<close>, \<open>-\<close> and \<open>*\<close> wrap around as they do
  in C++. A \<^verbatim>\<open>std::vector\<close> or \<^verbatim>\<open>std::span\<close> is a list; its \<^verbatim>\<open>size()\<close> is the length cast to 64 bits.
  A \<^verbatim>\<open>std::unordered_map\<close> whose size or elements the code looks at is an association list with
  distinct keys.
\<close>

unbundle bit_operations_syntax

type_synonym byte = "8 word"
type_synonym u16 = "16 word"
type_synonym u32 = "32 word"
type_synonym u64 = "64 word"

text \<open>\<open>unat_simps\<close>: from words to natural numbers under no-overflow side conditions.\<close>

named_theorems unat_simps

section \<open>Sizes of containers\<close>

definition vec_size :: "'a list \<Rightarrow> u64" where
  "vec_size xs = of_nat (length xs)"

abbreviation fits :: "'a list \<Rightarrow> bool" where
  "fits xs \<equiv> length xs < 2 ^ 64"

lemma unat_vec_size [unat_simps]: "fits xs \<Longrightarrow> unat (vec_size xs) = length xs"
  by (simp add: vec_size_def unat_of_nat take_bit_nat_eq_self)

lemma vec_size_Nil [simp]: "vec_size [] = 0"
  by (simp add: vec_size_def)

lemma vec_size_Cons: "vec_size (x # xs) = 1 + vec_size xs"
  by (simp add: vec_size_def)

lemma vec_size_append: "vec_size (xs @ ys) = vec_size xs + vec_size ys"
  by (simp add: vec_size_def)

lemma vec_size_map [simp]: "vec_size (map f xs) = vec_size xs"
  by (simp add: vec_size_def)

lemma vec_size_eq_0: "fits xs \<Longrightarrow> vec_size xs = 0 \<longleftrightarrow> xs = []"
  by (metis length_0_conv unat_0 unat_vec_size vec_size_Nil)

section \<open>Words as natural numbers\<close>

lemma unat_add_fits [unat_simps]:
  fixes a b :: u64
  shows "unat a + unat b < 2 ^ 64 \<Longrightarrow> unat (a + b) = unat a + unat b"
  by (simp add: unat_word_ariths)

lemma unat_sub_fits [unat_simps]:
  fixes a b :: u64
  shows "unat b \<le> unat a \<Longrightarrow> unat (a - b) = unat a - unat b"
  by (simp add: unat_sub word_le_nat_alt)

lemma unat_mult_fits [unat_simps]:
  fixes a b :: u64
  shows "unat a * unat b < 2 ^ 64 \<Longrightarrow> unat (a * b) = unat a * unat b"
  by (simp add: unat_word_ariths)

lemma unat_of_nat_fits [unat_simps]: "n < 2 ^ 64 \<Longrightarrow> unat (of_nat n :: u64) = n"
  by (simp add: unat_of_nat take_bit_nat_eq_self)

lemma unat_min_word [unat_simps]: "unat (min a b) = min (unat a) (unat (b :: 'a::len word))"
  by (simp add: min_def word_le_nat_alt)

lemma unat_max_word [unat_simps]: "unat (max a b) = max (unat a) (unat (b :: 'a::len word))"
  by (simp add: max_def word_le_nat_alt)

lemma word_eq_unat: "(a :: 'a::len word) = b \<longleftrightarrow> unat a = unat b"
  by (simp add: word_unat_eq_iff)

lemmas word_to_nat = word_le_nat_alt word_less_nat_alt

lemmas unat_divmod [unat_simps] = unat_div unat_mod

lemma unat_u64_less [simp]: "unat (a :: u64) < 18446744073709551616"
  using unsigned_less [of a] by simp

lemma unat_Suc_below:
  fixes i :: u64
  assumes "i < n"
  shows "unat (i + 1) = Suc (unat i)"
  using assms unat_add_fits [of i 1] unat_u64_less [of n] by (simp add: word_less_nat_alt)

section \<open>Slices of byte lists\<close>

definition subspan :: "'a list \<Rightarrow> nat \<Rightarrow> nat \<Rightarrow> 'a list" where
  "subspan xs off len = take len (drop off xs)"

lemma length_subspan [simp]: "length (subspan xs off len) = min len (length xs - off)"
  by (simp add: subspan_def min.commute)

lemma subspan_zero [simp]: "subspan xs off 0 = []"
  by (simp add: subspan_def)

lemma subspan_Nil [simp]: "subspan [] off len = []"
  by (simp add: subspan_def)

lemma subspan_beyond [simp]: "length xs \<le> off \<Longrightarrow> subspan xs off len = []"
  by (simp add: subspan_def)

lemma subspan_all [simp]: "length xs \<le> len \<Longrightarrow> subspan xs 0 len = xs"
  by (simp add: subspan_def)

lemma subspan_add: "subspan xs off (m + n) = subspan xs off m @ subspan xs (off + m) n"
  by (simp add: subspan_def take_add drop_drop add.commute)

lemma subspan_slice: "subspan (subspan xs a n) b m = subspan xs (a + b) (min m (n - b))"
  by (simp add: subspan_def drop_take take_take drop_drop add.commute)

section \<open>Association lists\<close>

lemma map_of_AList_update [simp]: "map_of (AList.update k v m) = (map_of m)(k \<mapsto> v)"
  by (simp add: AList.update_conv')

lemma map_of_AList_delete [simp]: "map_of (AList.delete k m) = (map_of m)(k := None)"
  by (simp add: AList.delete_conv')

lemma distinct_AList_update [simp]:
  "distinct (map fst m) \<Longrightarrow> distinct (map fst (AList.update k v m))"
  by (rule AList.distinct_update)

lemma distinct_AList_delete [simp]:
  "distinct (map fst m) \<Longrightarrow> distinct (map fst (AList.delete k m))"
  by (rule AList.distinct_delete)

section \<open>Results that may carry an exception\<close>

text \<open>\<open>Inl e\<close> is a thrown exception, \<open>Inr x\<close> a returned value; \<open>bind_res\<close> propagates.\<close>

definition bind_res :: "'e + 'a \<Rightarrow> ('a \<Rightarrow> 'e + 'b) \<Rightarrow> 'e + 'b" where
  "bind_res r f = (case r of Inl e \<Rightarrow> Inl e | Inr x \<Rightarrow> f x)"

lemma bind_res_Inl [simp]: "bind_res (Inl e) f = Inl e"
  by (simp add: bind_res_def)

lemma bind_res_Inr [simp]: "bind_res (Inr x) f = f x"
  by (simp add: bind_res_def)

lemma bind_res_eq_Inr: "bind_res r f = Inr y \<longleftrightarrow> (\<exists>x. r = Inr x \<and> f x = Inr y)"
  by (cases r) auto

end
