(* ===== verification/Cxx_Strings.thy ===== *)
theory Cxx_Strings
  imports Prelude
begin

text \<open>
  The parts of the C++ string library the sources use for numbers: \<^verbatim>\<open>std::stoull\<close> with its two
  exceptions, and the digits an output stream writes for an unsigned integer in a given base,
  with \<^verbatim>\<open>setw\<close>/\<^verbatim>\<open>setfill('0')\<close> padding. A \<^verbatim>\<open>std::string\<close> is a \<^typ>\<open>string\<close>, its bytes are
  obtained with \<open>bytes_of\<close>.
\<close>

datatype cxx_exn = Invalid_argument | Out_of_range | Runtime_error string | Undefined_behaviour

type_synonym 'a result = "cxx_exn + 'a"

section \<open>Strings as bytes\<close>

definition bytes_of :: "string \<Rightarrow> byte list" where
  "bytes_of s = map of_char s"

definition string_of :: "byte list \<Rightarrow> string" where
  "string_of bs = map (\<lambda>b. char_of (unat b)) bs"

lemma unat_of_char: "unat (of_char c :: byte) = of_char c"
proof -
  have "(of_char c :: byte) = of_nat (of_char c)" by (rule of_nat_of_char [symmetric])
  then show ?thesis
    using nat_of_char_less_256 [of c] by (simp add: unat_of_nat take_bit_nat_eq_self)
qed

lemma string_of_bytes_of [simp]: "string_of (bytes_of s) = s"
  by (simp add: string_of_def bytes_of_def comp_def unat_of_char)

lemma of_char_char_of_unat: "(of_char (char_of (unat b)) :: byte) = b"
proof -
  have "unat (of_char (char_of (unat b)) :: byte) = unat b"
    using unsigned_less [of b, where 'a = nat] by (simp add: unat_of_char)
  then show ?thesis by (simp add: word_unat_eq_iff)
qed

lemma bytes_of_string_of [simp]: "bytes_of (string_of bs) = bs"
  by (simp add: string_of_def bytes_of_def comp_def of_char_char_of_unat)

lemma length_bytes_of [simp]: "length (bytes_of s) = length s"
  by (simp add: bytes_of_def)

lemma length_string_of [simp]: "length (string_of bs) = length bs"
  by (simp add: string_of_def)

lemma bytes_of_inject [simp]: "bytes_of s = bytes_of t \<longleftrightarrow> s = t"
  by (metis string_of_bytes_of)

section \<open>Digits\<close>

definition digit_char :: "nat \<Rightarrow> char" where
  "digit_char d = char_of (if d < 10 then 48 + d else 87 + d)"

definition digit_val :: "char \<Rightarrow> nat option" where
  "digit_val c = (let n = (of_char c :: nat) in
     if 48 \<le> n \<and> n \<le> 57 then Some (n - 48)
     else if 97 \<le> n \<and> n \<le> 122 then Some (n - 87)
     else if 65 \<le> n \<and> n \<le> 90 then Some (n - 55)
     else None)"

definition is_base_digit :: "nat \<Rightarrow> char \<Rightarrow> bool" where
  "is_base_digit base c = (case digit_val c of None \<Rightarrow> False | Some d \<Rightarrow> d < base)"

definition digits_value :: "nat \<Rightarrow> nat list \<Rightarrow> nat" where
  "digits_value base ds = foldl (\<lambda>acc d. acc * base + d) 0 ds"

function base_digits :: "nat \<Rightarrow> nat \<Rightarrow> nat list" where
  "base_digits base n = (if n < base \<or> base < 2 then [n] else base_digits base (n div base) @ [n mod base])"
  by pat_completeness auto
termination
  by (relation "measure snd") auto

declare base_digits.simps [simp del]

definition pad_left :: "nat \<Rightarrow> string \<Rightarrow> string" where
  "pad_left w s = replicate (w - length s) (CHR ''0'') @ s"

definition to_base :: "nat \<Rightarrow> nat \<Rightarrow> string" where
  "to_base base n = map digit_char (base_digits base n)"

lemma digit_val_digit_char: "d < 36 \<Longrightarrow> digit_val (digit_char d) = Some d"
  by (auto simp: digit_val_def digit_char_def Let_def)

lemma digit_val_0 [simp]: "digit_val (CHR ''0'') = Some 0"
  by (simp add: digit_val_def)

lemma is_base_digit_digit_char: "d < base \<Longrightarrow> base \<le> 36 \<Longrightarrow> is_base_digit base (digit_char d)"
  by (simp add: is_base_digit_def digit_val_digit_char)

lemma digits_value_snoc: "digits_value base (ds @ [d]) = digits_value base ds * base + d"
  by (simp add: digits_value_def)

lemma digits_value_base_digits: "2 \<le> base \<Longrightarrow> digits_value base (base_digits base n) = n"
proof (induction base n rule: base_digits.induct)
  case (1 base n)
  show ?case
  proof (cases "n < base")
    case True
    then show ?thesis by (simp add: base_digits.simps [of base n] digits_value_def)
  next
    case False
    with "1" show ?thesis by (simp add: base_digits.simps [of base n] digits_value_snoc)
  qed
qed

lemma base_digits_bound: "2 \<le> base \<Longrightarrow> d \<in> set (base_digits base n) \<Longrightarrow> d < base"
proof (induction base n rule: base_digits.induct)
  case (1 base n)
  then show ?case
    by (auto simp: base_digits.simps [of base n] split: if_splits)
qed

lemma base_digits_nonempty [simp]: "base_digits base n \<noteq> []"
  by (simp add: base_digits.simps [of base n])

lemma length_base_digits: "2 \<le> base \<Longrightarrow> n < base ^ Suc k \<Longrightarrow> length (base_digits base n) \<le> Suc k"
proof (induction base n arbitrary: k rule: base_digits.induct)
  case (1 base n)
  show ?case
  proof (cases "n < base")
    case True
    then show ?thesis by (simp add: base_digits.simps [of base n])
  next
    case False
    with "1.prems" obtain j where k: "k = Suc j" by (cases k) auto
    with "1.prems" have "n div base < base ^ Suc j"
      by (simp add: less_mult_imp_div_less mult.commute)
    with "1.IH" False "1.prems" have "length (base_digits base (n div base)) \<le> Suc j" by simp
    with False k "1.prems" show ?thesis by (simp add: base_digits.simps [of base n])
  qed
qed

lemma digits_value_replicate_0: "digits_value base (replicate m 0 @ ds) = digits_value base ds"
  by (induction m) (simp_all add: digits_value_def)

section \<open>std::stoull\<close>

definition is_space :: "char \<Rightarrow> bool" where
  "is_space c = (c \<in> set [CHR '' '', CHR 0x09, CHR 0x0A, CHR 0x0B, CHR 0x0C, CHR 0x0D])"

definition strip_sign :: "string \<Rightarrow> bool \<times> string" where
  "strip_sign s = (case s of c # r \<Rightarrow>
     if c = CHR ''-'' then (True, r) else if c = CHR ''+'' then (False, r) else (False, s)
   | [] \<Rightarrow> (False, s))"

definition strip_0x :: "nat \<Rightarrow> string \<Rightarrow> string" where
  "strip_0x base s = (case s of z # x # c # r \<Rightarrow>
     if base = 16 \<and> z = CHR ''0'' \<and> (x = CHR ''x'' \<or> x = CHR ''X'') \<and> is_base_digit 16 c
     then c # r else s
   | _ \<Rightarrow> s)"

definition stoull :: "nat \<Rightarrow> string \<Rightarrow> u64 result" where
  "stoull base s =
     (let (neg, s') = strip_sign (dropWhile is_space s);
          ds = takeWhile (is_base_digit base) (strip_0x base s');
          v = digits_value base (map (\<lambda>c. the (digit_val c)) ds)
      in if ds = [] then Inl Invalid_argument
         else if 2 ^ 64 \<le> v then Inl Out_of_range
         else Inr (if neg then - of_nat v else of_nat v))"

text \<open>A string made of digits of the base only is read as the number it denotes.\<close>

lemma is_base_digit_0 [simp]: "0 < base \<Longrightarrow> is_base_digit base (CHR ''0'')"
  by (simp add: is_base_digit_def)

lemma base_digit_not_special:
  assumes "is_base_digit base c" and "base \<le> 16"
  shows "\<not> is_space c" and "c \<noteq> CHR ''-''" and "c \<noteq> CHR ''+''"
  using assms by (auto simp: is_base_digit_def digit_val_def is_space_def)

lemma stoull_digits:
  assumes "s \<noteq> []" and "\<forall>c\<in>set s. is_base_digit base c" and "base \<le> 16"
    and "digits_value base (map (\<lambda>c. the (digit_val c)) s) < 2 ^ 64"
  shows "stoull base s = Inr (of_nat (digits_value base (map (\<lambda>c. the (digit_val c)) s)))"
proof -
  obtain c r where s: "s = c # r" using assms(1) by (cases s) auto
  have c: "is_base_digit base c" using assms(2) s by simp
  note spec = base_digit_not_special [OF c assms(3)]
  have sp: "dropWhile is_space s = s" using s spec(1) by simp
  have sg: "strip_sign s = (False, s)" using s spec(2,3) by (simp add: strip_sign_def)
  have "\<not> is_base_digit 16 (CHR ''x'')" and "\<not> is_base_digit 16 (CHR ''X'')"
    by (simp_all add: is_base_digit_def digit_val_def)
  then have zx: "strip_0x base s = s"
    using assms(2) by (auto simp: strip_0x_def split: list.splits)
  have tw: "takeWhile (is_base_digit base) s = s"
    using assms(2) by (simp add: takeWhile_eq_all_conv)
  show ?thesis
    using assms(1,4) by (simp add: stoull_def sp sg zx tw Let_def)
qed

lemma stoull_pad_to_base:
  assumes "n < 2 ^ 64" and "2 \<le> base" and "base \<le> 16"
  shows "stoull base (pad_left w (to_base base n)) = Inr (of_nat n)"
proof -
  let ?s = "pad_left w (to_base base n)"
  have ne: "?s \<noteq> []" by (simp add: pad_left_def to_base_def)
  have dig: "\<forall>c\<in>set ?s. is_base_digit base c"
    using assms(2,3)
    by (auto simp: pad_left_def to_base_def intro!: is_base_digit_digit_char base_digits_bound)
  have vals: "map (\<lambda>c. the (digit_val c)) (to_base base n) = base_digits base n"
    using assms(3) base_digits_bound [OF assms(2), of _ n]
    by (fastforce simp: to_base_def digit_val_digit_char intro!: map_idI)
  have val: "digits_value base (map (\<lambda>c. the (digit_val c)) ?s) = n"
    using assms(2) by (simp add: pad_left_def vals digits_value_replicate_0 digits_value_base_digits)
  show ?thesis
    using stoull_digits [OF ne dig assms(3)] assms(1) by (simp add: val)
qed

end
