(* ===== verification/Types.thy ===== *)
theory Types
  imports Cxx_Strings
begin

text \<open>
  The value types of \<^verbatim>\<open>include/elcache/types.hpp\<close> and \<^verbatim>\<open>src/core/types.cpp\<close>: the size limits,
  128-bit hashes with their hexadecimal form, cache keys, chunk and node identifiers, byte
  ranges with their 64-bit arithmetic, the division of a range into chunk pieces, entry
  metadata with expiry, and status codes.

  The build defines \<^verbatim>\<open>ELCACHE_USE_XXHASH\<close>; xxHash is a third-party package, so the hash
  functions are a parameter, the record \<open>hasher\<close>. The \<^verbatim>\<open>#else\<close> branches of the sources give one
  concrete instance, \<open>fnv_hasher\<close>.
\<close>

section \<open>Limits\<close>

definition MAX_KEY_SIZE :: u64 where
  "MAX_KEY_SIZE = 8 * 1024"

definition MAX_VALUE_SIZE :: u64 where
  "MAX_VALUE_SIZE = 20 * 1024 * 1024 * 1024 * 1024"

definition CHUNK_SIZE :: u64 where
  "CHUNK_SIZE = 4 * 1024 * 1024"

definition MAX_CHUNKS_PER_VALUE :: u64 where
  "MAX_CHUNKS_PER_VALUE = (MAX_VALUE_SIZE + CHUNK_SIZE - 1) div CHUNK_SIZE"

lemma unat_MAX_KEY_SIZE: "unat MAX_KEY_SIZE = 8192"
  by (simp add: MAX_KEY_SIZE_def)

lemma unat_MAX_VALUE_SIZE: "unat MAX_VALUE_SIZE = 21990232555520"
  by (simp add: MAX_VALUE_SIZE_def)

lemma unat_CHUNK_SIZE: "unat CHUNK_SIZE = 4194304"
  by (simp add: CHUNK_SIZE_def)

lemma CHUNK_SIZE_pos [simp]:
  "0 < unat CHUNK_SIZE" "CHUNK_SIZE \<noteq> 0" "unat CHUNK_SIZE \<noteq> 0" "Suc 0 \<le> unat CHUNK_SIZE"
  by (simp_all add: CHUNK_SIZE_def)

section \<open>128-bit hashes\<close>

datatype Hash128 = Hash128 (low: u64) (high: u64)

instantiation Hash128 :: linorder
begin

definition less_Hash128 :: "Hash128 \<Rightarrow> Hash128 \<Rightarrow> bool" where
  "less_Hash128 a b \<longleftrightarrow> high a < high b \<or> (high a = high b \<and> low a < low b)"

definition less_eq_Hash128 :: "Hash128 \<Rightarrow> Hash128 \<Rightarrow> bool" where
  "less_eq_Hash128 a b \<longleftrightarrow> a < b \<or> a = (b :: Hash128)"

instance
proof
  fix x y z :: Hash128
  show "x < y \<longleftrightarrow> x \<le> y \<and> \<not> y \<le> x" "x \<le> x"
    "x \<le> y \<Longrightarrow> y \<le> z \<Longrightarrow> x \<le> z" "x \<le> y \<Longrightarrow> y \<le> x \<Longrightarrow> x = y"
    by (auto simp: less_Hash128_def less_eq_Hash128_def)
  show "x \<le> y \<or> y \<le> x"
    by (cases x; cases y) (auto simp: less_Hash128_def less_eq_Hash128_def)
qed

end

definition Hash128_is_zero :: "Hash128 \<Rightarrow> bool" where
  "Hash128_is_zero h = (low h = 0 \<and> high h = 0)"

definition Hash128_to_hex :: "Hash128 \<Rightarrow> string" where
  "Hash128_to_hex h = pad_left 16 (to_base 16 (unat (high h))) @ pad_left 16 (to_base 16 (unat (low h)))"

definition Hash128_from_hex :: "string \<Rightarrow> Hash128 result" where
  "Hash128_from_hex hex =
     (if 32 \<le> length hex then
        bind_res (stoull 16 (take 16 hex)) (\<lambda>h.
        bind_res (stoull 16 (take 16 (drop 16 hex))) (\<lambda>l. Inr (Hash128 l h)))
      else Inr (Hash128 0 0))"

lemma length_hex16:
  fixes w :: u64
  shows "length (pad_left 16 (to_base 16 (unat w))) = 16"
proof -
  have "unat w < 16 ^ Suc 15" using unat_u64_less [of w] by simp
  then have "length (base_digits 16 (unat w)) \<le> Suc 15" by (intro length_base_digits) simp_all
  then show ?thesis by (simp add: pad_left_def to_base_def)
qed

lemma stoull_hex16:
  fixes w :: u64
  shows "stoull 16 (pad_left 16 (to_base 16 (unat w))) = Inr w"
  using stoull_pad_to_base [of "unat w" 16 16] unat_u64_less [of w] by simp

section \<open>Hash functions\<close>

record hasher =
  hash64 :: "byte list \<Rightarrow> u64"
  key_hash128 :: "byte list \<Rightarrow> Hash128"
  chunk_hash128 :: "byte list \<Rightarrow> Hash128"

definition fnv1a_64 :: "byte list \<Rightarrow> u64" where
  "fnv1a_64 data = foldl (\<lambda>h b. (h XOR ucast b) * 1099511628211) 14695981039346656037 data"

definition fnv_key_hash128 :: "byte list \<Rightarrow> Hash128" where
  "fnv_key_hash128 data = Hash128 (fnv1a_64 data) (fnv1a_64 data XOR 0x9E3779B97F4A7C15)"

section \<open>Cache keys, chunk and node identifiers\<close>

record CacheKey =
  ck_data :: string
  ck_hash :: u64
  ck_hash128 :: Hash128

definition CacheKey_new :: "hasher \<Rightarrow> string \<Rightarrow> CacheKey" where
  "CacheKey_new H key =
     (if key = [] then \<lparr>ck_data = key, ck_hash = 0, ck_hash128 = Hash128 0 0\<rparr>
      else \<lparr>ck_data = key, ck_hash = hash64 H (bytes_of key), ck_hash128 = key_hash128 H (bytes_of key)\<rparr>)"

definition CacheKey_eq :: "CacheKey \<Rightarrow> CacheKey \<Rightarrow> bool" where
  "CacheKey_eq a b = (ck_hash a = ck_hash b \<and> ck_data a = ck_data b)"

definition CacheKey_size :: "CacheKey \<Rightarrow> u64" where
  "CacheKey_size k = vec_size (ck_data k)"

datatype ChunkId = ChunkId (chunk_hash: Hash128)

instantiation ChunkId :: linorder
begin

definition less_ChunkId :: "ChunkId \<Rightarrow> ChunkId \<Rightarrow> bool" where
  "less_ChunkId a b \<longleftrightarrow> chunk_hash a < chunk_hash b"

definition less_eq_ChunkId :: "ChunkId \<Rightarrow> ChunkId \<Rightarrow> bool" where
  "less_eq_ChunkId a b \<longleftrightarrow> chunk_hash a \<le> chunk_hash b"

instance
  by standard (auto simp: less_ChunkId_def less_eq_ChunkId_def ChunkId.expand)

end

definition ChunkId_is_valid :: "ChunkId \<Rightarrow> bool" where
  "ChunkId_is_valid c = (\<not> Hash128_is_zero (chunk_hash c))"

definition ChunkId_to_string :: "ChunkId \<Rightarrow> string" where
  "ChunkId_to_string c = Hash128_to_hex (chunk_hash c)"

datatype NodeId = NodeId (node_value: u64)

instantiation NodeId :: linorder
begin

definition less_NodeId :: "NodeId \<Rightarrow> NodeId \<Rightarrow> bool" where
  "less_NodeId a b \<longleftrightarrow> node_value a < node_value b"

definition less_eq_NodeId :: "NodeId \<Rightarrow> NodeId \<Rightarrow> bool" where
  "less_eq_NodeId a b \<longleftrightarrow> node_value a \<le> node_value b"

instance
  by standard (auto simp: less_NodeId_def less_eq_NodeId_def NodeId.expand)

end

definition NodeId_is_valid :: "NodeId \<Rightarrow> bool" where
  "NodeId_is_valid n = (node_value n \<noteq> 0)"

definition NodeId_from_address :: "hasher \<Rightarrow> string \<Rightarrow> u16 \<Rightarrow> NodeId" where
  "NodeId_from_address H addr port = NodeId (hash64 H (bytes_of (addr @ '':'' @ to_base 10 (unat port))))"

definition NodeId_to_string :: "NodeId \<Rightarrow> string" where
  "NodeId_to_string n = pad_left 16 (to_base 16 (unat (node_value n)))"

section \<open>Ranges\<close>

record Range =
  r_offset :: u64
  r_length :: u64

definition Range_end :: "Range \<Rightarrow> u64" where
  "Range_end r = r_offset r + r_length r"

definition Range_overlaps :: "Range \<Rightarrow> Range \<Rightarrow> bool" where
  "Range_overlaps a b = (r_offset a < Range_end b \<and> r_offset b < Range_end a)"

definition Range_intersect :: "Range \<Rightarrow> Range \<Rightarrow> Range" where
  "Range_intersect a b =
     (let start = max (r_offset a) (r_offset b); stop = min (Range_end a) (Range_end b)
      in if stop \<le> start then \<lparr>r_offset = 0, r_length = 0\<rparr>
         else \<lparr>r_offset = start, r_length = stop - start\<rparr>)"

definition Range_contains :: "Range \<Rightarrow> Range \<Rightarrow> bool" where
  "Range_contains a b = (r_offset a \<le> r_offset b \<and> Range_end b \<le> Range_end a)"

definition Range_is_empty :: "Range \<Rightarrow> bool" where
  "Range_is_empty r = (r_length r = 0)"

record ChunkRange =
  chunk_index :: u64
  offset_in_chunk :: u64
  cr_length :: u64

text \<open>
  The loop of \<^verbatim>\<open>ChunkRange::compute\<close>. The recursion ends because every pass reads at least one
  byte. A zero chunk size divides by zero in C++; \<open>ChunkRange_compute\<close> returns \<open>None\<close> for it, so
  the loop is never entered with one.
\<close>

function ChunkRange_loop :: "u64 \<Rightarrow> u64 \<Rightarrow> u64 \<Rightarrow> ChunkRange list" where
  "ChunkRange_loop chunk_size current_offset remaining =
     (if remaining = 0 \<or> chunk_size = 0 then []
      else let index = current_offset div chunk_size;
               offset_in = current_offset mod chunk_size;
               available_in_chunk = chunk_size - offset_in;
               to_read = min remaining available_in_chunk
           in \<lparr>chunk_index = index, offset_in_chunk = offset_in, cr_length = to_read\<rparr>
              # ChunkRange_loop chunk_size (current_offset + to_read) (remaining - to_read))"
  by pat_completeness auto

definition ChunkRange_compute :: "Range \<Rightarrow> u64 \<Rightarrow> ChunkRange list option" where
  "ChunkRange_compute rng chunk_size =
     (if r_length rng = 0 then Some []
      else if chunk_size = 0 then None
      else Some (ChunkRange_loop chunk_size (r_offset rng) (r_length rng)))"

lemma to_read_pos:
  fixes cs cur rem :: u64
  assumes "rem \<noteq> 0" and "cs \<noteq> 0"
  shows "0 < unat (min rem (cs - cur mod cs))"
    and "unat (min rem (cs - cur mod cs)) \<le> unat rem"
    and "unat (cur mod cs) + unat (min rem (cs - cur mod cs)) \<le> unat cs"
proof -
  have rp: "0 < unat rem" and cp: "0 < unat cs" using assms by (simp_all add: unat_gt_0)
  have m: "unat (cur mod cs) < unat cs" using cp by (simp add: unat_mod)
  then have s: "unat (cs - cur mod cs) = unat cs - unat (cur mod cs)" by (simp add: unat_sub_fits)
  show "0 < unat (min rem (cs - cur mod cs))" using rp m s by (simp add: unat_min_word)
  show "unat (min rem (cs - cur mod cs)) \<le> unat rem" by (simp add: unat_min_word)
  show "unat (cur mod cs) + unat (min rem (cs - cur mod cs)) \<le> unat cs"
    using m s by (simp add: unat_min_word)
qed

termination ChunkRange_loop
proof (relation "measure (\<lambda>(cs, cur, rem). unat rem)", goal_cases)
  case 1
  show ?case by simp
next
  case (2 cs cur rem index off avail n)
  then show ?case
    using to_read_pos [of rem cs cur] by (simp add: unat_sub_fits)
qed

declare ChunkRange_loop.simps [simp del]

lemma ChunkRange_loop_0 [simp]: "ChunkRange_loop cs cur 0 = []"
  by (simp add: ChunkRange_loop.simps)

section \<open>Metadata, results and status\<close>

text \<open>
  Time points are nanosecond counts of the system clock, a signed 64-bit integer; \<open>wrap64\<close> is
  its two's-complement reduction. \<open>now\<close> is the value \<^verbatim>\<open>SystemClock::now()\<close> returned.
\<close>

type_synonym Timestamp = int

definition wrap64 :: "int \<Rightarrow> int" where
  "wrap64 i = sint (word_of_int i :: u64)"

record CacheMetadata =
  md_total_size :: u64
  md_chunk_count :: u64
  md_created_at :: Timestamp
  md_last_accessed :: Timestamp
  md_expires_at :: "Timestamp option"
  md_flags :: u32

definition CacheMetadata_is_expired :: "Timestamp \<Rightarrow> CacheMetadata \<Rightarrow> bool" where
  "CacheMetadata_is_expired now m =
     (case md_expires_at m of None \<Rightarrow> False | Some e \<Rightarrow> e \<le> now)"

datatype CacheResult = Hit | Miss | PartialHit | Error | Expired | ResultNotFound
  | OtherResult u32

datatype ErrorCode = Ok | KeyTooLarge | ValueTooLarge | NotFound | PartialData | NetworkError
  | DiskError | Timeout | InvalidArgument | OutOfMemory | InternalError | OtherError u32

record Status =
  st_code :: ErrorCode
  st_message :: string

definition Status_ok :: Status where
  "Status_ok = \<lparr>st_code = Ok, st_message = ''''\<rparr>"

definition Status_error :: "ErrorCode \<Rightarrow> string \<Rightarrow> Status" where
  "Status_error c m = \<lparr>st_code = c, st_message = m\<rparr>"

definition Status_is_ok :: "Status \<Rightarrow> bool" where
  "Status_is_ok s = (st_code s = Ok)"

fun error_code_string :: "ErrorCode \<Rightarrow> string" where
  "error_code_string Ok = ''Ok''"
| "error_code_string KeyTooLarge = ''Key too large''"
| "error_code_string ValueTooLarge = ''Value too large''"
| "error_code_string NotFound = ''Not found''"
| "error_code_string PartialData = ''Partial data''"
| "error_code_string NetworkError = ''Network error''"
| "error_code_string DiskError = ''Disk error''"
| "error_code_string Timeout = ''Timeout''"
| "error_code_string InvalidArgument = ''Invalid argument''"
| "error_code_string OutOfMemory = ''Out of memory''"
| "error_code_string InternalError = ''Internal error''"
| "error_code_string (OtherError n) = ''Unknown error''"

lemma Status_ok_is_ok [simp]: "Status_is_ok Status_ok"
  by (simp add: Status_is_ok_def Status_ok_def)

lemma Status_error_is_ok [simp]: "Status_is_ok (Status_error c m) \<longleftrightarrow> c = Ok"
  by (simp add: Status_is_ok_def Status_error_def)

section \<open>Hexadecimal form\<close>

lemma Hash128_hex_roundtrip: "Hash128_from_hex (Hash128_to_hex h) = Inr h"
  by (cases h) (simp add: Hash128_from_hex_def Hash128_to_hex_def length_hex16 stoull_hex16)

lemma Hash128_to_hex_inj: "inj Hash128_to_hex"
  by (rule injI) (metis Hash128_hex_roundtrip sum.inject(2))

lemma length_Hash128_to_hex: "length (Hash128_to_hex h) = 32"
  by (simp add: Hash128_to_hex_def length_hex16)

section \<open>Ranges as sets of byte positions\<close>

text \<open>
  \<open>Range_bytes r\<close> is the set of byte positions the range names over the natural numbers, and
  \<open>Range_ok r\<close> that its end does not wrap around 64 bits. Under \<open>Range_ok\<close> the machine operations
  compute the set operations.
\<close>

definition Range_bytes :: "Range \<Rightarrow> nat set" where
  "Range_bytes r = {unat (r_offset r) ..< unat (r_offset r) + unat (r_length r)}"

definition Range_ok :: "Range \<Rightarrow> bool" where
  "Range_ok r = (unat (r_offset r) + unat (r_length r) < 2 ^ 64)"

lemma unat_Range_end:
  "Range_ok r \<Longrightarrow> unat (Range_end r) = unat (r_offset r) + unat (r_length r)"
  unfolding Range_ok_def Range_end_def by (rule unat_add_fits)

lemma Range_bytes_empty_iff: "Range_bytes r = {} \<longleftrightarrow> Range_is_empty r"
  by (simp add: Range_bytes_def Range_is_empty_def unat_eq_0)

lemma Range_intersect_ok:
  assumes "Range_ok a" and "Range_ok b"
  shows "Range_ok (Range_intersect a b)"
    and "Range_bytes (Range_intersect a b) = Range_bytes a \<inter> Range_bytes b"
proof -
  let ?s = "max (r_offset a) (r_offset b)" and ?e = "min (Range_end a) (Range_end b)"
  have e: "unat ?e = min (unat (r_offset a) + unat (r_length a)) (unat (r_offset b) + unat (r_length b))"
    using assms by (simp add: unat_min_word unat_Range_end)
  have s: "unat ?s = max (unat (r_offset a)) (unat (r_offset b))"
    by (simp add: unat_max_word)
  have d: "unat (?e - ?s) = unat ?e - unat ?s" if "\<not> ?e \<le> ?s"
    using that by (intro unat_sub_fits) (simp add: word_le_nat_alt)
  have le: "?e \<le> ?s \<longleftrightarrow> unat ?e \<le> unat ?s" by (simp add: word_le_nat_alt)
  show "Range_ok (Range_intersect a b)"
    using d le unat_u64_less [of ?e]
    by (auto simp: Range_intersect_def Let_def Range_ok_def simp del: not_le)
  show "Range_bytes (Range_intersect a b) = Range_bytes a \<inter> Range_bytes b"
  proof (cases "?e \<le> ?s")
    case True
    then show ?thesis using le e s by (auto simp: Range_intersect_def Let_def Range_bytes_def)
  next
    case False
    then have "Range_bytes (Range_intersect a b) = {unat ?s ..< unat ?e}"
      using d le by (simp add: Range_intersect_def Let_def Range_bytes_def)
    then show ?thesis unfolding e s by (auto simp: Range_bytes_def)
  qed
qed

lemma Range_overlaps_iff:
  assumes "Range_ok a" and "Range_ok b" and "\<not> Range_is_empty a" and "\<not> Range_is_empty b"
  shows "Range_overlaps a b \<longleftrightarrow> Range_bytes a \<inter> Range_bytes b \<noteq> {}"
proof -
  have "0 < unat (r_length a)" "0 < unat (r_length b)"
    using assms(3,4) by (simp_all add: Range_is_empty_def unat_gt_0)
  then show ?thesis
    using assms(1,2) by (auto simp: Range_overlaps_def word_less_nat_alt unat_Range_end Range_bytes_def)
qed

lemma Range_contains_iff:
  assumes "Range_ok a" and "Range_ok b" and "\<not> Range_is_empty b"
  shows "Range_contains a b \<longleftrightarrow> Range_bytes b \<subseteq> Range_bytes a"
proof -
  have "0 < unat (r_length b)" using assms(3) by (simp add: Range_is_empty_def unat_gt_0)
  then show ?thesis
    using assms(1,2)
    by (auto simp: Range_contains_def word_le_nat_alt unat_Range_end Range_bytes_def)
qed

section \<open>Chunk pieces of a range\<close>

text \<open>
  \<open>piece_bytes cs v c\<close> is what a reader copies for one piece: the bytes of value \<open>v\<close> at the
  piece's offset in the piece's chunk.
\<close>

definition piece_bytes :: "u64 \<Rightarrow> 'a list \<Rightarrow> ChunkRange \<Rightarrow> 'a list" where
  "piece_bytes cs v c = subspan v (unat (chunk_index c) * unat cs + unat (offset_in_chunk c)) (unat (cr_length c))"

definition piece_ok :: "u64 \<Rightarrow> ChunkRange \<Rightarrow> bool" where
  "piece_ok cs c = (cr_length c \<noteq> 0 \<and> unat (offset_in_chunk c) + unat (cr_length c) \<le> unat cs)"

lemma piece_simps:
  "piece_bytes cs v \<lparr>chunk_index = i, offset_in_chunk = off, cr_length = n\<rparr>
     = subspan v (unat i * unat cs + unat off) (unat n)"
  "piece_ok cs \<lparr>chunk_index = i, offset_in_chunk = off, cr_length = n\<rparr>
     \<longleftrightarrow> n \<noteq> 0 \<and> unat off + unat n \<le> unat cs"
  by (simp_all add: piece_bytes_def piece_ok_def)

lemma ChunkRange_loop_pieces:
  assumes "cs \<noteq> 0" and "unat cur + unat rem < 2 ^ 64"
  shows "list_all (piece_ok cs) (ChunkRange_loop cs cur rem)
       \<and> concat (map (piece_bytes cs v) (ChunkRange_loop cs cur rem)) = subspan v (unat cur) (unat rem)"
  using assms
proof (induction cs cur rem rule: ChunkRange_loop.induct)
  case (1 cs cur rem)
  show ?case
  proof (cases "rem = 0")
    case True
    then show ?thesis by simp
  next
    case False
    let ?n = "min rem (cs - cur mod cs)"
    note n = to_read_pos [OF False \<open>cs \<noteq> 0\<close>, of cur]
    have cur': "unat (cur + ?n) = unat cur + unat ?n"
      using n(2) "1.prems"(2) by (intro unat_add_fits) simp
    have rem': "unat (rem - ?n) = unat rem - unat ?n" using n(2) by (rule unat_sub_fits)
    have pos: "unat (cur div cs) * unat cs + unat (cur mod cs) = unat cur"
      by (simp add: unat_div unat_mod)
    have IH: "list_all (piece_ok cs) (ChunkRange_loop cs (cur + ?n) (rem - ?n))
       \<and> concat (map (piece_bytes cs v) (ChunkRange_loop cs (cur + ?n) (rem - ?n)))
         = subspan v (unat cur + unat ?n) (unat rem - unat ?n)"
      using "1.IH" [OF _ refl refl refl refl] False "1.prems" n(2) by (simp add: cur' rem')
    have "?n \<noteq> 0" using n(1) unat_eq_0 by (metis less_irrefl)
    then show ?thesis
      using IH n False "1.prems"(1) pos subspan_add [of v "unat cur" "unat ?n" "unat rem - unat ?n"]
      by (simp add: ChunkRange_loop.simps [of cs cur rem] Let_def piece_simps)
  qed
qed

lemma div_step_index:
  fixes cur m rem cs :: nat
  assumes "0 < cs" and "m \<le> rem" and "0 < m" and "m = min rem (cs - cur mod cs)"
  shows "[cur div cs ..< Suc ((cur + rem - 1) div cs)]
       = cur div cs # (if m = rem then [] else [(cur + m) div cs ..< Suc ((cur + rem - 1) div cs)])"
proof (cases "m = rem")
  case True
  have "cur mod cs + rem \<le> cs"
    using assms True by (metis le_diff_conv2 min.cobounded2 add.commute mod_less_divisor less_imp_le)
  then have "cur mod cs + (rem - 1) < cs" using assms True by linarith
  moreover have "cur + rem - 1 = cur div cs * cs + (cur mod cs + (rem - 1))"
    using assms True div_mult_mod_eq [of cur cs] by linarith
  ultimately have "(cur + rem - 1) div cs = cur div cs"
    using assms(1) by (metis div_mult_self3 div_less add.right_neutral less_irrefl)
  then show ?thesis using True by simp
next
  case False
  then have m: "m = cs - cur mod cs" and "m < rem" using assms by auto
  have "cur mod cs < cs" using assms(1) by simp
  then have "cur + m = Suc (cur div cs) * cs"
    unfolding m mult_Suc using div_mult_mod_eq [of cur cs] by linarith
  then have d: "(cur + m) div cs = Suc (cur div cs)" using assms(1) by (metis nonzero_mult_div_cancel_right less_irrefl)
  have "(cur + m) div cs \<le> (cur + rem - 1) div cs"
    using \<open>m < rem\<close> by (intro div_le_mono) simp
  then show ?thesis using False d by (simp add: upt_conv_Cons del: upt_Suc)
qed

lemma ChunkRange_loop_indices:
  assumes "cs \<noteq> 0" and "unat cur + unat rem < 2 ^ 64" and "rem \<noteq> 0"
  shows "map (\<lambda>c. unat (chunk_index c)) (ChunkRange_loop cs cur rem)
       = [unat cur div unat cs ..< Suc ((unat cur + unat rem - 1) div unat cs)]"
  using assms
proof (induction cs cur rem rule: ChunkRange_loop.induct)
  case (1 cs cur rem)
  let ?n = "min rem (cs - cur mod cs)"
  note n = to_read_pos [OF \<open>rem \<noteq> 0\<close> \<open>cs \<noteq> 0\<close>, of cur]
  have cp: "0 < unat cs" using \<open>cs \<noteq> 0\<close> by (simp add: unat_gt_0)
  have nn: "unat ?n = min (unat rem) (unat cs - unat cur mod unat cs)"
    using cp by (simp add: unat_min_word unat_sub_fits unat_mod less_imp_le)
  have cur': "unat (cur + ?n) = unat cur + unat ?n"
    using n(2) "1.prems"(2) by (intro unat_add_fits) simp
  have rem': "unat (rem - ?n) = unat rem - unat ?n" using n(2) by (rule unat_sub_fits)
  have rz: "rem - ?n = 0 \<longleftrightarrow> unat ?n = unat rem" using n(2) rem' by (metis diff_is_0_eq le_antisym order_refl unat_eq_0)
  have IH: "map (\<lambda>c. unat (chunk_index c)) (ChunkRange_loop cs (cur + ?n) (rem - ?n))
      = (if unat ?n = unat rem then []
         else [(unat cur + unat ?n) div unat cs ..< Suc ((unat cur + unat rem - 1) div unat cs)])"
  proof (cases "rem - ?n = 0")
    case True
    then show ?thesis using rz by simp
  next
    case False
    then show ?thesis
      using "1.IH" [OF _ refl refl refl refl] "1.prems" n(2) rz by (simp add: cur' rem')
  qed
  show ?case
    unfolding div_step_index [OF cp n(2) n(1) nn]
    using IH "1.prems" by (simp add: ChunkRange_loop.simps [of cs cur rem] Let_def unat_div)
qed

section \<open>Properties\<close>

text \<open>
  The 32-digit hexadecimal form of a 128-bit hash, which names the chunk files on disk, is
  read back by \<^verbatim>\<open>from_hex\<close> as the same hash, for every hash.
\<close>

theorem hex_roundtrip:
  "length (Hash128_to_hex h) = 32 \<and> Hash128_from_hex (Hash128_to_hex h) = Inr h"
  by (simp add: length_Hash128_to_hex Hash128_hex_roundtrip)

text \<open>
  For ranges whose end does not wrap around 64 bits, \<^verbatim>\<open>Range::intersect\<close> names exactly the
  byte positions common to both ranges, its result does not wrap either, and it is the empty range
  exactly when there is no common position.
\<close>

theorem intersect_exact:
  assumes "Range_ok a" and "Range_ok b"
  shows "Range_ok (Range_intersect a b)
       \<and> Range_bytes (Range_intersect a b) = Range_bytes a \<inter> Range_bytes b
       \<and> (Range_is_empty (Range_intersect a b) \<longleftrightarrow> Range_bytes a \<inter> Range_bytes b = {})"
  using Range_intersect_ok [OF assms] Range_bytes_empty_iff by metis

theorem intersect_exact_witness:
  "Range_bytes (Range_intersect \<lparr>r_offset = 2, r_length = 5\<rparr> \<lparr>r_offset = 4, r_length = 9\<rparr>)
     = Range_bytes \<lparr>r_offset = 2, r_length = 5\<rparr> \<inter> Range_bytes \<lparr>r_offset = 4, r_length = 9\<rparr>"
  using intersect_exact [of "\<lparr>r_offset = 2, r_length = 5\<rparr>" "\<lparr>r_offset = 4, r_length = 9\<rparr>"]
  by (simp add: Range_ok_def)

text \<open>
  \<^verbatim>\<open>ChunkRange::compute\<close> cuts a range that does not wrap into pieces that tile it: every piece
  is non-empty and lies inside one chunk, the pieces are in consecutive chunks from the one that
  holds the first byte to the one that holds the last, and copying the pieces out of any value one
  after the other gives exactly the bytes of the range.
\<close>

theorem compute_tiles_range:
  assumes "Range_ok r" and "cs \<noteq> 0"
  shows "\<exists>ps. ChunkRange_compute r cs = Some ps
       \<and> list_all (piece_ok cs) ps
       \<and> concat (map (piece_bytes cs v) ps) = subspan v (unat (r_offset r)) (unat (r_length r))
       \<and> map (\<lambda>c. unat (chunk_index c)) ps
         = (if r_length r = 0 then []
            else [unat (r_offset r) div unat cs
                  ..< Suc ((unat (r_offset r) + unat (r_length r) - 1) div unat cs)])"
  using assms ChunkRange_loop_pieces [of cs "r_offset r" "r_length r" v]
    ChunkRange_loop_indices [of cs "r_offset r" "r_length r"]
  by (simp add: ChunkRange_compute_def Range_ok_def)

theorem compute_tiles_range_witness:
  "\<exists>ps. ChunkRange_compute \<lparr>r_offset = 3, r_length = 6\<rparr> 4 = Some ps
     \<and> concat (map (piece_bytes 4 ''abcdefghijkl'') ps) = ''defghi''"
  using compute_tiles_range [of "\<lparr>r_offset = 3, r_length = 6\<rparr>" 4 "''abcdefghijkl''"]
  by (auto simp: Range_ok_def subspan_def)

end
