(* ===== verification/Binary64.thy ===== *)
theory Binary64
  imports Complex_Main "HOL-Library.Log_Nat" Prelude
begin

text \<open>
  IEEE 754 binary64 arithmetic as far as the sources use \<^verbatim>\<open>double\<close>: the adaptation parameter of
  the ARC cache, the disk watermarks, completion ratios and metrics. A double is the rational number
  it stands for; every operation computes the exact rational result and rounds it with \<open>fl\<close> to the
  nearest number with a 53-bit significand, ties to even. The numbers of this program are far from
  the ends of the exponent range, so overflow and subnormal numbers are not represented.
\<close>

type_synonym double = rat

definition exponent :: "rat \<Rightarrow> int" where
  "exponent x =
     (let (n, d) = quotient_of x;
          e = int (floorlog 2 (nat n)) - int (floorlog 2 (nat d))
      in if 2 powi e \<le> x then e else e - 1)"

definition round_half_even :: "rat \<Rightarrow> int" where
  "round_half_even x =
     (let f = \<lfloor>x\<rfloor>; d = x - of_int f
      in if d < 1 / 2 then f else if 1 / 2 < d then f + 1 else if even f then f else f + 1)"

definition fl :: "rat \<Rightarrow> double" where
  "fl x = (if x = 0 then 0
           else let s = 2 powi (52 - exponent \<bar>x\<bar>)
                in sgn x * (of_int (round_half_even (\<bar>x\<bar> * s)) / s))"

definition double_of_u64 :: "u64 \<Rightarrow> double" where
  "double_of_u64 w = fl (of_nat (unat w))"

text \<open>The conversion \<^verbatim>\<open>static_cast<size_t>(d)\<close> truncates; out of range it is undefined in C++.\<close>

definition u64_of_double :: "double \<Rightarrow> u64" where
  "u64_of_double d = of_int \<lfloor>d\<rfloor>"

lemma exponent_bounds:
  assumes "0 < x"
  shows "2 powi exponent x \<le> x" and "x < 2 powi (exponent x + 1)"
proof -
  obtain n d where q: "quotient_of x = (n, d)" by (cases "quotient_of x")
  have d: "0 < d" using q quotient_of_denom_pos by blast
  have x: "x = of_int n / of_int d" using q by (simp add: quotient_of_div)
  have n: "0 < n" using assms d x by (simp add: zero_less_divide_iff)
  let ?N = "floorlog 2 (nat n)" and ?D = "floorlog 2 (nat d)"
  have bound: "2 powi (int (floorlog 2 (nat m)) - 1) \<le> (of_int m :: rat)"
      "(of_int m :: rat) < 2 powi int (floorlog 2 (nat m))" if "0 < m" for m :: int
  proof -
    have b: "2 ^ (floorlog 2 (nat m) - 1) \<le> nat m" "nat m < 2 ^ floorlog 2 (nat m)"
      using floorlog_bounds [of "nat m" 2] that by simp_all
    have "0 < floorlog 2 (nat m)" using that by (simp add: floorlog_eq_zero_iff zero_less_iff_neq_zero)
    then have "int (floorlog 2 (nat m)) - 1 = int (floorlog 2 (nat m) - 1)" by simp
    moreover have "(2 :: rat) ^ (floorlog 2 (nat m) - 1) \<le> of_int m" "(of_int m :: rat) < 2 ^ floorlog 2 (nat m)"
      using b that by (metis of_nat_le_iff of_nat_less_iff of_nat_nat less_imp_le of_nat_power of_nat_numeral)+
    ultimately show "2 powi (int (floorlog 2 (nat m)) - 1) \<le> (of_int m :: rat)"
      "(of_int m :: rat) < 2 powi int (floorlog 2 (nat m))" by (simp_all del: of_nat_diff)
  qed
  have "x < 2 powi int ?N / 2 powi (int ?D - 1)"
    unfolding x using bound [OF n] bound [OF d] d n by (intro frac_less) auto
  also have "\<dots> = 2 powi (int ?N - int ?D + 1)"
    by (simp add: power_int_diff power_int_add)
  finally have u: "x < 2 powi (int ?N - int ?D + 1)" .
  have "2 powi (int ?N - int ?D - 1) = (2 :: rat) powi (int ?N - 1) / 2 powi int ?D"
    by (simp add: power_int_diff)
  also have "\<dots> \<le> x"
    unfolding x using bound [OF n] bound [OF d] d n by (intro frac_le) auto
  finally have l: "2 powi (int ?N - int ?D - 1) \<le> x" .
  show "2 powi exponent x \<le> x" "x < 2 powi (exponent x + 1)"
    using u l by (auto simp: exponent_def q Let_def)
qed

lemma round_half_even_error: "\<bar>of_int (round_half_even y) - y\<bar> \<le> 1 / 2"
proof -
  define f where "f = \<lfloor>y\<rfloor>"
  have "of_int f \<le> y" "y < of_int f + 1" unfolding f_def by linarith+
  then show ?thesis by (auto simp: round_half_even_def Let_def abs_if simp flip: f_def)
qed

lemma round_half_even_of_int [simp]: "round_half_even (of_int i) = i"
  by (simp add: round_half_even_def)

lemma round_half_even_nonneg: "0 \<le> y \<Longrightarrow> 0 \<le> round_half_even y"
  by (simp add: round_half_even_def Let_def)

lemma fl_0 [simp]: "fl 0 = 0"
  by (simp add: fl_def)

lemma fl_nonneg: "0 \<le> x \<Longrightarrow> 0 \<le> fl x"
  by (simp add: fl_def Let_def round_half_even_nonneg)

lemma double_of_u64_nonneg [simp]: "0 \<le> double_of_u64 w"
  unfolding double_of_u64_def by (intro fl_nonneg of_nat_0_le_iff)

lemma fl_relative_error: "\<bar>fl x - x\<bar> \<le> \<bar>x\<bar> / 2 ^ 53"
proof (cases "x = 0")
  case False
  let ?e = "exponent \<bar>x\<bar>"
  let ?s = "2 powi (52 - ?e) :: rat"
  let ?r = "of_int (round_half_even (\<bar>x\<bar> * ?s)) :: rat"
  have "fl x - x = sgn x * (?r / ?s - \<bar>x\<bar>)"
    using False by (simp add: fl_def Let_def algebra_simps abs_mult_sgn)
  then have "\<bar>fl x - x\<bar> = \<bar>?r / ?s - \<bar>x\<bar>\<bar>" using False by (simp add: abs_mult)
  also have "\<dots> = \<bar>?r - \<bar>x\<bar> * ?s\<bar> / ?s" by (simp add: field_simps abs_if)
  also have "\<dots> \<le> (1 / 2) / ?s" by (intro divide_right_mono round_half_even_error) simp
  also have "\<dots> = 2 powi ?e / 2 ^ 53" by (simp add: power_int_diff)
  also have "\<dots> \<le> \<bar>x\<bar> / 2 ^ 53"
    using exponent_bounds(1) [of "\<bar>x\<bar>"] False by (intro divide_right_mono) simp_all
  finally show ?thesis .
qed simp

lemma fl_of_nat_exact:
  assumes "n < 2 ^ 53"
  shows "fl (of_nat n) = of_nat n"
proof (cases "n = 0")
  case False
  let ?e = "exponent (of_nat n)"
  have "(2 :: rat) powi ?e \<le> of_nat n" using False exponent_bounds by simp
  also have "of_nat n < (2 :: rat) ^ 53" using assms by (simp only: of_nat_less_iff [symmetric, where ?'a = rat] of_nat_power of_nat_numeral)
  also have "(2 :: rat) ^ 53 = 2 powi 53" by (rule power_int_numeral [symmetric])
  finally have less: "(2 :: rat) powi ?e < 2 powi 53" .
  have "?e < 53"
  proof (rule ccontr)
    assume "\<not> ?e < 53"
    then have "(2 :: rat) powi 53 \<le> 2 powi ?e" by (intro power_int_increasing) simp_all
    from leD [OF this] less show False ..
  qed
  then have p: "(2 :: rat) powi (52 - ?e) = of_int (2 ^ nat (52 - ?e))"
    by (simp only: power_int_nonneg_exp of_int_power of_int_numeral)
  define t :: int where "t = 2 ^ nat (52 - ?e)"
  have t: "(2 :: rat) powi (52 - ?e) = of_int t" unfolding t_def by (rule p)
  have "of_int (round_half_even (of_nat n * of_int t)) = (of_nat n * of_int t :: rat)"
    using round_half_even_of_int [of "int n * t"] by simp
  moreover have "of_int t \<noteq> (0 :: rat)" by (simp add: t_def)
  ultimately show ?thesis
    using False by (simp only: fl_def Let_def abs_of_nat t) simp
qed simp

section \<open>Rounding is monotone and idempotent\<close>

lemma round_half_even_mono:
  assumes "x \<le> y"
  shows "round_half_even x \<le> round_half_even y"
proof (cases "\<lfloor>x\<rfloor> = \<lfloor>y\<rfloor>")
  case True
  then show ?thesis using assms by (auto simp: round_half_even_def Let_def)
next
  case False
  then have "\<lfloor>x\<rfloor> + 1 \<le> \<lfloor>y\<rfloor>" using floor_mono [OF assms] by simp
  moreover have "round_half_even x \<le> \<lfloor>x\<rfloor> + 1" "\<lfloor>y\<rfloor> \<le> round_half_even y"
    by (simp_all add: round_half_even_def Let_def)
  ultimately show ?thesis by linarith
qed

lemma powi_le_iff: "(2 :: rat) powi a \<le> 2 powi b \<longleftrightarrow> a \<le> b"
proof
  assume le: "(2 :: rat) powi a \<le> 2 powi b"
  show "a \<le> b"
  proof (rule ccontr)
    assume "\<not> a \<le> b"
    then have "(2 :: rat) powi b < 2 powi a" by (intro power_int_strict_increasing) simp_all
    from leD [OF le] this show False ..
  qed
qed (auto intro: power_int_increasing)

lemma powi_less_iff: "(2 :: rat) powi a < 2 powi b \<longleftrightarrow> a < b"
  unfolding not_le [symmetric] powi_le_iff ..

lemma exponent_unique:
  assumes "2 powi e \<le> x" and "x < 2 powi (e + 1)"
  shows "exponent x = e"
proof -
  have "0 < x" using assms(1) by (rule less_le_trans [rotated]) simp
  note b = exponent_bounds [OF this]
  have "2 powi e < (2 :: rat) powi (exponent x + 1)" using assms(1) b(2) by (rule le_less_trans)
  then have "e < exponent x + 1" by (simp only: powi_less_iff)
  moreover have "2 powi exponent x < (2 :: rat) powi (e + 1)" using b(1) assms(2) by (rule le_less_trans)
  then have "exponent x < e + 1" by (simp only: powi_less_iff)
  ultimately show ?thesis by simp
qed

text \<open>The significand of a positive number and its range.\<close>

definition significand :: "rat \<Rightarrow> int" where
  "significand x = round_half_even (x * 2 powi (52 - exponent x))"

lemma fl_pos: "0 < x \<Longrightarrow> fl x = of_int (significand x) / 2 powi (52 - exponent x)"
  by (simp add: fl_def significand_def Let_def)

lemma significand_bounds:
  assumes "0 < x"
  shows "2 ^ 52 \<le> significand x" and "significand x \<le> 2 ^ 53"
proof -
  let ?s = "(2 :: rat) powi (52 - exponent x)"
  note b = exponent_bounds [OF assms]
  have "2 powi exponent x * ?s \<le> x * ?s" using b(1) by (intro mult_right_mono) simp_all
  moreover have "2 powi exponent x * ?s = of_int (2 ^ 52)" by (simp flip: power_int_add)
  ultimately have "round_half_even (of_int (2 ^ 52)) \<le> significand x"
    unfolding significand_def by (intro round_half_even_mono) (simp only:)
  then show "2 ^ 52 \<le> significand x" by (simp only: round_half_even_of_int)
  have "x * ?s \<le> 2 powi (exponent x + 1) * ?s" using b(2) by (intro mult_right_mono) simp_all
  moreover have "2 powi (exponent x + 1) * ?s = of_int (2 ^ 53)" by (simp flip: power_int_add)
  ultimately have "significand x \<le> round_half_even (of_int (2 ^ 53))"
    unfolding significand_def by (intro round_half_even_mono) (simp only:)
  then show "significand x \<le> 2 ^ 53" by (simp only: round_half_even_of_int)
qed

lemma fl_bounds:
  assumes "0 < x"
  shows "2 powi exponent x \<le> fl x" and "fl x \<le> 2 powi (exponent x + 1)"
proof -
  let ?s = "(2 :: rat) powi (52 - exponent x)"
  have "(of_int (2 ^ 52) :: rat) / ?s \<le> fl x"
    unfolding fl_pos [OF assms] using significand_bounds(1) [OF assms]
    by (intro divide_right_mono) (simp_all only: of_int_le_iff, simp)
  moreover have "(of_int (2 ^ 52) :: rat) / ?s = 2 powi exponent x" by (simp add: power_int_diff)
  ultimately show "2 powi exponent x \<le> fl x" by (simp only:)
  have "fl x \<le> (of_int (2 ^ 53) :: rat) / ?s"
    unfolding fl_pos [OF assms] using significand_bounds(2) [OF assms]
    by (intro divide_right_mono) (simp_all only: of_int_le_iff, simp)
  moreover have "(of_int (2 ^ 53) :: rat) / ?s = 2 powi (exponent x + 1)" by (simp add: power_int_diff power_int_add)
  ultimately show "fl x \<le> 2 powi (exponent x + 1)" by (simp only:)
qed

lemma fl_mono_pos:
  assumes "0 < x" and "x \<le> y"
  shows "fl x \<le> fl y"
proof -
  have y: "0 < y" using assms by (rule less_le_trans)
  show ?thesis
  proof (cases "exponent x = exponent y")
    case True
    have "significand x \<le> significand y"
      unfolding significand_def True using assms(2) by (intro round_half_even_mono mult_right_mono) simp_all
    then show ?thesis unfolding fl_pos [OF assms(1)] fl_pos [OF y] True by (intro divide_right_mono) simp_all
  next
    case False
    have "2 powi exponent x < (2 :: rat) powi (exponent y + 1)"
      using exponent_bounds(1) [OF assms(1)] assms(2) exponent_bounds(2) [OF y] by (meson le_less_trans order_trans)
    then have "exponent x < exponent y + 1" by (simp only: powi_less_iff)
    then have "exponent x + 1 \<le> exponent y" using False by simp
    then have "(2 :: rat) powi (exponent x + 1) \<le> 2 powi exponent y" by (simp only: powi_le_iff)
    then show ?thesis using fl_bounds(2) [OF assms(1)] fl_bounds(1) [OF y] by (meson order_trans)
  qed
qed

lemma fl_minus: "fl (- x) = - fl x"
  by (simp add: fl_def Let_def)

lemma fl_mono:
  assumes "x \<le> y"
  shows "fl x \<le> fl y"
proof (cases "0 < x")
  case True
  then show ?thesis using assms by (rule fl_mono_pos)
next
  case False
  show ?thesis
  proof (cases "0 \<le> y")
    case True
    have "0 \<le> fl (- x)" "0 \<le> fl y" using False True by (simp_all add: fl_nonneg)
    then show ?thesis by (simp add: fl_minus)
  next
    case False
    then have "fl (- y) \<le> fl (- x)" using assms by (intro fl_mono_pos) simp_all
    then show ?thesis by (simp add: fl_minus)
  qed
qed

lemma fl_exact_scaled:
  assumes "0 < z" and "z * 2 powi (52 - exponent z) = of_int i"
  shows "fl z = z"
proof -
  have "significand z = i" unfolding significand_def assms(2) by (rule round_half_even_of_int)
  moreover have "z = of_int i / 2 powi (52 - exponent z)" unfolding assms(2) [symmetric] by simp
  ultimately show ?thesis using fl_pos [OF assms(1)] by simp
qed

lemma fl_idem_pos:
  assumes "0 < x"
  shows "fl (fl x) = fl x"
proof -
  let ?e = "exponent x"
  have pos: "0 < fl x" using fl_bounds(1) [OF assms] by (rule less_le_trans [rotated]) simp
  show ?thesis
  proof (cases "fl x = 2 powi (?e + 1)")
    case True
    have "exponent (fl x) = ?e + 1"
      unfolding True by (intro exponent_unique power_int_strict_increasing) simp_all
    then have "fl x * 2 powi (52 - exponent (fl x)) = of_int (2 ^ 52)"
      using True by (simp add: True flip: power_int_add)
    then show ?thesis by (rule fl_exact_scaled [OF pos])
  next
    case False
    then have "exponent (fl x) = ?e" using fl_bounds [OF assms] by (intro exponent_unique) simp_all
    then have "fl x * 2 powi (52 - exponent (fl x)) = of_int (significand x)"
      using fl_pos [OF assms] by simp
    then show ?thesis by (rule fl_exact_scaled [OF pos])
  qed
qed

lemma fl_double_of_u64 [simp]: "fl (double_of_u64 w) = double_of_u64 w"
proof (cases "of_nat (unat w) = (0 :: rat)")
  case False
  have "0 < (of_nat (unat w) :: rat)" using False by (simp only: of_nat_0_less_iff of_nat_eq_0_iff)
  then show ?thesis unfolding double_of_u64_def by (rule fl_idem_pos)
qed (simp only: double_of_u64_def fl_0)

end
