(* ===== verification/Chunks.thy ===== *)
theory Chunks
  imports Types Binary64
begin

text \<open>
  Chunks, value descriptors and partial values: \<^verbatim>\<open>include/elcache/chunk.hpp\<close> and
  \<^verbatim>\<open>src/core/chunk.cpp\<close>. A chunk is its byte vector; its identifier is the 128-bit hash of its
  content. A \<open>PartialValue\<close> tracks which chunks of a value are present; its range queries are shown
  to compute the set of present and missing byte positions.
\<close>

section \<open>Chunks\<close>

type_synonym Chunk = "byte list"

text \<open>A \<^verbatim>\<open>shared_ptr<Chunk>\<close>; the null pointer is \<open>None\<close>.\<close>

type_synonym SharedChunk = "Chunk option"

definition fnv_chunk_hash128 :: "byte list \<Rightarrow> Hash128" where
  "fnv_chunk_hash128 data =
     (let (h1, h2) = foldl (\<lambda>(h1, h2) b.
            let h1 = (h1 XOR ucast b) * 1099511628211;
                h2 = (h2 XOR ucast b) * 1099511628211;
                h2 = push_bit 13 h2 OR drop_bit 51 h2
            in (h1, h2))
          (14695981039346656037 :: u64, 14695981039346656037 XOR 0x9E3779B97F4A7C15 :: u64) data
      in Hash128 h1 h2)"

definition fnv_hasher :: hasher where
  "fnv_hasher = \<lparr>hash64 = fnv1a_64, key_hash128 = fnv_key_hash128, chunk_hash128 = fnv_chunk_hash128\<rparr>"

definition Chunk_id :: "hasher \<Rightarrow> Chunk \<Rightarrow> ChunkId" where
  "Chunk_id H data = ChunkId (chunk_hash128 H data)"

definition Chunk_read :: "Chunk \<Rightarrow> u64 \<Rightarrow> u64 \<Rightarrow> byte list" where
  "Chunk_read data offset len =
     (if vec_size data \<le> offset then []
      else let actual_length = min len (vec_size data - offset)
           in subspan data (unat offset) (unat actual_length))"

text \<open>The chunk object with its lazily computed, cached identifier.\<close>

record LazyChunk =
  lc_data :: "byte list"
  lc_id :: "ChunkId option"

definition LazyChunk_new :: "byte list \<Rightarrow> LazyChunk" where
  "LazyChunk_new data = \<lparr>lc_data = data, lc_id = None\<rparr>"

definition LazyChunk_id :: "hasher \<Rightarrow> LazyChunk \<Rightarrow> ChunkId \<times> LazyChunk" where
  "LazyChunk_id H c = (case lc_id c of
       Some i \<Rightarrow> (i, c)
     | None \<Rightarrow> (let i = Chunk_id H (lc_data c) in (i, c\<lparr>lc_id := Some i\<rparr>)))"

record ChunkMeta =
  cm_id :: ChunkId
  cm_size :: u32
  cm_flags :: u16
  cm_created_at :: Timestamp

definition ChunkMeta_is_remote :: "ChunkMeta \<Rightarrow> bool" where
  "ChunkMeta_is_remote m = (cm_flags m AND 1 \<noteq> 0)"

section \<open>Value descriptors\<close>

record ValueDescriptor =
  vd_key :: CacheKey
  vd_total_size :: u64
  vd_chunks :: "ChunkId list"
  vd_metadata :: CacheMetadata

definition locate_chunk :: "u64 \<Rightarrow> u64 \<times> u64" where
  "locate_chunk byte_offset = (byte_offset div CHUNK_SIZE, byte_offset mod CHUNK_SIZE)"

definition ValueDescriptor_is_complete :: "ValueDescriptor \<Rightarrow> bool" where
  "ValueDescriptor_is_complete d =
     (vec_size (vd_chunks d) = (vd_total_size d + CHUNK_SIZE - 1) div CHUNK_SIZE)"

text \<open>The last chunk index of a request, shared by \<^verbatim>\<open>chunks_for_range\<close> and \<^verbatim>\<open>has_range\<close>.\<close>

definition last_chunk :: "u64 \<Rightarrow> Range \<Rightarrow> u64" where
  "last_chunk total_size rng =
     (let end_offset = min (Range_end rng) total_size
      in if 0 < end_offset then (end_offset - 1) div CHUNK_SIZE else 0)"

function chunk_index_loop :: "u64 \<Rightarrow> u64 \<Rightarrow> u64 \<Rightarrow> u64 list" where
  "chunk_index_loop n e i = (if i \<le> e \<and> i < n then i # chunk_index_loop n e (i + 1) else [])"
  by pat_completeness auto

termination chunk_index_loop
  by (relation "measure (\<lambda>(n, e, i). unat n - unat i)")
     (auto simp: unat_Suc_below word_less_nat_alt)

declare chunk_index_loop.simps [simp del]

definition chunks_for_range :: "ValueDescriptor \<Rightarrow> Range \<Rightarrow> u64 list" where
  "chunks_for_range d rng =
     (if r_length rng = 0 \<or> vd_total_size d \<le> r_offset rng then []
      else chunk_index_loop (vec_size (vd_chunks d)) (last_chunk (vd_total_size d) rng)
             (r_offset rng div CHUNK_SIZE))"

section \<open>Partial values\<close>

record PartialValue =
  pv_total_size :: u64
  chunk_availability :: "bool list"
  chunk_ids :: "ChunkId list"

definition PartialValue_new :: "ValueDescriptor \<Rightarrow> PartialValue" where
  "PartialValue_new d =
     \<lparr>pv_total_size = vd_total_size d,
      chunk_availability = replicate (length (vd_chunks d)) False,
      chunk_ids = vd_chunks d\<rparr>"

definition PartialValue_has_chunk :: "PartialValue \<Rightarrow> u64 \<Rightarrow> bool" where
  "PartialValue_has_chunk pv i =
     (if vec_size (chunk_availability pv) \<le> i then False else chunk_availability pv ! unat i)"

definition mark_chunk_available :: "u64 \<Rightarrow> ChunkId \<Rightarrow> PartialValue \<Rightarrow> PartialValue" where
  "mark_chunk_available i c pv =
     (if vec_size (chunk_availability pv) \<le> i then pv
      else pv\<lparr>chunk_availability := (chunk_availability pv)[unat i := True],
             chunk_ids := (chunk_ids pv)[unat i := c]\<rparr>)"

definition mark_chunk_unavailable :: "u64 \<Rightarrow> PartialValue \<Rightarrow> PartialValue" where
  "mark_chunk_unavailable i pv =
     (if vec_size (chunk_availability pv) \<le> i then pv
      else pv\<lparr>chunk_availability := (chunk_availability pv)[unat i := False]\<rparr>)"

text \<open>The loop of \<^verbatim>\<open>has_range\<close>: it stops at the first index past the vector or not available.\<close>

function has_range_loop :: "bool list \<Rightarrow> u64 \<Rightarrow> u64 \<Rightarrow> bool" where
  "has_range_loop av e i =
     (if i \<le> e then
        if vec_size av \<le> i \<or> \<not> av ! unat i then False else has_range_loop av e (i + 1)
      else True)"
  by pat_completeness auto

termination has_range_loop
  by (relation "measure (\<lambda>(av, e, i). unat (vec_size av) - unat i)")
     (auto simp: unat_Suc_below word_less_nat_alt not_le)

declare has_range_loop.simps [simp del]

definition PartialValue_has_range :: "PartialValue \<Rightarrow> Range \<Rightarrow> bool" where
  "PartialValue_has_range pv rng =
     (if r_length rng = 0 then True
      else if pv_total_size pv \<le> r_offset rng then False
      else has_range_loop (chunk_availability pv) (last_chunk (pv_total_size pv) rng)
             (r_offset rng div CHUNK_SIZE))"

text \<open>Append a missing range, merging it with the previous one when they touch.\<close>

definition push_missing :: "Range list \<Rightarrow> u64 \<Rightarrow> u64 \<Rightarrow> Range list" where
  "push_missing missing s e =
     (if missing \<noteq> [] \<and> Range_end (last missing) = s
      then butlast missing @ [(last missing)\<lparr>r_length := r_length (last missing) + (e - s)\<rparr>]
      else missing @ [\<lparr>r_offset = s, r_length = e - s\<rparr>])"

text \<open>
  The loop of \<^verbatim>\<open>missing_ranges\<close>. When \<open>chunk_start + CHUNK_SIZE\<close> wraps around, \<open>current\<close> moves
  backwards and the C++ loop may run forever; \<open>None\<close> is that outcome.
\<close>

partial_function (option) missing_loop ::
    "PartialValue \<Rightarrow> u64 \<Rightarrow> u64 \<Rightarrow> Range list \<Rightarrow> Range list option" where
  "missing_loop pv effective_end current missing =
     (if current < effective_end then
        let index = current div CHUNK_SIZE;
            chunk_start = index * CHUNK_SIZE;
            chunk_end = min (chunk_start + CHUNK_SIZE) (pv_total_size pv);
            missing' = (if vec_size (chunk_availability pv) \<le> index \<or> \<not> chunk_availability pv ! unat index
                        then push_missing missing (max current chunk_start) (min effective_end chunk_end)
                        else missing)
        in missing_loop pv effective_end chunk_end missing'
      else Some missing)"

declare missing_loop.simps [code]

definition missing_ranges :: "PartialValue \<Rightarrow> Range \<Rightarrow> Range list option" where
  "missing_ranges pv rng =
     (if r_length rng = 0 \<or> pv_total_size pv \<le> r_offset rng then Some []
      else missing_loop pv (min (Range_end rng) (pv_total_size pv)) (r_offset rng) [])"

text \<open>\<^verbatim>\<open>available_ranges\<close>: the inner loop extends a run of available chunks, the outer collects runs.\<close>

function available_run :: "PartialValue \<Rightarrow> u64 \<Rightarrow> u64 \<Rightarrow> u64 \<times> u64" where
  "available_run pv i stop =
     (if i < vec_size (chunk_availability pv) \<and> chunk_availability pv ! unat i
      then available_run pv (i + 1) (min ((i + 1) * CHUNK_SIZE) (pv_total_size pv))
      else (i, stop))"
  by pat_completeness auto

termination available_run
  by (relation "measure (\<lambda>(pv, i, stop). unat (vec_size (chunk_availability pv)) - unat i)")
     (auto simp: unat_Suc_below word_less_nat_alt)

declare available_run.simps [simp del]

lemma available_run_ge: "unat i \<le> unat (fst (available_run pv i stop))"
proof (induction pv i stop rule: available_run.induct)
  case (1 pv i stop)
  then show ?case
    by (subst available_run.simps) (auto simp: unat_Suc_below dest: Suc_leD)
qed

lemma available_run_gt:
  assumes "i < vec_size (chunk_availability pv)" and "chunk_availability pv ! unat i"
  shows "unat i < unat (fst (available_run pv i stop))"
  using available_run_ge [of "i + 1" pv] assms
  by (subst available_run.simps) (simp add: unat_Suc_below Suc_le_eq)

function available_loop :: "PartialValue \<Rightarrow> u64 \<Rightarrow> Range list" where
  "available_loop pv i =
     (if i < vec_size (chunk_availability pv) then
        if chunk_availability pv ! unat i then
          let start = i * CHUNK_SIZE; (i', stop) = available_run pv i start
          in \<lparr>r_offset = start, r_length = stop - start\<rparr> # available_loop pv i'
        else available_loop pv (i + 1)
      else [])"
  by pat_completeness auto

termination available_loop
proof (relation "measure (\<lambda>(pv, i). unat (vec_size (chunk_availability pv)) - unat i)", goal_cases)
  case (2 pv i start p i' stop)
  then have "unat i < unat i'" using available_run_gt [of i pv start] by (metis fst_conv)
  then show ?case using 2(1) by (auto simp: word_less_nat_alt)
qed (auto simp: unat_Suc_below word_less_nat_alt)

declare available_loop.simps [simp del]

definition available_ranges :: "PartialValue \<Rightarrow> Range list" where
  "available_ranges pv = available_loop pv 0"

definition completion_ratio :: "PartialValue \<Rightarrow> double" where
  "completion_ratio pv =
     (let av = chunk_availability pv
      in if av = [] then 0
         else fl (double_of_u64 (of_nat (length (filter id av))) / double_of_u64 (vec_size av)))"

definition available_bytes :: "PartialValue \<Rightarrow> u64" where
  "available_bytes pv =
     (let av = chunk_availability pv
      in foldl (\<lambda>bytes i.
           if av ! i then
             if of_nat i = vec_size av - 1 then bytes + (pv_total_size pv - of_nat i * CHUNK_SIZE)
             else bytes + CHUNK_SIZE
           else bytes) 0 [0 ..< length av])"

section \<open>Lazy identifiers\<close>

definition LazyChunk_inv :: "hasher \<Rightarrow> LazyChunk \<Rightarrow> bool" where
  "LazyChunk_inv H c = (\<forall>i. lc_id c = Some i \<longrightarrow> i = Chunk_id H (lc_data c))"

lemma LazyChunk_new_inv: "LazyChunk_inv H (LazyChunk_new d)"
  by (simp add: LazyChunk_inv_def LazyChunk_new_def)

lemma LazyChunk_id_refines:
  assumes "LazyChunk_inv H c" and "LazyChunk_id H c = (i, c')"
  shows "i = Chunk_id H (lc_data c) \<and> lc_data c' = lc_data c \<and> LazyChunk_inv H c'"
  using assms by (auto simp: LazyChunk_id_def LazyChunk_inv_def Let_def split: option.splits)

lemma Chunk_read_subspan:
  assumes "fits d"
  shows "Chunk_read d off len = subspan d (unat off) (unat len)"
proof (cases "vec_size d \<le> off")
  case True
  then show ?thesis using assms by (simp add: Chunk_read_def word_le_nat_alt unat_vec_size)
next
  case False
  then have "unat (vec_size d - off) = length d - unat off"
    using assms by (simp add: unat_sub_fits word_le_nat_alt unat_vec_size)
  then show ?thesis
    using False by (auto simp: Chunk_read_def unat_min_word subspan_def min_def word_le_nat_alt)
qed

section \<open>Chunk indices of a range\<close>

text \<open>Byte positions and chunk indices over the natural numbers.\<close>

abbreviation CS :: nat where
  "CS \<equiv> unat CHUNK_SIZE"

lemma div_image_interval:
  fixes a b c :: nat
  assumes "a < b" and "0 < c"
  shows "(\<lambda>x. x div c) ` {a ..< b} = {a div c .. (b - 1) div c}"
proof (intro equalityI subsetI)
  fix j assume j: "j \<in> {a div c .. (b - 1) div c}"
  have "j * c \<le> b - 1" using j by (metis atLeastAtMost_iff assms(2) less_eq_div_iff_mult_less_eq)
  moreover have "a < Suc j * c"
    using j assms(2) by (metis atLeastAtMost_iff div_less_iff_less_mult less_Suc_eq_le)
  ultimately have "max a (j * c) \<in> {a ..< b}" "max a (j * c) div c = j"
    using assms j by (auto simp: max_def mult.commute [of c] intro!: div_nat_eqI)
  then show "j \<in> (\<lambda>x. x div c) ` {a ..< b}" by (metis image_eqI)
qed (use assms in \<open>auto intro!: div_le_mono\<close>)

lemma unat_last_chunk:
  assumes "Range_ok r" and "r_length r \<noteq> 0" and "r_offset r < tot"
  shows "unat (last_chunk tot r) = (min (unat (r_offset r) + unat (r_length r)) (unat tot) - 1) div CS"
proof -
  let ?e = "min (Range_end r) tot"
  have e: "unat ?e = min (unat (r_offset r) + unat (r_length r)) (unat tot)"
    using assms(1) by (simp add: unat_min_word unat_Range_end)
  have "0 < unat ?e" using assms(2,3) unat_gt_0 [of "r_length r"] unfolding e by (auto simp: word_less_nat_alt)
  then have "0 < ?e" "unat (?e - 1) = unat ?e - 1"
    by (simp_all add: word_less_nat_alt unat_sub_fits)
  then show ?thesis using e by (simp add: last_chunk_def Let_def unat_div)
qed

lemma chunk_index_loop_upt:
  "map unat (chunk_index_loop n e i) = [unat i ..< min (Suc (unat e)) (unat n)]"
proof (induction n e i rule: chunk_index_loop.induct)
  case (1 n e i)
  show ?case
  proof (cases "i \<le> e \<and> i < n")
    case True
    then have "unat i < min (Suc (unat e)) (unat n)" by (simp add: word_le_nat_alt word_less_nat_alt)
    then show ?thesis
      using 1 [OF True] True unat_Suc_below [of i n]
      by (subst chunk_index_loop.simps) (simp add: upt_conv_Cons)
  next
    case False
    then have "min (Suc (unat e)) (unat n) \<le> unat i" by (auto simp: word_le_nat_alt word_less_nat_alt)
    then show ?thesis using False by (subst chunk_index_loop.simps) simp
  qed
qed

lemma has_range_loop_iff:
  assumes "fits av"
  shows "has_range_loop av e i \<longleftrightarrow> (\<forall>j. unat i \<le> j \<and> j \<le> unat e \<longrightarrow> j < length av \<and> av ! j)"
  using assms
proof (induction av e i rule: has_range_loop.induct)
  case (1 av e i)
  show ?case
  proof (cases "i \<le> e \<and> i < vec_size av \<and> av ! unat i")
    case True
    then have "has_range_loop av e i \<longleftrightarrow> has_range_loop av e (i + 1)"
      by (subst has_range_loop.simps) (auto simp: not_le [symmetric])
    also have "\<dots> \<longleftrightarrow> (\<forall>j. Suc (unat i) \<le> j \<and> j \<le> unat e \<longrightarrow> j < length av \<and> av ! j)"
      using 1 True by (simp add: unat_Suc_below [of i "vec_size av"] not_le)
    also have "\<dots> \<longleftrightarrow> (\<forall>j. unat i \<le> j \<and> j \<le> unat e \<longrightarrow> j < length av \<and> av ! j)"
    proof -
      have "unat i < length av" "av ! unat i"
        using True 1(2) by (auto simp: word_less_nat_alt unat_vec_size)
      then show ?thesis by (metis Suc_leD Suc_leI le_neq_implies_less)
    qed
    finally show ?thesis .
  next
    case False
    then show ?thesis
      using 1(2) by (subst has_range_loop.simps) (auto simp: word_le_nat_alt word_less_nat_alt unat_vec_size)
  qed
qed

section \<open>Partial values as sets of byte positions\<close>

text \<open>\<open>avail_set pv\<close> is the set of byte positions of the value that lie in an available chunk.\<close>

definition avail_chunk :: "PartialValue \<Rightarrow> nat \<Rightarrow> bool" where
  "avail_chunk pv j = (j < length (chunk_availability pv) \<and> chunk_availability pv ! j)"

definition avail_set :: "PartialValue \<Rightarrow> nat set" where
  "avail_set pv = {b. b < unat (pv_total_size pv) \<and> avail_chunk pv (b div CS)}"

definition requested :: "PartialValue \<Rightarrow> Range \<Rightarrow> nat set" where
  "requested pv r = Range_bytes r \<inter> {..< unat (pv_total_size pv)}"

lemma requested_alt:
  "requested pv r = {unat (r_offset r) ..< min (unat (r_offset r) + unat (r_length r)) (unat (pv_total_size pv))}"
  by (auto simp: requested_def Range_bytes_def)

lemma avail_chunk_word:
  assumes "fits (chunk_availability pv)"
  shows "vec_size (chunk_availability pv) \<le> i \<or> \<not> chunk_availability pv ! unat i
     \<longleftrightarrow> \<not> avail_chunk pv (unat i)"
  using assms by (auto simp: avail_chunk_def word_le_nat_alt unat_vec_size)

lemma has_range_correct:
  assumes "Range_ok r" and "fits (chunk_availability pv)" and "r_offset r < pv_total_size pv"
  shows "PartialValue_has_range pv r \<longleftrightarrow> requested pv r \<subseteq> avail_set pv"
proof (cases "r_length r = 0")
  case True
  then show ?thesis by (simp add: PartialValue_has_range_def requested_def Range_bytes_def)
next
  case False
  let ?a = "unat (r_offset r)"
  let ?b = "min (unat (r_offset r) + unat (r_length r)) (unat (pv_total_size pv))"
  have lt: "?a < ?b" using assms(3) False unat_gt_0 [of "r_length r"] by (auto simp: word_less_nat_alt)
  have "PartialValue_has_range pv r \<longleftrightarrow> (\<forall>j\<in>{?a div CS .. (?b - 1) div CS}. avail_chunk pv j)"
    using assms False
    by (auto simp: PartialValue_has_range_def has_range_loop_iff unat_last_chunk unat_div avail_chunk_def)
  also have "\<dots> \<longleftrightarrow> (\<forall>b\<in>{?a ..< ?b}. avail_chunk pv (b div CS))"
    unfolding div_image_interval [OF lt CHUNK_SIZE_pos(1), symmetric] by simp
  also have "\<dots> \<longleftrightarrow> requested pv r \<subseteq> avail_set pv"
    by (auto simp: requested_alt avail_set_def)
  finally show ?thesis .
qed

section \<open>Missing ranges\<close>

text \<open>Lists of ranges that are non-empty, in increasing order and separated by gaps.\<close>

definition ranges_sep :: "Range list \<Rightarrow> bool" where
  "ranges_sep rs =
     (list_all (\<lambda>r. Range_ok r \<and> r_length r \<noteq> 0) rs
      \<and> sorted_wrt (\<lambda>a b. unat (Range_end a) < unat (r_offset b)) rs)"

definition ranges_set :: "Range list \<Rightarrow> nat set" where
  "ranges_set rs = (\<Union>r\<in>set rs. Range_bytes r)"

definition ends_by :: "nat \<Rightarrow> Range list \<Rightarrow> bool" where
  "ends_by n rs = list_all (\<lambda>r. unat (Range_end r) \<le> n) rs"

lemma ranges_empty [simp]: "ranges_sep []" "ranges_set [] = {}" "ends_by n []"
  by (simp_all add: ranges_sep_def ranges_set_def ends_by_def)

lemma ends_by_mono: "ends_by m rs \<Longrightarrow> m \<le> n \<Longrightarrow> ends_by n rs"
  by (auto simp: ends_by_def list_all_iff intro: order_trans)

lemma ranges_snoc [simp]:
  "ranges_sep (rs @ [l]) \<longleftrightarrow> ranges_sep rs \<and> Range_ok l \<and> r_length l \<noteq> 0
     \<and> (\<forall>r\<in>set rs. unat (Range_end r) < unat (r_offset l))"
  "ranges_set (rs @ [l]) = ranges_set rs \<union> Range_bytes l"
  "ends_by n (rs @ [l]) \<longleftrightarrow> ends_by n rs \<and> unat (Range_end l) \<le> n"
  by (auto simp: ranges_sep_def ranges_set_def ends_by_def sorted_wrt_append)

lemma ranges_sep_ends_before:
  assumes "ranges_sep ms" and "ends_by n ms" and "ms = [] \<or> unat (Range_end (last ms)) \<noteq> n"
    and "r \<in> set ms"
  shows "unat (Range_end r) < n"
proof -
  obtain xs l where ms: "ms = xs @ [l]" using assms(4) by (cases ms rule: rev_cases) auto
  have "unat (r_offset l) \<le> unat (Range_end l)" using assms(1) by (simp add: ms unat_Range_end)
  moreover have "unat (Range_end l) < n" using assms(2,3) by (simp add: ms)
  moreover have "r = l \<or> unat (Range_end r) < unat (r_offset l)" using assms(1,4) by (auto simp: ms)
  ultimately show ?thesis by auto
qed

lemma range_of_bounds:
  assumes "s < e"
  shows "Range_ok \<lparr>r_offset = s, r_length = e - s\<rparr>" "e - s \<noteq> 0"
    "Range_bytes \<lparr>r_offset = s, r_length = e - s\<rparr> = {unat s ..< unat e}"
    "Range_end \<lparr>r_offset = s, r_length = e - s\<rparr> = e"
proof -
  have se: "unat s < unat e" using assms by (simp add: word_less_nat_alt)
  have d: "unat (e - s) = unat e - unat s" using se by (simp add: unat_sub_fits)
  show "Range_ok \<lparr>r_offset = s, r_length = e - s\<rparr>" "e - s \<noteq> 0"
    "Range_bytes \<lparr>r_offset = s, r_length = e - s\<rparr> = {unat s ..< unat e}"
    "Range_end \<lparr>r_offset = s, r_length = e - s\<rparr> = e"
    using d se unat_u64_less [of e] by (auto simp: Range_ok_def Range_bytes_def Range_end_def)
qed

lemma push_missing_correct:
  assumes "ranges_sep ms" and "ends_by (unat s) ms" and "s < e"
  shows "ranges_sep (push_missing ms s e)" and "ends_by (unat e) (push_missing ms s e)"
    and "ranges_set (push_missing ms s e) = ranges_set ms \<union> {unat s ..< unat e}"
proof -
  have se: "unat s < unat e" using assms(3) by (simp add: word_less_nat_alt)
  note new = range_of_bounds [OF assms(3)]
  have "ranges_sep (push_missing ms s e) \<and> ends_by (unat e) (push_missing ms s e)
      \<and> ranges_set (push_missing ms s e) = ranges_set ms \<union> {unat s ..< unat e}"
  proof (cases "ms \<noteq> [] \<and> Range_end (last ms) = s")
    case False
    then have "ms = [] \<or> unat (Range_end (last ms)) \<noteq> unat s" by (simp add: word_eq_unat)
    then have "\<forall>r\<in>set ms. unat (Range_end r) < unat s"
      using ranges_sep_ends_before assms(1,2) by blast
    then show ?thesis
      using False assms(1,2) new se
      by (auto simp: push_missing_def intro: ends_by_mono)
  next
    case True
    then obtain xs l where ms: "ms = xs @ [l]" by (metis append_butlast_last_id)
    let ?l = "l\<lparr>r_length := r_length l + (e - s)\<rparr>"
    have le: "Range_end l = s" and lok: "Range_ok l" "r_length l \<noteq> 0"
      using True assms(1) by (simp_all add: ms)
    have eq: "?l = l\<lparr>r_length := e - r_offset l\<rparr>" using le by (simp add: Range_end_def algebra_simps)
    have "unat (r_offset l) \<le> unat s" using unat_Range_end [OF lok(1)] le by simp
    then have "r_offset l < e" using se by (simp add: word_less_nat_alt)
    then have lnew: "Range_ok ?l" "r_length ?l \<noteq> 0" "Range_end ?l = e"
        "Range_bytes ?l = {unat (r_offset l) ..< unat e}"
      unfolding eq using range_of_bounds [of "r_offset l" e]
      by (simp_all add: Range_ok_def Range_end_def Range_bytes_def)
    moreover have "Range_bytes l = {unat (r_offset l) ..< unat s}"
      using unat_Range_end [OF lok(1)] le by (simp add: Range_bytes_def)
    ultimately show ?thesis
      using True assms(1,2) se \<open>unat (r_offset l) \<le> unat s\<close>
      by (auto simp: push_missing_def ms intro: ends_by_mono)
  qed
  then show "ranges_sep (push_missing ms s e)" "ends_by (unat e) (push_missing ms s e)"
    "ranges_set (push_missing ms s e) = ranges_set ms \<union> {unat s ..< unat e}" by auto
qed

text \<open>The chunk around a byte position, when the value does not reach the top of the address range.\<close>

definition chunk_stop :: "u64 \<Rightarrow> u64 \<Rightarrow> u64" where
  "chunk_stop tot cur = min (cur div CHUNK_SIZE * CHUNK_SIZE + CHUNK_SIZE) tot"

lemma chunk_stop_facts:
  assumes "unat tot + CS < 2 ^ 64" and "cur < tot"
  shows "unat (chunk_stop tot cur) = min (unat cur div CS * CS + CS) (unat tot)"
    and "unat cur < unat (chunk_stop tot cur)"
    and "max cur (cur div CHUNK_SIZE * CHUNK_SIZE) = cur"
    and "\<And>b. unat cur \<le> b \<Longrightarrow> b < unat (chunk_stop tot cur) \<Longrightarrow> b div CS = unat cur div CS"
proof -
  have lt: "unat cur < unat tot" using assms(2) by (simp add: word_less_nat_alt)
  have le: "unat cur div CS * CS \<le> unat cur" by simp
  have m: "unat (cur div CHUNK_SIZE * CHUNK_SIZE) = unat cur div CS * CS"
    using order_le_less_trans [OF le unat_u64_less] by (subst unat_mult_fits) (simp_all add: unat_div)
  have a: "unat (cur div CHUNK_SIZE * CHUNK_SIZE + CHUNK_SIZE) = unat cur div CS * CS + CS"
  proof -
    have "unat cur div CS * CS + CS < 2 ^ 64" using le lt assms(1) by linarith
    then show ?thesis using m by (simp add: unat_add_fits)
  qed
  show stop: "unat (chunk_stop tot cur) = min (unat cur div CS * CS + CS) (unat tot)"
    by (simp add: chunk_stop_def unat_min_word a)
  have up: "unat cur < unat cur div CS * CS + CS"
    using div_mult_mod_eq [of "unat cur" CS] mod_less_divisor [OF CHUNK_SIZE_pos(1), of "unat cur"]
    by linarith
  show "unat cur < unat (chunk_stop tot cur)" using up lt by (simp add: stop)
  show "max cur (cur div CHUNK_SIZE * CHUNK_SIZE) = cur"
    using m by (intro max_absorb1) (simp add: word_le_nat_alt)
  fix b assume b: "unat cur \<le> b" "b < unat (chunk_stop tot cur)"
  then have "unat cur div CS * CS \<le> b" "b < Suc (unat cur div CS) * CS"
    using order_trans [OF le b(1)] stop by simp_all
  then show "b div CS = unat cur div CS" by (intro div_nat_eqI) (simp_all add: mult.commute)
qed

lemma missing_loop_step:
  assumes "fits (chunk_availability pv)" and "cur < eff"
    and "max cur (cur div CHUNK_SIZE * CHUNK_SIZE) = cur"
  shows "missing_loop pv eff cur ms = missing_loop pv eff (chunk_stop (pv_total_size pv) cur)
    (if avail_chunk pv (unat cur div CS) then ms
     else push_missing ms cur (min eff (chunk_stop (pv_total_size pv) cur)))"
  using assms(2,3) avail_chunk_word [OF assms(1), of "cur div CHUNK_SIZE"]
  by (subst missing_loop.simps) (simp add: Let_def chunk_stop_def unat_div)

lemma missing_loop_correct:
  assumes "fits (chunk_availability pv)" and "unat (pv_total_size pv) + CS < 2 ^ 64"
    and "eff \<le> pv_total_size pv" and "ranges_sep ms" and "ends_by (unat cur) ms"
  shows "\<exists>ms'. missing_loop pv eff cur ms = Some ms' \<and> ranges_sep ms'
       \<and> ranges_set ms' = ranges_set ms \<union> ({unat cur ..< unat eff} - avail_set pv)"
  using assms(4,5)
proof (induction "unat eff - unat cur" arbitrary: cur ms rule: less_induct)
  case less
  show ?case
  proof (cases "cur < eff")
    case False
    then show ?thesis using less.prems by (subst missing_loop.simps) (simp add: word_less_nat_alt)
  next
    case True
    let ?ce = "chunk_stop (pv_total_size pv) cur"
    let ?m = "min eff ?ce"
    let ?ms = "if avail_chunk pv (unat cur div CS) then ms else push_missing ms cur ?m"
    note c = chunk_stop_facts [OF assms(2) less_le_trans [OF True assms(3)]]
    have lt: "unat cur < unat eff" using True by (simp add: word_less_nat_alt)
    have m: "cur < ?m" "unat ?m \<le> unat ?ce"
      using True c(2) by (simp_all add: word_less_nat_alt unat_min_word)
    have av: "{unat cur ..< unat ?m} - avail_set pv
        = (if avail_chunk pv (unat cur div CS) then {} else {unat cur ..< unat ?m})"
    proof -
      have "b \<in> avail_set pv \<longleftrightarrow> avail_chunk pv (unat cur div CS)" if "b \<in> {unat cur ..< unat ?m}" for b
        using that c(4) [of b] assms(3) by (simp add: avail_set_def unat_min_word word_le_nat_alt)
      then show ?thesis by (cases "avail_chunk pv (unat cur div CS)") auto
    qed
    have ms: "ranges_sep ?ms" "ends_by (unat ?ce) ?ms"
        "ranges_set ?ms = ranges_set ms \<union> ({unat cur ..< unat ?m} - avail_set pv)"
      using push_missing_correct [OF less.prems m(1)] less.prems(1)
        ends_by_mono [OF less.prems(2) less_imp_le [OF c(2)]] ends_by_mono [OF _ m(2)]
      by (simp_all add: av)
    have split: "{unat cur ..< unat eff} = {unat cur ..< unat ?m} \<union> {unat ?ce ..< unat eff}"
      using lt c(2) by (auto simp: unat_min_word)
    have "unat eff - unat ?ce < unat eff - unat cur" using lt c(2) by linarith
    from less.hyps [OF this ms(1,2)] show ?thesis
      unfolding missing_loop_step [OF assms(1) True c(3)] split ms(3) Un_Diff by (simp only: Un_assoc)
  qed
qed

lemma missing_ranges_correct:
  assumes "Range_ok r" and "fits (chunk_availability pv)" and "unat (pv_total_size pv) + CS < 2 ^ 64"
  shows "\<exists>ms. missing_ranges pv r = Some ms \<and> ranges_sep ms
       \<and> ranges_set ms = requested pv r - avail_set pv"
proof (cases "r_length r = 0 \<or> pv_total_size pv \<le> r_offset r")
  case True
  then have "requested pv r = {}" by (auto simp: requested_alt word_le_nat_alt)
  then show ?thesis using True by (simp add: missing_ranges_def)
next
  case False
  then show ?thesis
    using missing_loop_correct [OF assms(2,3), of "min (Range_end r) (pv_total_size pv)" "[]" "r_offset r"]
      assms(1) by (simp add: missing_ranges_def requested_alt unat_min_word unat_Range_end)
qed

section \<open>Available ranges\<close>

text \<open>
  A partial value made from a complete descriptor has one availability bit per chunk; its total size
  stays one chunk below the top of the 64-bit range.
\<close>

definition pv_wf :: "PartialValue \<Rightarrow> bool" where
  "pv_wf pv = (unat (pv_total_size pv) + CS < 2 ^ 64
     \<and> length (chunk_availability pv) = (unat (pv_total_size pv) + CS - 1) div CS)"

lemma pv_wf_facts:
  assumes "pv_wf pv"
  shows "fits (chunk_availability pv)"
    and "length (chunk_availability pv) * CS < 2 ^ 64"
    and "j < length (chunk_availability pv) \<Longrightarrow> j * CS < unat (pv_total_size pv)"
proof -
  let ?n = "length (chunk_availability pv)" and ?T = "unat (pv_total_size pv)"
  have n: "?n = (?T + CS - 1) div CS" and T: "?T + CS < 2 ^ 64" using assms by (simp_all add: pv_wf_def)
  have le: "?n * CS \<le> ?T + CS - 1" unfolding n by simp
  then show "?n * CS < 2 ^ 64" using T by linarith
  have "?n \<le> ?n * CS" using mult_le_mono2 [of 1 CS ?n] by (simp add: Suc_le_eq)
  then have "?n < 2 ^ 64" using le T by linarith
  then show "fits (chunk_availability pv)" by simp
  assume "j < ?n"
  then have "Suc j * CS \<le> ?n * CS" by (intro mult_le_mono1) simp
  then show "j * CS < ?T" using le CHUNK_SIZE_pos(1) unfolding mult_Suc by linarith
qed

lemma unat_chunk_start:
  assumes "pv_wf pv" and "unat i \<le> length (chunk_availability pv)"
  shows "unat (i * CHUNK_SIZE) = unat i * CS"
  using pv_wf_facts(2) [OF assms(1)] mult_le_mono1 [OF assms(2), of CS]
  by (intro unat_mult_fits) linarith

lemma available_run_correct:
  assumes "pv_wf pv" and "unat i \<le> length (chunk_availability pv)" and "available_run pv i stop = (i', e)"
  shows "unat i \<le> unat i' \<and> unat i' \<le> length (chunk_availability pv)
       \<and> (\<forall>j. unat i \<le> j \<and> j < unat i' \<longrightarrow> avail_chunk pv j) \<and> \<not> avail_chunk pv (unat i')
       \<and> (if i' = i then e = stop else unat e = min (unat i' * CS) (unat (pv_total_size pv)))"
  using assms
proof (induction pv i stop rule: available_run.induct)
  case (1 pv i stop)
  note f = pv_wf_facts(1) [OF "1.prems"(1)]
  have len: "i < vec_size (chunk_availability pv) \<longleftrightarrow> unat i < length (chunk_availability pv)"
    using f by (simp add: word_less_nat_alt unat_vec_size)
  show ?case
  proof (cases "i < vec_size (chunk_availability pv) \<and> chunk_availability pv ! unat i")
    case False
    then have "available_run pv i stop = (i, stop)" by (subst available_run.simps) (rule if_not_P)
    then show ?thesis using "1.prems" False len by (auto simp: avail_chunk_def)
  next
    case True
    let ?s = "min ((i + 1) * CHUNK_SIZE) (pv_total_size pv)"
    have S: "unat (i + 1) = Suc (unat i)" using True unat_Suc_below by blast
    have s: "unat ?s = min (Suc (unat i) * CS) (unat (pv_total_size pv))"
      using True len unat_chunk_start [OF "1.prems"(1), of "i + 1"] S by (simp add: unat_min_word)
    have run: "available_run pv (i + 1) ?s = (i', e)"
      using "1.prems"(3) True by (simp add: available_run.simps [of pv i stop])
    have IH: "unat (i + 1) \<le> unat i' \<and> unat i' \<le> length (chunk_availability pv)
       \<and> (\<forall>j. unat (i + 1) \<le> j \<and> j < unat i' \<longrightarrow> avail_chunk pv j) \<and> \<not> avail_chunk pv (unat i')
       \<and> (if i' = i + 1 then e = ?s else unat e = min (unat i' * CS) (unat (pv_total_size pv)))"
      using True len S by (intro "1.IH" [OF True "1.prems"(1) _ run]) simp
    moreover have "avail_chunk pv (unat i)" using True len by (simp add: avail_chunk_def)
    moreover have "i' \<noteq> i" using IH S by auto
    moreover have "unat e = min (unat i' * CS) (unat (pv_total_size pv))"
      using IH s S by (auto split: if_splits)
    ultimately show ?thesis
      unfolding S by (metis Suc_leD Suc_leI le_neq_implies_less)
  qed
qed

lemma ranges_Cons [simp]:
  "ranges_sep (l # rs) \<longleftrightarrow> Range_ok l \<and> r_length l \<noteq> 0 \<and> ranges_sep rs
     \<and> (\<forall>r\<in>set rs. unat (Range_end l) < unat (r_offset r))"
  "ranges_set (l # rs) = Range_bytes l \<union> ranges_set rs"
  by (auto simp: ranges_sep_def ranges_set_def)

lemma ranges_set_empty_iff: "ranges_sep ms \<Longrightarrow> ranges_set ms = {} \<longleftrightarrow> ms = []"
  by (cases ms) (auto simp: Range_bytes_empty_iff Range_is_empty_def)

definition starts_from :: "PartialValue \<Rightarrow> nat \<Rightarrow> Range list \<Rightarrow> bool" where
  "starts_from pv i rs =
     (\<forall>r\<in>set rs. i * CS \<le> unat (r_offset r) \<and> (\<not> avail_chunk pv i \<longrightarrow> i * CS < unat (r_offset r)))"

lemma avail_set_from_end:
  "length (chunk_availability pv) \<le> i \<Longrightarrow> avail_set pv \<inter> {i * CS ..} = {}"
  by (auto simp: avail_set_def avail_chunk_def less_eq_div_iff_mult_less_eq [symmetric])

lemma avail_set_from_gap:
  assumes "\<not> avail_chunk pv i"
  shows "avail_set pv \<inter> {i * CS ..} = avail_set pv \<inter> {Suc i * CS ..}"
proof -
  have "Suc i * CS \<le> b" if "i * CS \<le> b" "b \<in> avail_set pv" for b
  proof -
    have "i \<le> b div CS" using that(1) by (simp add: less_eq_div_iff_mult_less_eq)
    moreover have "b div CS \<noteq> i" using that(2) assms by (auto simp: avail_set_def)
    ultimately have "Suc i \<le> b div CS" by simp
    then show ?thesis by (simp only: less_eq_div_iff_mult_less_eq CHUNK_SIZE_pos)
  qed
  then show ?thesis by auto
qed

lemma avail_set_from_run:
  assumes "\<forall>j. i \<le> j \<and> j < i' \<longrightarrow> avail_chunk pv j" and "i \<le> i'"
  shows "avail_set pv \<inter> {i * CS ..}
       = {i * CS ..< min (i' * CS) (unat (pv_total_size pv))} \<union> (avail_set pv \<inter> {i' * CS ..})"
proof -
  have "i \<le> b div CS \<and> b div CS < i'" if "i * CS \<le> b" "b < i' * CS" for b
    using that by (simp add: less_eq_div_iff_mult_less_eq div_less_iff_less_mult)
  moreover have "i * CS \<le> b" if "i' * CS \<le> b" for b
    using mult_le_mono1 [OF assms(2), of CS] that by linarith
  ultimately show ?thesis using assms(1) by (auto simp: avail_set_def not_less)
qed

lemma available_loop_correct:
  assumes "pv_wf pv"
  shows "ranges_sep (available_loop pv i) \<and> starts_from pv (unat i) (available_loop pv i)
       \<and> ranges_set (available_loop pv i) = avail_set pv \<inter> {unat i * CS ..}"
  using assms
proof (induction pv i rule: available_loop.induct)
  case (1 pv i)
  have len: "i < vec_size (chunk_availability pv) \<longleftrightarrow> unat i < length (chunk_availability pv)"
    using pv_wf_facts(1) [OF "1.prems"] by (simp add: word_less_nat_alt unat_vec_size)
  consider (stop) "\<not> i < vec_size (chunk_availability pv)"
    | (gap) "i < vec_size (chunk_availability pv)" "\<not> chunk_availability pv ! unat i"
    | (run) "i < vec_size (chunk_availability pv)" "chunk_availability pv ! unat i" by blast
  then show ?case
  proof cases
    case stop
    then show ?thesis
      using avail_set_from_end [of pv "unat i"] len
      by (simp add: available_loop.simps [of pv i] starts_from_def)
  next
    case gap
    have S: "unat (i + 1) = Suc (unat i)" using gap(1) unat_Suc_below by blast
    have "\<not> avail_chunk pv (unat i)" using gap len by (simp add: avail_chunk_def)
    then show ?thesis
      using "1.IH"(2) [OF gap "1.prems"] gap avail_set_from_gap [of pv "unat i"] S
      by (fastforce simp: available_loop.simps [of pv i] starts_from_def intro: less_le_trans [of _ "Suc (unat i) * CS"])
  next
    case run
    let ?s = "i * CHUNK_SIZE" and ?T = "unat (pv_total_size pv)"
    obtain i' e where r: "available_run pv i ?s = (i', e)" by fastforce
    have il: "unat i < length (chunk_availability pv)" using run(1) len by simp
    note c = available_run_correct [OF "1.prems" less_imp_le [OF il] r]
    have ai: "avail_chunk pv (unat i)" using il run(2) by (simp add: avail_chunk_def)
    then have "i' \<noteq> i" using c by auto
    then have i': "unat i < unat i'" and e: "unat e = min (unat i' * CS) ?T"
      using c by (auto simp: le_less word_eq_unat)
    have s: "unat ?s = unat i * CS" using unat_chunk_start [OF "1.prems"] il by simp
    have "unat ?s < unat e"
      unfolding s e using pv_wf_facts(3) [OF "1.prems" il] i' by simp
    then have se: "?s < e" by (simp add: word_less_nat_alt)
    have loop: "available_loop pv i = \<lparr>r_offset = ?s, r_length = e - ?s\<rparr> # available_loop pv i'"
      using run r by (simp add: available_loop.simps [of pv i] Let_def)
    have IH: "ranges_sep (available_loop pv i')" "starts_from pv (unat i') (available_loop pv i')"
        "ranges_set (available_loop pv i') = avail_set pv \<inter> {unat i' * CS ..}"
      using "1.IH"(1) [OF run refl r [symmetric] refl "1.prems"] by simp_all
    have later: "unat e < unat (r_offset x)" if "x \<in> set (available_loop pv i')" for x
      using that IH(2) c e by (auto simp: starts_from_def)
    have "starts_from pv (unat i) (available_loop pv i)"
      unfolding loop using later ai s \<open>unat ?s < unat e\<close>
      by (auto simp: starts_from_def dest!: later intro: order.strict_implies_order order_trans)
    moreover have "ranges_sep (available_loop pv i)"
      unfolding loop using range_of_bounds [OF se] IH(1) later by simp
    moreover have "ranges_set (available_loop pv i) = avail_set pv \<inter> {unat i * CS ..}"
      unfolding loop using range_of_bounds [OF se] IH(3) avail_set_from_run [of "unat i" "unat i'" pv] c s e by simp
    ultimately show ?thesis by blast
  qed
qed

section \<open>Available bytes\<close>

lemma avail_set_below_Suc:
  "avail_set pv \<inter> {..< Suc k * CS} = (avail_set pv \<inter> {..< k * CS})
     \<union> (if avail_chunk pv k then {k * CS ..< min (Suc k * CS) (unat (pv_total_size pv))} else {})"
proof -
  have "b div CS = k" if "k * CS \<le> b" "b < Suc k * CS" for b
    using that by (intro div_nat_eqI) (simp_all add: mult.commute)
  then show ?thesis by (auto simp: avail_set_def not_less) (metis not_less)
qed

lemma card_avail_set_below_Suc:
  "card (avail_set pv \<inter> {..< Suc k * CS}) = card (avail_set pv \<inter> {..< k * CS})
     + (if avail_chunk pv k then min (Suc k * CS) (unat (pv_total_size pv)) - k * CS else 0)"
  unfolding avail_set_below_Suc by (subst card_Un_disjoint) auto

lemma avail_set_all:
  assumes "pv_wf pv"
  shows "avail_set pv \<inter> {..< length (chunk_availability pv) * CS} = avail_set pv"
  by (auto simp: avail_set_def avail_chunk_def div_less_iff_less_mult [symmetric])

lemma last_chunk_bytes:
  assumes "pv_wf pv" and "k < length (chunk_availability pv)"
  shows "of_nat (min (Suc k * CS) (unat (pv_total_size pv)) - k * CS)
       = (if of_nat k = vec_size (chunk_availability pv) - 1
          then pv_total_size pv - of_nat k * CHUNK_SIZE else CHUNK_SIZE)"
proof -
  let ?n = "length (chunk_availability pv)" and ?T = "unat (pv_total_size pv)"
  have kT: "k * CS < ?T" using pv_wf_facts(3) [OF assms] .
  have "of_nat k = vec_size (chunk_availability pv) - 1 \<longleftrightarrow> of_nat (Suc k) = vec_size (chunk_availability pv)"
    by (auto simp: algebra_simps)
  also have "\<dots> \<longleftrightarrow> Suc k = ?n"
    using assms(2) pv_wf_facts(1) [OF assms(1)]
    by (simp add: word_eq_unat unat_vec_size unat_of_nat_fits del: of_nat_Suc)
  finally have last: "of_nat k = vec_size (chunk_availability pv) - 1 \<longleftrightarrow> Suc k = ?n" .
  show ?thesis
  proof (cases "Suc k = ?n")
    case True
    have "?T \<le> ?n * CS"
    proof -
      have "?n = (?T + CS - 1) div CS" using assms(1) by (simp add: pv_wf_def)
      then have "?T + CS - 1 < Suc ?n * CS" by (metis CHUNK_SIZE_pos(1) div_less_iff_less_mult lessI)
      then show ?thesis unfolding mult_Suc using kT by linarith
    qed
    then have "min (Suc k * CS) ?T - k * CS = ?T - k * CS" using True by simp
    moreover have "(of_nat (?T - k * CS) :: u64) = pv_total_size pv - of_nat k * CHUNK_SIZE"
      using kT by (simp add: of_nat_diff less_imp_le)
    ultimately show ?thesis unfolding last using True by simp
  next
    case False
    then have "Suc k * CS < ?T" using assms(2) by (intro pv_wf_facts(3) [OF assms(1)]) simp
    then have "min (Suc k * CS) ?T - k * CS = CS" by simp
    then show ?thesis unfolding last using False by simp
  qed
qed

lemma available_bytes_card:
  assumes "pv_wf pv"
  shows "available_bytes pv = of_nat (card (avail_set pv))"
proof -
  let ?av = "chunk_availability pv"
  let ?f = "\<lambda>bytes i. if ?av ! i then
             if of_nat i = vec_size ?av - 1 then bytes + (pv_total_size pv - of_nat i * CHUNK_SIZE)
             else bytes + CHUNK_SIZE else bytes"
  have "foldl ?f 0 [0 ..< k] = of_nat (card (avail_set pv \<inter> {..< k * CS}))" if "k \<le> length ?av" for k
    using that
  proof (induction k)
    case (Suc k)
    then show ?case
      using last_chunk_bytes [OF assms, of k] unfolding card_avail_set_below_Suc of_nat_add
      by (simp add: avail_chunk_def)
  qed simp
  from this [of "length ?av"] show ?thesis
    using avail_set_all [OF assms] by (simp add: available_bytes_def)
qed

section \<open>Properties\<close>

text \<open>
  C22. \<^verbatim>\<open>PartialValue::missing_ranges\<close> returns for every request that does not wrap, and the ranges it
  returns are exactly the requested bytes of the value that are in no available chunk, as non-empty
  ranges in increasing order with a gap between any two (touching ranges are merged).
\<close>

theorem missing_ranges_exact:
  assumes "Range_ok r" and "fits (chunk_availability pv)" and "unat (pv_total_size pv) + CS < 2 ^ 64"
  shows "\<exists>ms. missing_ranges pv r = Some ms \<and> ranges_sep ms
       \<and> ranges_set ms = requested pv r - avail_set pv"
  using missing_ranges_correct [OF assms] .

theorem missing_ranges_exact_witness:
  "\<exists>ms. missing_ranges \<lparr>pv_total_size = 10000000, chunk_availability = [True, False, True], chunk_ids = []\<rparr>
           \<lparr>r_offset = 10, r_length = 9000000\<rparr> = Some ms \<and> ranges_sep ms"
  using missing_ranges_exact [of "\<lparr>r_offset = 10, r_length = 9000000\<rparr>"
      "\<lparr>pv_total_size = 10000000, chunk_availability = [True, False, True], chunk_ids = []\<rparr>"]
  by (auto simp: Range_ok_def unat_CHUNK_SIZE)

text \<open>
  For a request that starts inside the value and does not wrap, \<^verbatim>\<open>has_range\<close> answers yes exactly
  when every requested byte of the value is in an available chunk, and this is exactly when
  \<^verbatim>\<open>missing_ranges\<close> returns no range.
\<close>

theorem has_range_exact:
  assumes "Range_ok r" and "fits (chunk_availability pv)" and "unat (pv_total_size pv) + CS < 2 ^ 64"
    and "r_offset r < pv_total_size pv"
  shows "(PartialValue_has_range pv r \<longleftrightarrow> requested pv r \<subseteq> avail_set pv)
       \<and> (PartialValue_has_range pv r \<longleftrightarrow> missing_ranges pv r = Some [])"
  using has_range_correct [OF assms(1,2,4)] missing_ranges_correct [OF assms(1-3)] ranges_set_empty_iff
  by auto

theorem has_range_exact_witness:
  "PartialValue_has_range \<lparr>pv_total_size = 9, chunk_availability = [True], chunk_ids = []\<rparr> \<lparr>r_offset = 2, r_length = 4\<rparr>
   \<longleftrightarrow> missing_ranges \<lparr>pv_total_size = 9, chunk_availability = [True], chunk_ids = []\<rparr> \<lparr>r_offset = 2, r_length = 4\<rparr> = Some []"
  using has_range_exact [of "\<lparr>r_offset = 2, r_length = 4\<rparr>" "\<lparr>pv_total_size = 9, chunk_availability = [True], chunk_ids = []\<rparr>"]
  by (auto simp: Range_ok_def unat_CHUNK_SIZE)

text \<open>
  For a partial value with one bit per chunk, \<^verbatim>\<open>available_ranges\<close> is exactly the set of available
  bytes as separated increasing ranges, and \<^verbatim>\<open>available_bytes\<close> is the number of available bytes.
\<close>

theorem available_ranges_exact:
  assumes "pv_wf pv"
  shows "ranges_sep (available_ranges pv) \<and> ranges_set (available_ranges pv) = avail_set pv
       \<and> available_bytes pv = of_nat (card (avail_set pv))"
  using available_loop_correct [OF assms, of 0] available_bytes_card [OF assms]
  by (simp add: available_ranges_def)

theorem available_ranges_exact_witness:
  "ranges_set (available_ranges \<lparr>pv_total_size = 10000000, chunk_availability = [True, False, True], chunk_ids = []\<rparr>)
     = avail_set \<lparr>pv_total_size = 10000000, chunk_availability = [True, False, True], chunk_ids = []\<rparr>"
  using available_ranges_exact [of "\<lparr>pv_total_size = 10000000, chunk_availability = [True, False, True], chunk_ids = []\<rparr>"]
  by (simp add: pv_wf_def unat_CHUNK_SIZE)

end
