(* ===== verification/Cache_Interface.thy ===== *)
theory Cache_Interface
  imports Chunks
begin

text \<open>
  The cache interface of \<^verbatim>\<open>include/elcache/cache.hpp\<close>: results, options and statistics, and the parts
  of the two local caches that are the same code in both: cutting a value into chunks, fetching the
  chunks of a request, and collecting what is available. The locale \<open>chunk_store\<close> is the contract of
  a chunk-level cache (\<^verbatim>\<open>IChunkCache\<close>): it may lose chunks, but what it returns under an identifier
  is a stored chunk with that identifier.
\<close>

section \<open>Results, options and statistics\<close>

record ReadResult =
  rr_result :: CacheResult
  rr_data :: "byte list"
  rr_actual_range :: Range
  rr_metadata :: "CacheMetadata option"

definition ReadResult_new :: ReadResult where
  "ReadResult_new = \<lparr>rr_result = Miss, rr_data = [], rr_actual_range = \<lparr>r_offset = 0, r_length = 0\<rparr>, rr_metadata = None\<rparr>"

definition is_hit :: "ReadResult \<Rightarrow> bool" where
  "is_hit r = (rr_result r = Hit)"

definition is_partial :: "ReadResult \<Rightarrow> bool" where
  "is_partial r = (rr_result r = PartialHit)"

definition is_miss :: "ReadResult \<Rightarrow> bool" where
  "is_miss r = (rr_result r = Miss)"

record AvailabilityResult =
  av_exists :: bool
  av_metadata :: "CacheMetadata option"
  av_available_ranges :: "Range list"
  av_missing_ranges :: "Range list"

definition AvailabilityResult_new :: AvailabilityResult where
  "AvailabilityResult_new = \<lparr>av_exists = False, av_metadata = None, av_available_ranges = [], av_missing_ranges = []\<rparr>"

definition AvailabilityResult_is_complete :: "AvailabilityResult \<Rightarrow> bool" where
  "AvailabilityResult_is_complete a = (av_exists a \<and> av_missing_ranges a = [])"

text \<open>Durations are counts: seconds for the time to live, milliseconds for the timeout.\<close>

record WriteOptions =
  wo_ttl :: "int option"
  wo_flags :: u32
  wo_no_memory :: bool
  wo_no_disk :: bool
  wo_no_cluster :: bool
  wo_overwrite :: bool

definition WriteOptions_new :: WriteOptions where
  "WriteOptions_new = \<lparr>wo_ttl = None, wo_flags = 0, wo_no_memory = False, wo_no_disk = False,
                       wo_no_cluster = False, wo_overwrite = True\<rparr>"

record ReadOptions =
  ro_allow_partial :: bool
  ro_prefer_local :: bool
  ro_update_access_time :: bool
  ro_range :: "Range option"
  ro_timeout :: int

definition ReadOptions_new :: ReadOptions where
  "ReadOptions_new = \<lparr>ro_allow_partial = True, ro_prefer_local = True, ro_update_access_time = True,
                      ro_range = None, ro_timeout = 30000\<rparr>"

record DeleteOptions =
  do_from_memory :: bool
  do_from_disk :: bool
  do_from_cluster :: bool

definition DeleteOptions_new :: DeleteOptions where
  "DeleteOptions_new = \<lparr>do_from_memory = True, do_from_disk = True, do_from_cluster = True\<rparr>"

record CacheStats =
  cs_hits :: u64
  cs_misses :: u64
  cs_partial_hits :: u64
  cs_bytes_read :: u64
  cs_bytes_written :: u64
  cs_evictions :: u64
  cs_entry_count :: u64
  cs_size_bytes :: u64
  cs_capacity_bytes :: u64

definition CacheStats_new :: CacheStats where
  "CacheStats_new = \<lparr>cs_hits = 0, cs_misses = 0, cs_partial_hits = 0, cs_bytes_read = 0, cs_bytes_written = 0,
                     cs_evictions = 0, cs_entry_count = 0, cs_size_bytes = 0, cs_capacity_bytes = 0\<rparr>"

section \<open>Cutting a value into chunks\<close>

function split_loop :: "byte list \<Rightarrow> u64 \<Rightarrow> Chunk list" where
  "split_loop value offset =
     (if offset < vec_size value then
        let chunk_size = min CHUNK_SIZE (vec_size value - offset)
        in subspan value (unat offset) (unat chunk_size) # split_loop value (offset + chunk_size)
      else [])"
  by pat_completeness auto

lemma split_step:
  fixes n off :: u64
  assumes "off < n"
  shows "unat (off + min CHUNK_SIZE (n - off)) = unat off + min CS (unat n - unat off)"
    and "unat off < unat (off + min CHUNK_SIZE (n - off))"
proof -
  have lt: "unat off < unat n" using assms by (simp add: word_less_nat_alt)
  have m: "unat (min CHUNK_SIZE (n - off)) = min CS (unat n - unat off)"
    using lt by (simp add: unat_min_word unat_sub_fits)
  have "unat off + min CS (unat n - unat off) \<le> unat n" using lt by linarith
  from le_less_trans [OF this unat_u64_less] have "unat off + min CS (unat n - unat off) < 2 ^ 64" by simp
  then show s: "unat (off + min CHUNK_SIZE (n - off)) = unat off + min CS (unat n - unat off)"
    using m by (simp add: unat_add_fits)
  show "unat off < unat (off + min CHUNK_SIZE (n - off))" unfolding s using lt by simp
qed

termination split_loop
proof (relation "measure (\<lambda>(v, off). unat (vec_size v) - unat off)", goal_cases)
  case (2 v off c)
  then show ?case using split_step(2) [of off "vec_size v"] by (auto simp: word_less_nat_alt)
qed simp

declare split_loop.simps [simp del]

definition split_value :: "byte list \<Rightarrow> Chunk list" where
  "split_value value = split_loop value 0"

text \<open>The \<open>i\<close>-th chunk of a value and the number of its chunks.\<close>

definition chunk_of :: "byte list \<Rightarrow> nat \<Rightarrow> Chunk" where
  "chunk_of v i = subspan v (i * CS) CS"

definition chunk_num :: "byte list \<Rightarrow> nat" where
  "chunk_num v = (length v + CS - 1) div CS"

lemma chunk_num_less: "i < chunk_num v \<longleftrightarrow> i * CS < length v"
proof -
  have "i < chunk_num v \<longleftrightarrow> Suc i * CS \<le> length v + CS - 1"
    unfolding chunk_num_def Suc_le_eq [symmetric] by (rule less_eq_div_iff_mult_less_eq) simp
  also have "\<dots> \<longleftrightarrow> i * CS < length v" unfolding mult_Suc using CHUNK_SIZE_pos(1) by linarith
  finally show ?thesis .
qed

lemma chunk_of_min: "chunk_of v i = subspan v (i * CS) (min CS (length v - i * CS))"
  by (simp add: chunk_of_def subspan_def min_def)

lemma length_chunk_of: "length (chunk_of v i) = min CS (length v - i * CS)"
  by (simp add: chunk_of_def)

lemma split_loop_chunks:
  assumes "fits v" and "unat off = i * CS"
  shows "split_loop v off = map (chunk_of v) [i ..< chunk_num v]"
  using assms(2)
proof (induction "chunk_num v - i" arbitrary: i off rule: less_induct)
  case less
  have lt: "off < vec_size v \<longleftrightarrow> i < chunk_num v"
    using less.prems assms(1) by (simp add: word_less_nat_alt unat_vec_size chunk_num_less)
  show ?case
  proof (cases "i < chunk_num v")
    case False
    then show ?thesis using lt by (simp add: split_loop.simps)
  next
    case True
    let ?c = "min CHUNK_SIZE (vec_size v - off)"
    have c: "unat ?c = min CS (length v - i * CS)"
      using True lt less.prems assms(1)
      by (simp add: unat_min_word unat_sub_fits word_less_nat_alt unat_vec_size)
    have off: "unat (off + ?c) = i * CS + min CS (length v - i * CS)"
      using split_step(1) [of off "vec_size v"] True lt less.prems assms(1) by (simp add: unat_vec_size)
    have rest: "split_loop v (off + ?c) = map (chunk_of v) [Suc i ..< chunk_num v]"
    proof (cases "Suc i * CS \<le> length v")
      case big: True
      then have "unat (off + ?c) = Suc i * CS" using off by simp
      then show ?thesis using True by (intro less.hyps) simp_all
    next
      case False
      then have "unat (off + ?c) = length v" using off True by (simp add: chunk_num_less)
      then have "split_loop v (off + ?c) = []"
        using assms(1) by (subst split_loop.simps) (simp add: word_less_nat_alt unat_vec_size)
      moreover have "\<not> Suc i < chunk_num v" using False by (simp add: chunk_num_less)
      ultimately show ?thesis by simp
    qed
    show ?thesis
      using True lt rest c less.prems
      by (subst split_loop.simps) (simp add: Let_def upt_conv_Cons chunk_of_min)
  qed
qed

lemma split_value_chunks: "fits v \<Longrightarrow> split_value v = map (chunk_of v) [0 ..< chunk_num v]"
  unfolding split_value_def by (rule split_loop_chunks) simp_all

lemma concat_chunks_from: "concat (map (chunk_of v) [i ..< i + n]) = subspan v (i * CS) (n * CS)"
proof (induction n)
  case (Suc n)
  have "subspan v (i * CS) (n * CS + CS) = subspan v (i * CS) (n * CS) @ subspan v ((i + n) * CS) CS"
    by (simp add: subspan_add distrib_right)
  then show ?case using Suc by (simp add: chunk_of_def add.commute)
qed simp

lemma concat_split_value:
  assumes "fits v"
  shows "concat (split_value v) = v"
proof -
  have "length v \<le> chunk_num v * CS" using chunk_num_less [of "chunk_num v" v] by simp
  then show ?thesis using concat_chunks_from [of v 0 "chunk_num v"] assms by (simp add: split_value_chunks)
qed

lemma length_split_value: "fits v \<Longrightarrow> length (split_value v) = chunk_num v"
  by (simp add: split_value_chunks)

lemma split_value_nonempty:
  assumes "fits v" and "d \<in> set (split_value v)"
  shows "d \<noteq> [] \<and> length d \<le> CS"
proof -
  obtain i where i: "d = chunk_of v i" "i * CS < length v"
    using assms by (auto simp: split_value_chunks chunk_num_less)
  then have "0 < length d \<and> length d \<le> CS" by (simp add: length_chunk_of)
  then show ?thesis by auto
qed

lemma chunk_num_le: "chunk_num v \<le> length v"
  using chunk_num_less [of "length v" v] by simp

section \<open>Fetching the chunks of a request\<close>

text \<open>
  The loop of \<^verbatim>\<open>MemoryCache::get\<close> and \<^verbatim>\<open>DiskCache::get\<close> over the chunk indices: it collects the chunks,
  null pointers included, and whether all were found. \<open>get_chunk\<close> is the cache's own operation.
\<close>

fun fetch_loop ::
    "(ChunkId \<Rightarrow> 's \<Rightarrow> SharedChunk \<times> 's) \<Rightarrow> bool \<Rightarrow> ChunkId list \<Rightarrow> u64 list \<Rightarrow> 's \<Rightarrow> SharedChunk list \<times> bool \<times> 's" where
  "fetch_loop get_chunk allow_partial ids [] s = ([], True, s)"
| "fetch_loop get_chunk allow_partial ids (idx # rest) s =
     (if vec_size ids \<le> idx then ([], False, s)
      else case get_chunk (ids ! unat idx) s of
          (None, s1) \<Rightarrow>
            if \<not> allow_partial then ([], False, s1)
            else (case fetch_loop get_chunk allow_partial ids rest s1 of (cs, _, s2) \<Rightarrow> (None # cs, False, s2))
        | (Some c, s1) \<Rightarrow>
            (case fetch_loop get_chunk allow_partial ids rest s1 of (cs, all_found, s2) \<Rightarrow> (Some c # cs, all_found, s2)))"

lemma fetch_loop_frame:
  assumes "\<And>i s. f (snd (get_chunk i s)) = f s" and "fetch_loop get_chunk ap ids idxs s = (cs, all_found, s')"
  shows "f s' = f s"
  using assms(2)
proof (induction idxs arbitrary: s cs all_found s')
  case (Cons idx rest)
  obtain c s1 where g: "get_chunk (ids ! unat idx) s = (c, s1)" by fastforce
  have "f s1 = f s" using assms(1) [of "ids ! unat idx" s] g by simp
  moreover obtain cs2 af2 s2 where l: "fetch_loop get_chunk ap ids rest s1 = (cs2, af2, s2)" by (metis surj_pair)
  ultimately show ?case using Cons.prems Cons.IH [OF l] g by (auto split: if_splits option.splits)
qed simp

text \<open>The loop of \<^verbatim>\<open>check\<close>: mark the chunks of the request that are present.\<close>

fun mark_loop :: "(ChunkId \<Rightarrow> bool) \<Rightarrow> ChunkId list \<Rightarrow> u64 list \<Rightarrow> PartialValue \<Rightarrow> PartialValue" where
  "mark_loop has_chunk ids [] pv = pv"
| "mark_loop has_chunk ids (idx # rest) pv =
     mark_loop has_chunk ids rest
       (if idx < vec_size ids \<and> has_chunk (ids ! unat idx) then mark_chunk_available idx (ids ! unat idx) pv else pv)"

locale chunk_store =
  fixes inv :: "'s \<Rightarrow> bool"
    and chunk_at :: "'s \<Rightarrow> ChunkId \<rightharpoonup> Chunk"
    and get_chunk :: "ChunkId \<Rightarrow> 's \<Rightarrow> SharedChunk \<times> 's"
  assumes get_chunk_value: "inv s \<Longrightarrow> fst (get_chunk i s) = chunk_at s i"
    and get_chunk_inv: "inv s \<Longrightarrow> inv (snd (get_chunk i s))"
    and get_chunk_keeps: "inv s \<Longrightarrow> chunk_at (snd (get_chunk i s)) = chunk_at s"
begin

lemma fetch_sound:
  assumes "inv s" and "\<forall>i\<in>set idxs. i < vec_size ids"
    and "fetch_loop get_chunk ap ids idxs s = (cs, all_found, s')"
  shows "inv s' \<and> chunk_at s' = chunk_at s
       \<and> (all_found \<longleftrightarrow> (\<forall>i\<in>set idxs. chunk_at s (ids ! unat i) \<noteq> None))
       \<and> (all_found \<or> ap \<longrightarrow> cs = map (\<lambda>i. chunk_at s (ids ! unat i)) idxs)"
  using assms
proof (induction idxs arbitrary: s cs all_found s')
  case (Cons idx rest)
  obtain c s1 where g: "get_chunk (ids ! unat idx) s = (c, s1)" by fastforce
  have c: "c = chunk_at s (ids ! unat idx)" "inv s1" "chunk_at s1 = chunk_at s"
    using get_chunk_value [OF Cons.prems(1), of "ids ! unat idx"] get_chunk_inv [OF Cons.prems(1), of "ids ! unat idx"]
      get_chunk_keeps [OF Cons.prems(1), of "ids ! unat idx"] g by simp_all
  obtain cs2 af2 s2 where f: "fetch_loop get_chunk ap ids rest s1 = (cs2, af2, s2)" by (metis surj_pair)
  note IH = Cons.IH [OF c(2) _ f]
  have idx: "\<not> vec_size ids \<le> idx" using Cons.prems(2) by (simp add: not_le)
  show ?case
  proof (cases c)
    case None
    then show ?thesis using Cons.prems(2,3) IH idx g f c by (auto split: if_splits)
  next
    case (Some d)
    then show ?thesis using Cons.prems(2,3) IH idx g f c by auto
  qed
qed simp

end

section \<open>Storing the chunks of a value\<close>

text \<open>Storing the chunks one by one, until one fails; the identifiers are collected on the way.\<close>

fun put_chunks_loop ::
    "(SharedChunk \<Rightarrow> 's \<Rightarrow> Status \<times> 's) \<Rightarrow> hasher \<Rightarrow> Chunk list \<Rightarrow> 's \<Rightarrow> (Status + ChunkId list) \<times> 's" where
  "put_chunks_loop put_chunk H [] m = (Inr [], m)"
| "put_chunks_loop put_chunk H (c # cs) m =
     (case put_chunk (Some c) m of (st, m1) \<Rightarrow>
        if \<not> Status_is_ok st then (Inl st, m1)
        else case put_chunks_loop put_chunk H cs m1 of
            (Inl st, m2) \<Rightarrow> (Inl st, m2)
          | (Inr ids, m2) \<Rightarrow> (Inr (Chunk_id H c # ids), m2))"

text \<open>
  The metadata of a new entry. The time to live is in seconds; the sum is a 64-bit nanosecond count.
  Where the signed arithmetic overflows, which C++ leaves undefined, the model wraps around.
\<close>

definition expiry :: "Timestamp \<Rightarrow> int option \<Rightarrow> Timestamp option" where
  "expiry created ttl = map_option (\<lambda>s. wrap64 (created + wrap64 (s * 1000000000))) ttl"

definition new_metadata :: "Timestamp \<Rightarrow> WriteOptions \<Rightarrow> byte list \<Rightarrow> u64 \<Rightarrow> CacheMetadata" where
  "new_metadata now opts v n =
     \<lparr>md_total_size = vec_size v, md_chunk_count = n, md_created_at = now, md_last_accessed = now,
      md_expires_at = expiry now (wo_ttl opts), md_flags = wo_flags opts\<rparr>"

section \<open>The chunk indices of a value\<close>

lemma chunks_for_range_indices:
  assumes "fits v" and "length v + CS < 2 ^ 64" and "vd_total_size d = vec_size v"
    and "length (vd_chunks d) = chunk_num v"
    and "unat off + unat len \<le> length v" and "len \<noteq> 0"
  shows "map unat (chunks_for_range d \<lparr>r_offset = off, r_length = len\<rparr>)
       = [unat off div CS ..< Suc ((unat off + unat len - 1) div CS)]"
    and "\<forall>i\<in>set (chunks_for_range d \<lparr>r_offset = off, r_length = len\<rparr>). i < vec_size (vd_chunks d)"
    and "Suc ((unat off + unat len - 1) div CS) \<le> chunk_num v"
proof -
  let ?r = "\<lparr>r_offset = off, r_length = len\<rparr>"
  have len: "0 < unat len" using assms(6) by (simp add: unat_gt_0)
  have fitc: "fits (vd_chunks d)" using chunk_num_le [of v] assms(1,4) by simp
  have off: "off < vec_size v" using assms(1,5) len by (simp add: word_less_nat_alt unat_vec_size)
  have ok: "Range_ok ?r" using assms(1,5) by (simp add: Range_ok_def)
  have last: "unat (last_chunk (vec_size v) ?r) = (unat off + unat len - 1) div CS"
    using unat_last_chunk [OF ok] assms off by (simp add: unat_vec_size min_absorb1)
  have "(unat off + unat len - 1) div CS * CS < length v"
    using assms(5) len div_times_less_eq_dividend [of "unat off + unat len - 1" CS] by linarith
  then show le: "Suc ((unat off + unat len - 1) div CS) \<le> chunk_num v"
    by (simp only: Suc_le_eq chunk_num_less)
  then show map: "map unat (chunks_for_range d ?r) = [unat off div CS ..< Suc ((unat off + unat len - 1) div CS)]"
    using assms(3,4,6) off fitc
    by (simp add: chunks_for_range_def chunk_index_loop_upt last unat_vec_size unat_div not_le min_absorb1 del: upt_Suc)
  have "unat i < chunk_num v" if "i \<in> set (chunks_for_range d ?r)" for i
  proof -
    have "unat i \<in> set (map unat (chunks_for_range d ?r))" using that by simp
    then show ?thesis unfolding map using le by (simp del: upt_Suc)
  qed
  then show "\<forall>i\<in>set (chunks_for_range d ?r). i < vec_size (vd_chunks d)"
    using fitc assms(4) by (simp add: word_less_nat_alt unat_vec_size)
qed

section \<open>Requests against a stored value\<close>

text \<open>
  The descriptor of a stored value, the bytes a request asks for, and the assumption on the hash:
  it tells the chunks of \<open>S\<close>, the chunks ever stored, apart.
\<close>

definition mk_descriptor :: "hasher \<Rightarrow> CacheKey \<Rightarrow> byte list \<Rightarrow> CacheMetadata \<Rightarrow> ValueDescriptor" where
  "mk_descriptor H key v md =
     \<lparr>vd_key = key, vd_total_size = vec_size v, vd_chunks = map (Chunk_id H) (split_value v), vd_metadata = md\<rparr>"

definition requested_range :: "ReadOptions \<Rightarrow> byte list \<Rightarrow> Range" where
  "requested_range opts v = (case ro_range opts of Some r \<Rightarrow> r | None \<Rightarrow> \<lparr>r_offset = 0, r_length = vec_size v\<rparr>)"

definition requested_bytes :: "ReadOptions \<Rightarrow> byte list \<Rightarrow> byte list" where
  "requested_bytes opts v =
     subspan v (unat (r_offset (requested_range opts v))) (unat (r_length (requested_range opts v)))"

definition collision_free :: "hasher \<Rightarrow> Chunk set \<Rightarrow> bool" where
  "collision_free H S = inj_on (chunk_hash128 H) S"

definition value_ok :: "Chunk set \<Rightarrow> byte list \<Rightarrow> bool" where
  "value_ok S v = (length v + CS < 2 ^ 64 \<and> set (split_value v) \<subseteq> S)"

definition chunks_sound :: "hasher \<Rightarrow> Chunk set \<Rightarrow> (ChunkId \<rightharpoonup> Chunk) \<Rightarrow> bool" where
  "chunks_sound H S f = (\<forall>i d. f i = Some d \<longrightarrow> d \<in> S \<and> i = Chunk_id H d)"

lemma Chunk_id_inj:
  "collision_free H S \<Longrightarrow> c \<in> S \<Longrightarrow> d \<in> S \<Longrightarrow> Chunk_id H c = Chunk_id H d \<longleftrightarrow> c = d"
  by (auto simp: collision_free_def Chunk_id_def inj_on_def)

lemma chunks_sound_lookup:
  assumes "chunks_sound H S f" and "collision_free H S" and "c \<in> S" and "f (Chunk_id H c) \<noteq> None"
  shows "f (Chunk_id H c) = Some c"
proof -
  obtain d where d: "f (Chunk_id H c) = Some d" using assms(4) by auto
  then have "d \<in> S" "Chunk_id H c = Chunk_id H d" using assms(1) unfolding chunks_sound_def by auto
  then show ?thesis using d Chunk_id_inj [OF assms(2,3)] by simp
qed

lemma chunks_sound_le: "chunks_sound H S f \<Longrightarrow> g \<subseteq>\<^sub>m f \<Longrightarrow> chunks_sound H S g"
  unfolding chunks_sound_def map_le_def by (metis domI)

lemma chunks_sound_upd:
  assumes "chunks_sound H S f" and "d \<in> S" and "g \<subseteq>\<^sub>m f(Chunk_id H d \<mapsto> d)"
  shows "chunks_sound H S g"
proof (rule chunks_sound_le)
  show "chunks_sound H S (f(Chunk_id H d \<mapsto> d))" using assms(1,2) by (auto simp: chunks_sound_def)
qed (rule assms(3))

lemma value_ok_fits: "value_ok S v \<Longrightarrow> fits v"
  by (simp add: value_ok_def)

lemma chunk_of_in: "value_ok S v \<Longrightarrow> j < chunk_num v \<Longrightarrow> chunk_of v j \<in> S"
  using split_value_chunks [OF value_ok_fits, of S v] by (auto simp: value_ok_def)

lemma vd_chunks_nth:
  "fits v \<Longrightarrow> j < chunk_num v \<Longrightarrow> vd_chunks (mk_descriptor H key v md) ! j = Chunk_id H (chunk_of v j)"
  by (simp add: mk_descriptor_def split_value_chunks)

text \<open>The chunk indices a non-empty request inside a value needs.\<close>

definition needed_chunks :: "nat \<Rightarrow> nat \<Rightarrow> nat list" where
  "needed_chunks off len = [off div CS ..< Suc ((off + len - 1) div CS)]"

context chunk_store
begin

lemma fetch_value:
  assumes "inv s" and "chunks_sound H S (chunk_at s)" and "collision_free H S" and "value_ok S v"
    and "unat off + unat len \<le> length v" and "len \<noteq> 0"
    and "fetch_loop get_chunk ap (vd_chunks (mk_descriptor H key v md))
           (chunks_for_range (mk_descriptor H key v md) \<lparr>r_offset = off, r_length = len\<rparr>) s = (cs, all_found, s')"
  shows "inv s'" and "chunk_at s' = chunk_at s"
    and "all_found \<longleftrightarrow> (\<forall>j\<in>set (needed_chunks (unat off) (unat len)). chunk_at s (Chunk_id H (chunk_of v j)) \<noteq> None)"
    and "all_found \<Longrightarrow> cs = map (\<lambda>j. Some (chunk_of v j)) (needed_chunks (unat off) (unat len))"
proof -
  let ?d = "mk_descriptor H key v md" and ?r = "\<lparr>r_offset = off, r_length = len\<rparr>"
  let ?idx = "chunks_for_range ?d ?r" and ?need = "needed_chunks (unat off) (unat len)"
  note f = value_ok_fits [OF assms(4)]
  have d: "vd_total_size ?d = vec_size v" "length (vd_chunks ?d) = chunk_num v"
    using f by (simp_all add: mk_descriptor_def length_split_value)
  have vlen: "length v + CS < 2 ^ 64" using assms(4) by (simp add: value_ok_def)
  note c = chunks_for_range_indices [OF f vlen d assms(5,6)]
  have map: "map unat ?idx = ?need" using c(1) by (simp add: needed_chunks_def)
  have bound: "j < chunk_num v" if "j \<in> set ?need" for j
    using that c(3) by (simp add: needed_chunks_def del: upt_Suc)
  have need: "unat i \<in> set ?need" if "i \<in> set ?idx" for i
    using that unfolding map [symmetric] by simp
  have nth: "vd_chunks ?d ! unat i = Chunk_id H (chunk_of v (unat i))" if "i \<in> set ?idx" for i
    using bound [OF need [OF that]] by (rule vd_chunks_nth [OF f])
  note s = fetch_sound [OF assms(1) c(2) assms(7)]
  show "inv s'" "chunk_at s' = chunk_at s" using s by blast+
  have "all_found \<longleftrightarrow> (\<forall>i\<in>set ?idx. chunk_at s (Chunk_id H (chunk_of v (unat i))) \<noteq> None)"
    using s nth by simp
  also have "\<dots> \<longleftrightarrow> (\<forall>j\<in>set (map unat ?idx). chunk_at s (Chunk_id H (chunk_of v j)) \<noteq> None)" by simp
  finally show all: "all_found \<longleftrightarrow> (\<forall>j\<in>set ?need. chunk_at s (Chunk_id H (chunk_of v j)) \<noteq> None)"
    unfolding map .
  assume a: "all_found"
  have found: "chunk_at s (Chunk_id H (chunk_of v j)) = Some (chunk_of v j)" if "j \<in> set ?need" for j
    using a all that by (intro chunks_sound_lookup [OF assms(2,3) chunk_of_in [OF assms(4) bound]]) simp_all
  have "map (\<lambda>i. chunk_at s (vd_chunks ?d ! unat i)) ?idx = map (\<lambda>i. Some (chunk_of v (unat i))) ?idx"
    by (intro map_cong refl) (simp only: nth found need)
  then show "cs = map (\<lambda>j. Some (chunk_of v j)) ?need"
    using s a by (simp flip: map)
qed

end

section \<open>Answers to a read\<close>

text \<open>The values a cache stands for, and the descriptors it keeps for them.\<close>

type_synonym cache_map = "CacheKey \<rightharpoonup> byte list \<times> CacheMetadata"

definition descriptors_of :: "hasher \<Rightarrow> cache_map \<Rightarrow> CacheKey \<rightharpoonup> ValueDescriptor" where
  "descriptors_of H A = (\<lambda>k. map_option (\<lambda>(v, md). mk_descriptor H k v md) (A k))"

lemma descriptors_of_upd [simp]:
  "descriptors_of H (A(k \<mapsto> (v, md))) = (descriptors_of H A)(k \<mapsto> mk_descriptor H k v md)"
  "descriptors_of H (A(k := None)) = (descriptors_of H A)(k := None)"
  by (auto simp: descriptors_of_def)

text \<open>What a read of a stored value may answer.\<close>

definition read_ok :: "ReadOptions \<Rightarrow> byte list \<Rightarrow> CacheMetadata \<Rightarrow> ReadResult \<Rightarrow> bool" where
  "read_ok opts v md res =
     (rr_result res \<in> {Hit, PartialHit, Miss}
      \<and> (rr_result res = Hit \<longrightarrow>
           rr_data res = requested_bytes opts v \<and> rr_metadata res = Some md
           \<and> r_offset (rr_actual_range res) = r_offset (requested_range opts v)
           \<and> r_length (rr_actual_range res) = vec_size (rr_data res))
      \<and> (rr_result res = Miss \<longrightarrow> rr_data res = [])
      \<and> (\<not> ro_allow_partial opts \<longrightarrow> rr_result res \<noteq> PartialHit))"

text \<open>The chunks a request needs are all in the cache.\<close>

definition all_present :: "hasher \<Rightarrow> (ChunkId \<rightharpoonup> Chunk) \<Rightarrow> byte list \<Rightarrow> Range \<Rightarrow> bool" where
  "all_present H f v r =
     (\<forall>j\<in>set (needed_chunks (unat (r_offset r)) (min (unat (r_length r)) (length v - unat (r_offset r)))).
        f (Chunk_id H (chunk_of v j)) \<noteq> None)"

lemma clamp_facts:
  assumes "fits v" and "\<not> vec_size v \<le> off"
  shows "unat (min len (vec_size v - off)) = min (unat len) (length v - unat off)"
    and "unat off + unat (min len (vec_size v - off)) \<le> length v"
    and "subspan v (unat off) (unat (min len (vec_size v - off))) = subspan v (unat off) (unat len)"
proof -
  have lt: "unat off < length v" using assms by (simp add: word_le_nat_alt unat_vec_size not_le)
  show m: "unat (min len (vec_size v - off)) = min (unat len) (length v - unat off)"
    using assms(1) lt by (simp add: unat_min_word unat_sub_fits unat_vec_size)
  show "unat off + unat (min len (vec_size v - off)) \<le> length v" unfolding m using lt by simp
  show "subspan v (unat off) (unat (min len (vec_size v - off))) = subspan v (unat off) (unat len)"
    unfolding m by (simp add: subspan_def min_def)
qed

lemma needed_chunks_below:
  assumes "off + len \<le> length v" and "0 < len" and "j \<in> set (needed_chunks off len)"
  shows "j < chunk_num v"
proof -
  have "j * CS \<le> (off + len - 1) div CS * CS" using assms(3) by (auto simp: needed_chunks_def)
  also have "\<dots> \<le> off + len - 1" by (rule div_times_less_eq_dividend)
  finally show ?thesis unfolding chunk_num_less using assms(1,2) by linarith
qed

text \<open>
  The answer both caches build from the chunks they fetched: \<open>data\<close> is what they assembled of the
  chunks.
\<close>

definition read_answer :: "ReadOptions \<Rightarrow> Range \<Rightarrow> CacheMetadata \<Rightarrow> SharedChunk list \<Rightarrow> bool \<Rightarrow> byte list \<Rightarrow> ReadResult" where
  "read_answer opts rng md chunks all_found data =
     (if chunks = [] \<or> (\<not> all_found \<and> \<not> ro_allow_partial opts) then ReadResult_new
      else \<lparr>rr_result = (if all_found \<and> vec_size data = r_length rng then Hit else PartialHit), rr_data = data,
            rr_actual_range = \<lparr>r_offset = r_offset rng, r_length = vec_size data\<rparr>, rr_metadata = Some md\<rparr>)"

text \<open>What an answer for the range of \<open>len\<close> bytes at \<open>off\<close>, inside the value, must satisfy.\<close>

definition range_read_ok ::
    "hasher \<Rightarrow> (ChunkId \<rightharpoonup> Chunk) \<Rightarrow> byte list \<Rightarrow> CacheMetadata \<Rightarrow> ReadOptions \<Rightarrow> u64 \<Rightarrow> u64 \<Rightarrow> ReadResult \<Rightarrow> bool" where
  "range_read_ok H f v md opts off len res =
     (rr_result res \<in> {Hit, PartialHit, Miss}
      \<and> (rr_result res = Hit \<longrightarrow> rr_data res = subspan v (unat off) (unat len) \<and> rr_metadata res = Some md
           \<and> rr_actual_range res = \<lparr>r_offset = off, r_length = vec_size (rr_data res)\<rparr>)
      \<and> (rr_result res = Miss \<longrightarrow> rr_data res = [])
      \<and> (\<not> ro_allow_partial opts \<longrightarrow> rr_result res \<noteq> PartialHit)
      \<and> (len \<noteq> 0 \<longrightarrow> (rr_result res = Hit
           \<longleftrightarrow> (\<forall>j\<in>set (needed_chunks (unat off) (unat len)). f (Chunk_id H (chunk_of v j)) \<noteq> None))))"

lemma read_ok_clamped:
  fixes opts v
  defines "r \<equiv> requested_range opts v"
  assumes "fits v" and "\<not> vec_size v \<le> r_offset r"
    and "range_read_ok H f v md opts (r_offset r) (min (r_length r) (vec_size v - r_offset r)) res"
  shows "read_ok opts v md res \<and> (requested_bytes opts v \<noteq> [] \<longrightarrow> (rr_result res = Hit \<longleftrightarrow> all_present H f v r))"
proof -
  let ?len = "min (r_length r) (vec_size v - r_offset r)"
  note cl = clamp_facts [OF assms(2,3), of "r_length r"]
  have len: "?len \<noteq> 0" if "requested_bytes opts v \<noteq> []"
  proof
    assume "?len = 0"
    then have "subspan v (unat (r_offset r)) (unat ?len) = []" by (simp only: unat_0 subspan_zero)
    then show False using that cl(3) by (simp add: requested_bytes_def r_def)
  qed
  then have "rr_result res = Hit \<longleftrightarrow> all_present H f v r" if "requested_bytes opts v \<noteq> []"
    using assms(4) that by (simp add: range_read_ok_def all_present_def cl(1))
  then show ?thesis
    using assms(4) cl(3) by (auto simp: range_read_ok_def read_ok_def requested_bytes_def r_def)
qed

lemma read_ok_beyond:
  assumes "fits v" and "vec_size v \<le> r_offset (requested_range opts v)"
  shows "requested_bytes opts v = []"
    and "read_ok opts v md (ReadResult_new\<lparr>rr_result := Hit, rr_metadata := Some md,
           rr_actual_range := \<lparr>r_offset = r_offset (requested_range opts v), r_length = 0\<rparr>\<rparr>)"
proof -
  show e: "requested_bytes opts v = []"
    using assms by (simp add: requested_bytes_def word_le_nat_alt unat_vec_size)
  then show "read_ok opts v md (ReadResult_new\<lparr>rr_result := Hit, rr_metadata := Some md,
      rr_actual_range := \<lparr>r_offset = r_offset (requested_range opts v), r_length = 0\<rparr>\<rparr>)"
    by (simp add: read_ok_def ReadResult_new_def)
qed

context chunk_store
begin

lemma range_read:
  assumes "inv s" and "chunks_sound H S (chunk_at s)" and "collision_free H S" and "value_ok S v"
    and "unat off + unat len \<le> length v"
    and "fetch_loop get_chunk (ro_allow_partial opts) (vd_chunks (mk_descriptor H key v md))
           (chunks_for_range (mk_descriptor H key v md) \<lparr>r_offset = off, r_length = len\<rparr>) s = (cs, all_found, s')"
    and "len \<noteq> 0 \<Longrightarrow> asm (map (\<lambda>j. Some (chunk_of v j)) (needed_chunks (unat off) (unat len))) = subspan v (unat off) (unat len)"
  shows "inv s'" and "chunk_at s' = chunk_at s"
    and "range_read_ok H (chunk_at s) v md opts off len
           (read_answer opts \<lparr>r_offset = off, r_length = len\<rparr> md cs all_found (asm cs))"
proof -
  note fv = fetch_value [OF assms(1-5) _ assms(6)]
  have empty: "cs = [] \<and> s' = s" if "len = 0" using that assms(6) by (simp add: chunks_for_range_def)
  show "inv s'" "chunk_at s' = chunk_at s" using assms(1) fv(1,2) empty by (cases "len = 0"; simp)+
  have full: "asm cs = subspan v (unat off) (unat len)" if "all_found" "len \<noteq> 0"
    unfolding fv(4) [OF that(2,1)] using assms(7) [OF that(2)] .
  have sz: "vec_size (subspan v (unat off) (unat len)) = len" using assms(5) by (simp add: vec_size_def)
  have ne: "cs \<noteq> []" if "all_found" "len \<noteq> 0"
  proof -
    have "unat off div CS \<le> (unat off + unat len - 1) div CS"
      using unat_gt_0 [of len] that(2) by (intro div_le_mono) linarith
    then show ?thesis unfolding fv(4) [OF that(2,1)] by (simp add: needed_chunks_def)
  qed
  have full': "asm cs = subspan v (unat off) (unat len)" if "all_found" "cs \<noteq> []"
    using that empty full by (cases "len = 0") simp_all
  let ?res = "read_answer opts \<lparr>r_offset = off, r_length = len\<rparr> md cs all_found (asm cs)"
  have "rr_result ?res = Hit \<longleftrightarrow> (\<forall>j\<in>set (needed_chunks (unat off) (unat len)). chunk_at s (Chunk_id H (chunk_of v j)) \<noteq> None)"
    if "len \<noteq> 0"
    unfolding fv(3) [OF that, symmetric] using that full sz ne by (auto simp: read_answer_def ReadResult_new_def)
  then show "range_read_ok H (chunk_at s) v md opts off len ?res"
    using full' sz by (auto simp: range_read_ok_def read_answer_def ReadResult_new_def)
qed

end

section \<open>Small values\<close>

lemma small_value_ok:
  assumes "length v \<le> 100"
  shows "value_ok {v} v"
proof -
  have "chunk_of v i = v" if "i < chunk_num v" for i
  proof -
    have "i = 0" using that assms unfolding chunk_num_less unat_CHUNK_SIZE by simp
    then show ?thesis using assms by (simp add: chunk_of_def unat_CHUNK_SIZE)
  qed
  then have "set (split_value v) \<subseteq> {v}" using assms by (auto simp: split_value_chunks)
  then show ?thesis using assms by (simp add: value_ok_def unat_CHUNK_SIZE)
qed

lemma collision_free_singleton: "collision_free H {v}"
  by (simp add: collision_free_def)

section \<open>Availability\<close>

lemma mark_loop_frame:
  "length (chunk_availability (mark_loop has ids idxs pv)) = length (chunk_availability pv)"
  "pv_total_size (mark_loop has ids idxs pv) = pv_total_size pv"
  by (induction idxs arbitrary: pv) (simp_all add: mark_chunk_available_def)

lemma mark_loop_avail:
  assumes "length (chunk_availability pv) = length ids" and "fits ids"
  shows "avail_chunk (mark_loop has ids idxs pv) j
     \<longleftrightarrow> avail_chunk pv j \<or> (j < length ids \<and> has (ids ! j) \<and> j \<in> unat ` set idxs)"
  using assms(1)
proof (induction idxs arbitrary: pv)
  case (Cons i idxs)
  let ?pv = "if i < vec_size ids \<and> has (ids ! unat i) then mark_chunk_available i (ids ! unat i) pv else pv"
  have lt: "i < vec_size ids \<longleftrightarrow> unat i < length ids" using assms(2) by (simp add: word_less_nat_alt unat_vec_size)
  have "vec_size (chunk_availability pv) = vec_size ids" using Cons.prems by (simp add: vec_size_def)
  then have one: "avail_chunk ?pv j \<longleftrightarrow> avail_chunk pv j \<or> (j = unat i \<and> j < length ids \<and> has (ids ! j))"
    using lt Cons.prems by (auto simp: avail_chunk_def mark_chunk_available_def nth_list_update not_le [symmetric])
  have len: "length (chunk_availability ?pv) = length ids" using Cons.prems by (simp add: mark_chunk_available_def)
  show ?case using Cons.IH [OF len] one by auto
qed simp

lemma PartialValue_new_avail [simp]:
  "\<not> avail_chunk (PartialValue_new d) j" "length (chunk_availability (PartialValue_new d)) = length (vd_chunks d)"
  "pv_total_size (PartialValue_new d) = vd_total_size d"
  by (simp_all add: avail_chunk_def PartialValue_new_def)

text \<open>The byte positions of a value that lie in a chunk the cache holds.\<close>

definition held_bytes :: "hasher \<Rightarrow> (ChunkId \<Rightarrow> bool) \<Rightarrow> byte list \<Rightarrow> nat set" where
  "held_bytes H has v = {b. b < length v \<and> has (Chunk_id H (chunk_of v (b div CS)))}"

lemma byte_in_needed:
  assumes "off \<le> b" and "b < off + len"
  shows "b div CS \<in> set (needed_chunks off len)"
proof -
  have "b \<le> off + len - 1" using assms by simp
  then have "b div CS \<le> (off + len - 1) div CS" by (rule div_le_mono)
  moreover have "off div CS \<le> b div CS" using assms(1) by (rule div_le_mono)
  ultimately show ?thesis by (simp add: needed_chunks_def del: upt_Suc)
qed

text \<open>
  For a request inside the value, the partial value that \<^verbatim>\<open>check\<close> builds has a requested byte exactly
  when the cache holds its chunk.
\<close>

lemma check_partial_correct:
  fixes H key md has off len
  assumes "value_ok S v" and "unat off + unat len \<le> length v" and "len \<noteq> 0"
  defines "d \<equiv> mk_descriptor H key v md" and "r \<equiv> \<lparr>r_offset = off, r_length = len\<rparr>"
  defines "pv \<equiv> mark_loop has (vd_chunks d) (chunks_for_range d r) (PartialValue_new d)"
  shows "requested pv r - avail_set pv = Range_bytes r - held_bytes H has v"
    and "fits (chunk_availability pv)" and "unat (pv_total_size pv) + CS < 2 ^ 64" and "Range_ok r"
    and "avail_set pv \<subseteq> held_bytes H has v" and "pv_wf pv"
proof -
  note f = value_ok_fits [OF assms(1)]
  have dd: "vd_total_size d = vec_size v" "length (vd_chunks d) = chunk_num v"
    using f by (simp_all add: d_def mk_descriptor_def length_split_value)
  have vlen: "length v + CS < 2 ^ 64" using assms(1) by (simp add: value_ok_def)
  note c = chunks_for_range_indices [OF f vlen dd assms(2,3), folded r_def]
  have fc: "fits (vd_chunks d)" using chunk_num_le [of v] f dd(2) by simp
  have idx: "unat ` set (chunks_for_range d r) = set (needed_chunks (unat off) (unat len))"
    using arg_cong [OF c(1), of set] by (simp add: needed_chunks_def)
  have av: "avail_chunk pv j \<longleftrightarrow> j < chunk_num v \<and> has (Chunk_id H (chunk_of v j)) \<and> j \<in> set (needed_chunks (unat off) (unat len))" for j
    using mark_loop_avail [of "PartialValue_new d" "vd_chunks d" has "chunks_for_range d r" j, unfolded idx] fc dd(2)
      vd_chunks_nth [OF f, of j H key md, folded d_def]
    by (auto simp: pv_def)
  have tot: "unat (pv_total_size pv) = length v" using dd(1) f by (simp add: pv_def mark_loop_frame unat_vec_size)
  have num: "b div CS < chunk_num v" if "b < length v" for b
    using that div_times_less_eq_dividend [of b CS] by (simp only: chunk_num_less)
  have b: "b \<in> avail_set pv \<longleftrightarrow> b \<in> held_bytes H has v" if "b \<in> Range_bytes r" for b
    using that num [of b] byte_in_needed [of "unat off" b "unat len"]
    by (auto simp: avail_set_def av tot held_bytes_def Range_bytes_def r_def)
  have "requested pv r = Range_bytes r" using assms(2) by (auto simp: requested_def tot Range_bytes_def r_def)
  then show "requested pv r - avail_set pv = Range_bytes r - held_bytes H has v" using b by auto
  show "avail_set pv \<subseteq> held_bytes H has v" by (auto simp: avail_set_def av tot held_bytes_def)
  show "fits (chunk_availability pv)" using fc by (simp add: pv_def mark_loop_frame)
  show "unat (pv_total_size pv) + CS < 2 ^ 64" using vlen tot by simp
  show "Range_ok r" using assms(2) f by (simp add: r_def Range_ok_def)
  show "pv_wf pv" using vlen tot dd(2) by (simp add: pv_wf_def pv_def mark_loop_frame chunk_num_def)
qed

end
