(* ===== verification/LRU_List.thy ===== *)
theory LRU_List
  imports Prelude
begin

text \<open>
  The two linked lists of \<^verbatim>\<open>include/elcache/arc_cache.hpp\<close>: \<^verbatim>\<open>LRUList\<close> and \<^verbatim>\<open>GhostList\<close>. Both pair a
  \<^verbatim>\<open>std::list\<close> with an \<^verbatim>\<open>unordered_map\<close> from keys to list iterators. The model keeps both halves: a
  list node is a pair of its identity (a number never used again, which is what a \<^verbatim>\<open>std::list\<close>
  iterator names) and its content, and the index maps keys to node identities. The locale
  \<open>keyed_seq\<close> is the contract the ARC cache relies on, a sequence of elements with distinct keys, and
  both classes are shown to provide it.
\<close>

section \<open>The contract\<close>

locale keyed_seq =
  fixes inv :: "'s \<Rightarrow> bool"
    and seq :: "'s \<Rightarrow> 'e list"
    and key :: "'e \<Rightarrow> 'k"
    and contains :: "'s \<Rightarrow> 'k \<Rightarrow> bool"
    and push :: "'e \<Rightarrow> 's \<Rightarrow> 's"
    and pop :: "'s \<Rightarrow> ('e \<times> 's) option"
    and erase :: "'k \<Rightarrow> 's \<Rightarrow> 's"
    and clear :: "'s \<Rightarrow> 's"
  assumes distinct_keys: "inv s \<Longrightarrow> distinct (map key (seq s))"
    and contains_iff: "inv s \<Longrightarrow> contains s k \<longleftrightarrow> k \<in> key ` set (seq s)"
    and push_inv: "inv s \<Longrightarrow> key e \<notin> key ` set (seq s) \<Longrightarrow> inv (push e s)"
    and seq_push: "inv s \<Longrightarrow> key e \<notin> key ` set (seq s) \<Longrightarrow> seq (push e s) = e # seq s"
    and pop_empty: "inv s \<Longrightarrow> seq s = [] \<Longrightarrow> pop s = None"
    and pop_last: "inv s \<Longrightarrow> seq s \<noteq> [] \<Longrightarrow>
      \<exists>s'. pop s = Some (last (seq s), s') \<and> inv s' \<and> seq s' = butlast (seq s)"
    and erase_inv: "inv s \<Longrightarrow> inv (erase k s)"
    and seq_erase: "inv s \<Longrightarrow> seq (erase k s) = filter (\<lambda>e. key e \<noteq> k) (seq s)"
    and clear_inv: "inv (clear s)"
    and seq_clear: "seq (clear s) = []"
begin

lemma pop_SomeD:
  assumes "inv s" and "pop s = Some (e, s')"
  shows "seq s = seq s' @ [e]" and "inv s'" and "key e \<notin> key ` set (seq s')"
proof -
  have ne: "seq s \<noteq> []" using assms pop_empty by force
  from pop_last [OF assms(1) ne] assms(2) have "e = last (seq s)" "seq s' = butlast (seq s)" "inv s'" by auto
  then show s: "seq s = seq s' @ [e]" and "inv s'" using ne by simp_all
  show "key e \<notin> key ` set (seq s')" using distinct_keys [OF assms(1)] by (simp add: s)
qed

lemma pop_None_iff: "inv s \<Longrightarrow> pop s = None \<longleftrightarrow> seq s = []"
  using pop_empty pop_last by fastforce

lemma contains_push: "inv s \<Longrightarrow> \<not> contains s (key e) \<Longrightarrow> contains (push e s) k \<longleftrightarrow> k = key e \<or> contains s k"
  by (simp add: contains_iff push_inv seq_push)

lemma contains_erase: "inv s \<Longrightarrow> contains (erase k s) k' \<longleftrightarrow> k' \<noteq> k \<and> contains s k'"
  by (auto simp: contains_iff erase_inv seq_erase)

lemma contains_pop:
  "inv s \<Longrightarrow> pop s = Some (e, s') \<Longrightarrow> contains s' k \<longleftrightarrow> contains s k \<and> k \<noteq> key e"
  using pop_SomeD [of s e s'] by (auto simp: contains_iff rev_image_eqI)

lemma erase_absent: "inv s \<Longrightarrow> \<not> contains s k \<Longrightarrow> seq (erase k s) = seq s"
  by (auto simp: contains_iff seq_erase filter_id_conv)

end

section \<open>Indexed lists of nodes\<close>

text \<open>Facts about node lists with an index, shared by the two classes.\<close>

definition index_of :: "('e \<Rightarrow> 'k) \<Rightarrow> (nat \<times> 'e) list \<Rightarrow> 'k \<rightharpoonup> nat" where
  "index_of key nodes = map_of (map (\<lambda>x. (key (snd x), fst x)) nodes)"

definition index_ok :: "('e \<Rightarrow> 'k) \<Rightarrow> (nat \<times> 'e) list \<Rightarrow> ('k \<rightharpoonup> nat) \<Rightarrow> nat \<Rightarrow> bool" where
  "index_ok key nodes m next =
     (distinct (map fst nodes) \<and> distinct (map (\<lambda>x. key (snd x)) nodes) \<and> (\<forall>x\<in>set nodes. fst x < next)
      \<and> m = index_of key nodes)"

lemma index_ok_empty: "index_ok key [] Map.empty next"
  by (simp add: index_ok_def index_of_def)

lemma index_None_iff:
  "index_ok key nodes m next \<Longrightarrow> m k = None \<longleftrightarrow> k \<notin> key ` set (map snd nodes)"
  by (auto simp: index_ok_def index_of_def map_of_eq_None_iff image_image)

lemma index_ok_push:
  assumes "index_ok key nodes m next" and "key e \<notin> key ` set (map snd nodes)"
  shows "index_ok key ((next, e) # nodes) (m(key e \<mapsto> next)) (Suc next)"
  using assms by (auto simp: index_ok_def index_of_def image_image less_Suc_eq)

lemma index_ok_filter:
  assumes "index_ok key nodes m next"
  shows "index_ok key (filter (\<lambda>x. key (snd x) \<noteq> k) nodes) (m(k := None)) next"
proof -
  have "map (\<lambda>x. (key (snd x), fst x)) (filter (\<lambda>x. key (snd x) \<noteq> k) nodes)
      = AList.delete k (map (\<lambda>x. (key (snd x), fst x)) nodes)"
    by (induction nodes) auto
  then have "index_of key (filter (\<lambda>x. key (snd x) \<noteq> k) nodes) = (index_of key nodes)(k := None)"
    by (simp add: index_of_def delete_conv')
  then show ?thesis using assms by (simp add: index_ok_def distinct_map_filter)
qed

lemma index_lookup:
  assumes "index_ok key nodes m next" and "m k = Some i"
  shows "\<exists>e. map_of nodes i = Some e \<and> key e = k \<and> (i, e) \<in> set nodes"
proof -
  have "(k, i) \<in> set (map (\<lambda>x. (key (snd x), fst x)) nodes)"
    using assms unfolding index_ok_def index_of_def by (blast dest: map_of_SomeD)
  then obtain e where "(i, e) \<in> set nodes" "key e = k" by auto
  then show ?thesis using assms(1) by (auto simp: index_ok_def)
qed

lemma index_id_iff:
  assumes "index_ok key nodes m next" and "m k = Some i" and "x \<in> set nodes"
  shows "fst x = i \<longleftrightarrow> key (snd x) = k"
proof -
  obtain e where e: "(i, e) \<in> set nodes" "key e = k" using index_lookup [OF assms(1,2)] by blast
  have d: "inj_on fst (set nodes)" "inj_on (\<lambda>x. key (snd x)) (set nodes)"
    using assms(1) by (simp_all add: index_ok_def distinct_map)
  show ?thesis
    using inj_on_eq_iff [OF d(1) assms(3) e(1)] inj_on_eq_iff [OF d(2) assms(3) e(1)] e(2) by auto
qed

lemma index_delete_filter:
  assumes "index_ok key nodes m next" and "m k = Some i"
  shows "AList.delete i nodes = filter (\<lambda>x. key (snd x) \<noteq> k) nodes"
  using index_id_iff [OF assms] by (auto simp: AList.delete_eq case_prod_unfold intro!: filter_cong)

lemma index_ok_delete:
  assumes "index_ok key nodes m next" and "m k = Some i"
  shows "index_ok key (AList.delete i nodes) (m(k := None)) next"
    and "map snd (AList.delete i nodes) = filter (\<lambda>e. key e \<noteq> k) (map snd nodes)"
  using index_ok_filter [OF assms(1)] index_delete_filter [OF assms] by (simp_all add: filter_map comp_def)

lemma index_ok_pop:
  assumes "index_ok key nodes m next" and "nodes \<noteq> []"
  shows "index_ok key (butlast nodes) (m(key (snd (last nodes)) := None)) next"
proof -
  obtain xs x where n: "nodes = xs @ [x]" using assms(2) by (metis append_butlast_last_id)
  have "filter (\<lambda>y. key (snd y) \<noteq> key (snd x)) nodes = xs"
    using assms(1) by (auto simp: n index_ok_def image_iff filter_id_conv)
  then show ?thesis using index_ok_filter [OF assms(1), of "key (snd x)"] by (simp add: n)
qed

lemma filter_key_absent: "k \<notin> key ` set xs \<Longrightarrow> filter (\<lambda>e. key e \<noteq> k) xs = xs"
  by (auto simp: filter_id_conv)

lemma index_ok_move:
  assumes "index_ok key nodes m next" and "m k = Some i" and "map_of nodes i = Some e"
  shows "index_ok key ((i, e) # AList.delete i nodes) m next"
proof -
  let ?d = "AList.delete i nodes"
  have e: "(i, e) \<in> set nodes" "key e = k" using index_lookup [OF assms(1,2)] assms(3) by auto
  have "index_ok key ?d (m(k := None)) next" using index_ok_delete(1) [OF assms(1,2)] .
  moreover have "i \<notin> fst ` set ?d" by (auto simp: AList.delete_eq)
  moreover have "k \<notin> (\<lambda>x. key (snd x)) ` set ?d" by (auto simp: index_delete_filter [OF assms(1,2)])
  moreover have "i < next" using assms(1) e(1) by (auto simp: index_ok_def)
  moreover have "m = (m(k := None))(k \<mapsto> i)" using assms(2) by (simp add: fun_upd_idem)
  ultimately show ?thesis using e(2) by (simp add: index_ok_def index_of_def)
qed

lemma index_ok_map:
  assumes "index_ok key nodes m next" and "\<And>x. x \<in> set nodes \<Longrightarrow> key (g x) = key (snd x)"
  shows "index_ok key (map (\<lambda>x. (fst x, g x)) nodes) m next"
  using assms(1) by (simp add: index_ok_def index_of_def comp_def assms(2) cong: map_cong)

section \<open>LRUList\<close>

record ('k, 'v) Entry =
  e_key :: 'k
  e_value :: 'v
  e_size :: u64

record ('k, 'v) LRUList =
  lru_list :: "(nat \<times> ('k, 'v) Entry) list"
  lru_map :: "'k \<rightharpoonup> nat"
  lru_next :: nat

text \<open>An iterator is a node identity; \<^verbatim>\<open>end()\<close> is \<open>None\<close>.\<close>

type_synonym iterator = nat

definition LRUList_new :: "('k, 'v) LRUList" where
  "LRUList_new = \<lparr>lru_list = [], lru_map = Map.empty, lru_next = 0\<rparr>"

definition LRUList_contains :: "('k, 'v) LRUList \<Rightarrow> 'k \<Rightarrow> bool" where
  "LRUList_contains l k = (lru_map l k \<noteq> None)"

definition LRUList_deref :: "('k, 'v) LRUList \<Rightarrow> iterator \<Rightarrow> ('k, 'v) Entry option" where
  "LRUList_deref l it = map_of (lru_list l) it"

definition LRUList_get :: "('k, 'v) LRUList \<Rightarrow> 'k \<Rightarrow> 'v option" where
  "LRUList_get l k = (case lru_map l k of
       None \<Rightarrow> None
     | Some it \<Rightarrow> map_option e_value (LRUList_deref l it))"

definition LRUList_find :: "('k, 'v) LRUList \<Rightarrow> 'k \<Rightarrow> iterator option" where
  "LRUList_find l k = lru_map l k"

text \<open>The lookup \<^verbatim>\<open>auto it = l.find(key); it != l.end()\<close> together with the entry \<^verbatim>\<open>*it\<close>.\<close>

definition LRUList_find_entry :: "('k, 'v) LRUList \<Rightarrow> 'k \<Rightarrow> (iterator \<times> ('k, 'v) Entry) option" where
  "LRUList_find_entry l k =
     Option.bind (LRUList_find l k) (\<lambda>it. map_option (Pair it) (LRUList_deref l it))"

definition LRUList_push_front :: "'k \<Rightarrow> 'v \<Rightarrow> u64 \<Rightarrow> ('k, 'v) LRUList \<Rightarrow> ('k, 'v) LRUList" where
  "LRUList_push_front k v n l =
     l\<lparr>lru_list := (lru_next l, \<lparr>e_key = k, e_value = v, e_size = n\<rparr>) # lru_list l,
       lru_map := (lru_map l)(k \<mapsto> lru_next l),
       lru_next := Suc (lru_next l)\<rparr>"

definition LRUList_move_to_front :: "iterator \<Rightarrow> ('k, 'v) LRUList \<Rightarrow> ('k, 'v) LRUList" where
  "LRUList_move_to_front it l = (case LRUList_deref l it of
       None \<Rightarrow> l
     | Some e \<Rightarrow> l\<lparr>lru_list := (it, e) # AList.delete it (lru_list l)\<rparr>)"

text \<open>The assignments \<^verbatim>\<open>it->value = v; it->size = n\<close> through an iterator.\<close>

definition LRUList_assign :: "iterator \<Rightarrow> 'v \<Rightarrow> u64 \<Rightarrow> ('k, 'v) LRUList \<Rightarrow> ('k, 'v) LRUList" where
  "LRUList_assign it v n l =
     l\<lparr>lru_list := map (\<lambda>(i, e). (i, if i = it then e\<lparr>e_value := v, e_size := n\<rparr> else e)) (lru_list l)\<rparr>"

text \<open>\<^verbatim>\<open>pop_back\<close> of an empty list is undefined; its callers check \<^verbatim>\<open>empty()\<close> first. It is \<open>None\<close> here.\<close>

definition LRUList_pop_back :: "('k, 'v) LRUList \<Rightarrow> (('k, 'v) Entry \<times> ('k, 'v) LRUList) option" where
  "LRUList_pop_back l =
     (if lru_list l = [] then None
      else let e = snd (last (lru_list l))
           in Some (e, l\<lparr>lru_map := (lru_map l)(e_key e := None), lru_list := butlast (lru_list l)\<rparr>))"

definition LRUList_erase_key :: "'k \<Rightarrow> ('k, 'v) LRUList \<Rightarrow> ('k, 'v) LRUList" where
  "LRUList_erase_key k l = (case lru_map l k of
       None \<Rightarrow> l
     | Some it \<Rightarrow> l\<lparr>lru_list := AList.delete it (lru_list l), lru_map := (lru_map l)(k := None)\<rparr>)"

definition LRUList_erase :: "iterator \<Rightarrow> ('k, 'v) LRUList \<Rightarrow> ('k, 'v) LRUList" where
  "LRUList_erase it l = (case LRUList_deref l it of
       None \<Rightarrow> l
     | Some e \<Rightarrow> l\<lparr>lru_map := (lru_map l)(e_key e := None), lru_list := AList.delete it (lru_list l)\<rparr>)"

definition LRUList_empty :: "('k, 'v) LRUList \<Rightarrow> bool" where
  "LRUList_empty l = (lru_list l = [])"

definition LRUList_size :: "('k, 'v) LRUList \<Rightarrow> u64" where
  "LRUList_size l = vec_size (lru_list l)"

definition LRUList_clear :: "('k, 'v) LRUList \<Rightarrow> ('k, 'v) LRUList" where
  "LRUList_clear l = l\<lparr>lru_list := [], lru_map := Map.empty\<rparr>"

definition LRUList_total_size :: "('k, 'v) LRUList \<Rightarrow> u64" where
  "LRUList_total_size l = foldl (\<lambda>s x. s + e_size (snd x)) 0 (lru_list l)"

definition LRUList_inv :: "('k, 'v) LRUList \<Rightarrow> bool" where
  "LRUList_inv l = index_ok e_key (lru_list l) (lru_map l) (lru_next l)"

text \<open>The entries, most recently used first: the abstract value of the list.\<close>

definition entries :: "('k, 'v) LRUList \<Rightarrow> ('k, 'v) Entry list" where
  "entries l = map snd (lru_list l)"

definition LRUList_push :: "('k, 'v) Entry \<Rightarrow> ('k, 'v) LRUList \<Rightarrow> ('k, 'v) LRUList" where
  "LRUList_push e = LRUList_push_front (e_key e) (e_value e) (e_size e)"

lemma Entry_eta [simp]: "\<lparr>e_key = e_key e, e_value = e_value e, e_size = e_size e\<rparr> = e"
  by simp

lemma LRUList_new_inv [simp]: "LRUList_inv LRUList_new" "entries LRUList_new = []"
  by (simp_all add: LRUList_inv_def LRUList_new_def index_ok_empty entries_def)

interpretation lru: keyed_seq LRUList_inv entries e_key LRUList_contains LRUList_push
  LRUList_pop_back LRUList_erase_key LRUList_clear
proof unfold_locales
  fix l :: "('k, 'v) LRUList" and k e
  show "LRUList_inv (LRUList_clear l)" "entries (LRUList_clear l) = []"
    by (simp_all add: LRUList_inv_def LRUList_clear_def index_ok_empty entries_def)
  assume inv: "LRUList_inv l"
  then show "distinct (map e_key (entries l))"
    by (simp add: LRUList_inv_def index_ok_def entries_def comp_def)
  show "LRUList_contains l k \<longleftrightarrow> k \<in> e_key ` set (entries l)"
    using inv index_None_iff [of e_key "lru_list l" "lru_map l" "lru_next l" k]
    by (auto simp: LRUList_inv_def LRUList_contains_def entries_def)
  show "LRUList_inv (LRUList_push e l)" "entries (LRUList_push e l) = e # entries l"
    if "e_key e \<notin> e_key ` set (entries l)"
    using inv that index_ok_push [of e_key "lru_list l" "lru_map l" "lru_next l" e]
    by (simp_all add: LRUList_inv_def LRUList_push_def LRUList_push_front_def entries_def)
  show "LRUList_pop_back l = None" if "entries l = []"
    using that by (simp add: LRUList_pop_back_def entries_def)
  show "\<exists>s'. LRUList_pop_back l = Some (last (entries l), s') \<and> LRUList_inv s' \<and> entries s' = butlast (entries l)"
    if "entries l \<noteq> []"
    using inv that index_ok_pop [of e_key "lru_list l" "lru_map l" "lru_next l"]
    by (simp add: LRUList_inv_def LRUList_pop_back_def Let_def entries_def last_map map_butlast)
  show "LRUList_inv (LRUList_erase_key k l)" "entries (LRUList_erase_key k l) = filter (\<lambda>e. e_key e \<noteq> k) (entries l)"
    using inv index_ok_delete [of e_key "lru_list l" "lru_map l" "lru_next l" k]
      index_None_iff [of e_key "lru_list l" "lru_map l" "lru_next l" k]
    by (auto simp: LRUList_inv_def LRUList_erase_key_def entries_def filter_key_absent split: option.splits)
qed

text \<open>Operations through an iterator returned by \<^verbatim>\<open>find\<close>.\<close>

lemma LRUList_find_None_iff: "LRUList_inv l \<Longrightarrow> LRUList_find l k = None \<longleftrightarrow> k \<notin> e_key ` set (entries l)"
  using lru.contains_iff [of l k] by (auto simp: LRUList_contains_def LRUList_find_def)

lemma LRUList_find_SomeD:
  assumes "LRUList_inv l" and "LRUList_find l k = Some it"
  obtains e where "LRUList_deref l it = Some e" and "e \<in> set (entries l)" and "e_key e = k"
  using index_lookup [of e_key "lru_list l" "lru_map l" "lru_next l" k it] assms that
  by (force simp: LRUList_inv_def LRUList_find_def LRUList_deref_def entries_def)

lemma LRUList_erase_found:
  assumes "LRUList_inv l" and "LRUList_find l k = Some it"
  shows "LRUList_erase it l = LRUList_erase_key k l"
  by (rule LRUList_find_SomeD [OF assms])
     (use assms in \<open>simp add: LRUList_erase_def LRUList_erase_key_def LRUList_find_def\<close>)

lemma LRUList_get_found:
  assumes "LRUList_inv l" and "LRUList_find l k = Some it"
  shows "LRUList_get l k = map_option e_value (LRUList_deref l it)"
  using assms by (simp add: LRUList_get_def LRUList_find_def)

lemma LRUList_move_found:
  assumes "LRUList_inv l" and "LRUList_find l k = Some it" and "LRUList_deref l it = Some e"
  shows "LRUList_inv (LRUList_move_to_front it l)"
    and "entries (LRUList_move_to_front it l) = e # filter (\<lambda>e. e_key e \<noteq> k) (entries l)"
proof -
  let ?n = "lru_list l" and ?m = "lru_map l"
  have ok: "index_ok e_key ?n ?m (lru_next l)" and m: "?m k = Some it"
    using assms(1,2) by (simp_all add: LRUList_inv_def LRUList_find_def)
  show "entries (LRUList_move_to_front it l) = e # filter (\<lambda>e. e_key e \<noteq> k) (entries l)"
    using index_ok_delete(2) [OF ok m] assms(3) by (simp add: LRUList_move_to_front_def entries_def)
  show "LRUList_inv (LRUList_move_to_front it l)"
    using index_ok_move [OF ok m] assms(3)
    by (simp add: LRUList_inv_def LRUList_move_to_front_def LRUList_deref_def)
qed

lemma LRUList_assign_entries:
  assumes "LRUList_inv l" and "LRUList_find l k = Some it"
  shows "LRUList_inv (LRUList_assign it v n l)"
    and "LRUList_find (LRUList_assign it v n l) k = Some it"
    and "LRUList_deref (LRUList_assign it v n l) it = Some \<lparr>e_key = k, e_value = v, e_size = n\<rparr>"
    and "entries (LRUList_assign it v n l)
       = map (\<lambda>e. if e_key e = k then \<lparr>e_key = k, e_value = v, e_size = n\<rparr> else e) (entries l)"
proof -
  let ?n = "lru_list l" and ?m = "lru_map l"
  let ?g = "\<lambda>x. if fst x = it then (snd x)\<lparr>e_value := v, e_size := n\<rparr> else snd x"
  have ok: "index_ok e_key ?n ?m (lru_next l)" and m: "?m k = Some it"
    using assms by (simp_all add: LRUList_inv_def LRUList_find_def)
  have list: "lru_list (LRUList_assign it v n l) = map (\<lambda>x. (fst x, ?g x)) ?n"
    by (auto simp: LRUList_assign_def)
  show "LRUList_inv (LRUList_assign it v n l)"
    using index_ok_map [OF ok, of ?g] unfolding LRUList_inv_def list by (simp add: LRUList_assign_def)
  show "LRUList_find (LRUList_assign it v n l) k = Some it"
    using m by (simp add: LRUList_find_def LRUList_assign_def)
  obtain e where e: "(it, e) \<in> set ?n" "e_key e = k" "map_of ?n it = Some e" using index_lookup [OF ok m] by blast
  have "map_of (map (\<lambda>x. (fst x, ?g x)) ?n) it = Some (e\<lparr>e_value := v, e_size := n\<rparr>)"
    using ok e(1) by (intro map_of_is_SomeI) (force simp: index_ok_def comp_def)+
  then show "LRUList_deref (LRUList_assign it v n l) it = Some \<lparr>e_key = k, e_value = v, e_size = n\<rparr>"
    unfolding LRUList_deref_def list using e(2) by simp
  show "entries (LRUList_assign it v n l)
       = map (\<lambda>e. if e_key e = k then \<lparr>e_key = k, e_value = v, e_size = n\<rparr> else e) (entries l)"
    unfolding entries_def list using index_id_iff [OF ok m] by auto
qed

section \<open>GhostList\<close>

record 'k GhostList =
  gh_list :: "(nat \<times> 'k) list"
  gh_map :: "'k \<rightharpoonup> nat"
  gh_next :: nat

definition GhostList_new :: "'k GhostList" where
  "GhostList_new = \<lparr>gh_list = [], gh_map = Map.empty, gh_next = 0\<rparr>"

definition GhostList_contains :: "'k GhostList \<Rightarrow> 'k \<Rightarrow> bool" where
  "GhostList_contains l k = (gh_map l k \<noteq> None)"

definition GhostList_push_front :: "'k \<Rightarrow> 'k GhostList \<Rightarrow> 'k GhostList" where
  "GhostList_push_front k l =
     l\<lparr>gh_list := (gh_next l, k) # gh_list l, gh_map := (gh_map l)(k \<mapsto> gh_next l), gh_next := Suc (gh_next l)\<rparr>"

definition GhostList_pop_back :: "'k GhostList \<Rightarrow> ('k \<times> 'k GhostList) option" where
  "GhostList_pop_back l =
     (if gh_list l = [] then None
      else let k = snd (last (gh_list l))
           in Some (k, l\<lparr>gh_map := (gh_map l)(k := None), gh_list := butlast (gh_list l)\<rparr>))"

definition GhostList_erase :: "'k \<Rightarrow> 'k GhostList \<Rightarrow> 'k GhostList" where
  "GhostList_erase k l = (case gh_map l k of
       None \<Rightarrow> l
     | Some it \<Rightarrow> l\<lparr>gh_list := AList.delete it (gh_list l), gh_map := (gh_map l)(k := None)\<rparr>)"

definition GhostList_empty :: "'k GhostList \<Rightarrow> bool" where
  "GhostList_empty l = (gh_list l = [])"

text \<open>The guarded call \<^verbatim>\<open>if (!b.empty()) b.pop_back();\<close> with its result dropped.\<close>

definition GhostList_drop_back :: "'k GhostList \<Rightarrow> 'k GhostList" where
  "GhostList_drop_back l =
     (if \<not> GhostList_empty l then (case GhostList_pop_back l of None \<Rightarrow> l | Some (_, l') \<Rightarrow> l') else l)"

definition GhostList_size :: "'k GhostList \<Rightarrow> u64" where
  "GhostList_size l = vec_size (gh_list l)"

definition GhostList_clear :: "'k GhostList \<Rightarrow> 'k GhostList" where
  "GhostList_clear l = l\<lparr>gh_list := [], gh_map := Map.empty\<rparr>"

definition GhostList_inv :: "'k GhostList \<Rightarrow> bool" where
  "GhostList_inv l = index_ok (\<lambda>k. k) (gh_list l) (gh_map l) (gh_next l)"

definition ghosts :: "'k GhostList \<Rightarrow> 'k list" where
  "ghosts l = map snd (gh_list l)"

lemma GhostList_new_inv [simp]: "GhostList_inv GhostList_new" "ghosts GhostList_new = []"
  by (simp_all add: GhostList_inv_def GhostList_new_def index_ok_empty ghosts_def)

interpretation ghost: keyed_seq GhostList_inv ghosts "\<lambda>k. k" GhostList_contains GhostList_push_front
  GhostList_pop_back GhostList_erase GhostList_clear
proof unfold_locales
  fix l :: "'k GhostList" and k e
  show "GhostList_inv (GhostList_clear l)" "ghosts (GhostList_clear l) = []"
    by (simp_all add: GhostList_inv_def GhostList_clear_def index_ok_empty ghosts_def)
  assume inv: "GhostList_inv l"
  then show "distinct (map (\<lambda>k. k) (ghosts l))"
    by (simp add: GhostList_inv_def index_ok_def ghosts_def comp_def)
  show "GhostList_contains l k \<longleftrightarrow> k \<in> (\<lambda>k. k) ` set (ghosts l)"
    using inv index_None_iff [of "\<lambda>k. k" "gh_list l" "gh_map l" "gh_next l" k]
    by (auto simp: GhostList_inv_def GhostList_contains_def ghosts_def)
  show "GhostList_inv (GhostList_push_front e l)" "ghosts (GhostList_push_front e l) = e # ghosts l"
    if "e \<notin> (\<lambda>k. k) ` set (ghosts l)"
    using inv that index_ok_push [of "\<lambda>k. k" "gh_list l" "gh_map l" "gh_next l" e]
    by (simp_all add: GhostList_inv_def GhostList_push_front_def ghosts_def)
  show "GhostList_pop_back l = None" if "ghosts l = []"
    using that by (simp add: GhostList_pop_back_def ghosts_def)
  show "\<exists>s'. GhostList_pop_back l = Some (last (ghosts l), s') \<and> GhostList_inv s' \<and> ghosts s' = butlast (ghosts l)"
    if "ghosts l \<noteq> []"
    using inv that index_ok_pop [of "\<lambda>k. k" "gh_list l" "gh_map l" "gh_next l"]
    by (simp add: GhostList_inv_def GhostList_pop_back_def Let_def ghosts_def last_map map_butlast)
  show "GhostList_inv (GhostList_erase k l)" "ghosts (GhostList_erase k l) = filter (\<lambda>e. e \<noteq> k) (ghosts l)"
    using inv index_ok_delete [of "\<lambda>k. k" "gh_list l" "gh_map l" "gh_next l" k]
      index_None_iff [of "\<lambda>k. k" "gh_list l" "gh_map l" "gh_next l" k]
    by (auto simp: GhostList_inv_def GhostList_erase_def ghosts_def filter_key_absent [of _ "\<lambda>k. k"] split: option.splits)
qed

lemma GhostList_drop_back_seq:
  assumes "GhostList_inv l"
  shows "GhostList_inv (GhostList_drop_back l)" and "ghosts (GhostList_drop_back l) = butlast (ghosts l)"
  using ghost.pop_last [OF assms] assms
  by (auto simp: GhostList_drop_back_def GhostList_empty_def ghosts_def)

end
