(* ===== verification/ARC_Cache.thy ===== *)
theory ARC_Cache
  imports LRU_List Binary64 "HOL-Library.Multiset"
begin

text \<open>
  The adaptive replacement cache of \<^verbatim>\<open>include/elcache/arc_cache.hpp\<close>, class \<^verbatim>\<open>ARCCache\<close>. The first
  part translates the class operation by operation over the linked lists of \<open>LRU_List\<close>. The second
  part is its specification: the same algorithm on plain sequences of entries, without the
  iterator indices. A simulation shows that the class implements the specification, and the
  properties (contents, evictions, sizes, capacity, adaptation) are proved through it.

  The class takes one mutex for the whole of each operation, so an operation is one step.
\<close>

section \<open>The class\<close>

record ('k, 'v) ARCCache =
  arc_capacity :: u64
  arc_size_fn :: "'v \<Rightarrow> u64"
  arc_t1 :: "('k, 'v) LRUList"
  arc_t2 :: "('k, 'v) LRUList"
  arc_b1 :: "'k GhostList"
  arc_b2 :: "'k GhostList"
  arc_p :: double
  arc_current_size :: u64
  arc_hits :: u64
  arc_misses :: u64

definition ARCCache_new :: "u64 \<Rightarrow> ('v \<Rightarrow> u64) option \<Rightarrow> ('k, 'v) ARCCache" where
  "ARCCache_new cap size_fn =
     \<lparr>arc_capacity = cap,
      arc_size_fn = (case size_fn of Some f \<Rightarrow> f | None \<Rightarrow> (\<lambda>_. 1)),
      arc_t1 = LRUList_new, arc_t2 = LRUList_new, arc_b1 = GhostList_new, arc_b2 = GhostList_new,
      arc_p = 0, arc_current_size = 0, arc_hits = 0, arc_misses = 0\<rparr>"

definition ARCCache_get_impl :: "'k \<Rightarrow> ('k, 'v) ARCCache \<Rightarrow> 'v option \<times> ('k, 'v) ARCCache" where
  "ARCCache_get_impl k c =
     (case LRUList_find_entry (arc_t1 c) k of
        Some (it, e) \<Rightarrow>
          let t1 = LRUList_erase it (arc_t1 c);
              t2 = LRUList_push_front k (e_value e) (e_size e) (arc_t2 c)
          in (LRUList_get t2 k, c\<lparr>arc_t1 := t1, arc_t2 := t2, arc_hits := arc_hits c + 1\<rparr>)
      | None \<Rightarrow>
          (case LRUList_find (arc_t2 c) k of
             Some it \<Rightarrow>
               let t2 = LRUList_move_to_front it (arc_t2 c)
               in (map_option e_value (LRUList_deref t2 it), c\<lparr>arc_t2 := t2, arc_hits := arc_hits c + 1\<rparr>)
           | None \<Rightarrow> (None, c\<lparr>arc_misses := arc_misses c + 1\<rparr>)))"

definition ARCCache_evict_one ::
    "('k \<times> 'v) list \<times> ('k, 'v) ARCCache \<Rightarrow> ('k \<times> 'v) list \<times> ('k, 'v) ARCCache" where
  "ARCCache_evict_one s =
     (let (evicted, c) = s; t1_size = LRUList_total_size (arc_t1 c)
      in if \<not> LRUList_empty (arc_t1 c) \<and> (u64_of_double (arc_p c) < t1_size \<or> LRUList_empty (arc_t2 c)) then
           (case LRUList_pop_back (arc_t1 c) of
              None \<Rightarrow> s
            | Some (e, t1) \<Rightarrow>
                (evicted @ [(e_key e, e_value e)],
                 c\<lparr>arc_t1 := t1, arc_current_size := arc_current_size c - e_size e,
                   arc_b1 := GhostList_push_front (e_key e) (arc_b1 c)\<rparr>))
         else if \<not> LRUList_empty (arc_t2 c) then
           (case LRUList_pop_back (arc_t2 c) of
              None \<Rightarrow> s
            | Some (e, t2) \<Rightarrow>
                (evicted @ [(e_key e, e_value e)],
                 c\<lparr>arc_t2 := t2, arc_current_size := arc_current_size c - e_size e,
                   arc_b2 := GhostList_push_front (e_key e) (arc_b2 c)\<rparr>))
         else s)"

text \<open>The eviction loop ends: every pass takes one node off \<^verbatim>\<open>t1_\<close> or \<^verbatim>\<open>t2_\<close>.\<close>

function ARCCache_evict_for_size ::
    "u64 \<Rightarrow> ('k \<times> 'v) list \<times> ('k, 'v) ARCCache \<Rightarrow> ('k \<times> 'v) list \<times> ('k, 'v) ARCCache" where
  "ARCCache_evict_for_size needed s =
     (if arc_capacity (snd s) < arc_current_size (snd s) + needed
         \<and> (\<not> LRUList_empty (arc_t1 (snd s)) \<or> \<not> LRUList_empty (arc_t2 (snd s)))
      then ARCCache_evict_for_size needed (ARCCache_evict_one s)
      else s)"
  by pat_completeness auto

termination ARCCache_evict_for_size
  by (relation "measure (\<lambda>(n, s). length (lru_list (arc_t1 (snd s))) + length (lru_list (arc_t2 (snd s))))")
     (auto simp: ARCCache_evict_one_def LRUList_pop_back_def LRUList_empty_def Let_def split: prod.splits)

declare ARCCache_evict_for_size.simps [simp del]

text \<open>The step sizes of the adaptation in cases 3 and 4 of \<^verbatim>\<open>put_impl\<close>: one, or the quotient of the ghost list sizes.\<close>

definition adapt_delta :: "u64 \<Rightarrow> u64 \<Rightarrow> double" where
  "adapt_delta other own = (if own \<le> other then 1 else fl (double_of_u64 other / double_of_u64 own))"

text \<open>Case 5 of \<^verbatim>\<open>put_impl\<close>: drop the oldest key of a full ghost list.\<close>

definition ARCCache_trim_ghosts :: "('k, 'v) ARCCache \<Rightarrow> ('k, 'v) ARCCache" where
  "ARCCache_trim_ghosts c =
     (let total_ghost = GhostList_size (arc_b1 c) + GhostList_size (arc_b2 c)
      in if arc_capacity c \<le> LRUList_size (arc_t1 c) + GhostList_size (arc_b1 c) then
           c\<lparr>arc_b1 := GhostList_drop_back (arc_b1 c)\<rparr>
         else if arc_capacity c * 2 \<le> LRUList_size (arc_t1 c) + LRUList_size (arc_t2 c) + total_ghost then
           c\<lparr>arc_b2 := GhostList_drop_back (arc_b2 c)\<rparr>
         else c)"

definition ARCCache_put_impl ::
    "'k \<Rightarrow> 'v \<Rightarrow> ('k, 'v) ARCCache \<Rightarrow> ('k \<times> 'v) list \<times> ('k, 'v) ARCCache" where
  "ARCCache_put_impl k v c =
     (let value_size = arc_size_fn c v
      in case LRUList_find_entry (arc_t1 c) k of
        Some (it, e) \<Rightarrow>
          ([], c\<lparr>arc_current_size := arc_current_size c - e_size e + value_size,
                 arc_t1 := LRUList_erase it (LRUList_assign it v value_size (arc_t1 c)),
                 arc_t2 := LRUList_push_front k v value_size (arc_t2 c)\<rparr>)
      | None \<Rightarrow>
      (case LRUList_find_entry (arc_t2 c) k of
        Some (it, e) \<Rightarrow>
          ([], c\<lparr>arc_current_size := arc_current_size c - e_size e + value_size,
                 arc_t2 := LRUList_move_to_front it (LRUList_assign it v value_size (arc_t2 c))\<rparr>)
      | None \<Rightarrow>
      if GhostList_contains (arc_b1 c) k then
        let delta = adapt_delta (GhostList_size (arc_b2 c)) (GhostList_size (arc_b1 c));
            c1 = c\<lparr>arc_p := min (fl (arc_p c + delta)) (double_of_u64 (arc_capacity c)),
                   arc_b1 := GhostList_erase k (arc_b1 c)\<rparr>;
            (evicted, c2) = ARCCache_evict_for_size value_size ([], c1)
        in (evicted, c2\<lparr>arc_t2 := LRUList_push_front k v value_size (arc_t2 c2),
                        arc_current_size := arc_current_size c2 + value_size\<rparr>)
      else if GhostList_contains (arc_b2 c) k then
        let delta = adapt_delta (GhostList_size (arc_b1 c)) (GhostList_size (arc_b2 c));
            c1 = c\<lparr>arc_p := max (fl (arc_p c - delta)) 0,
                   arc_b2 := GhostList_erase k (arc_b2 c)\<rparr>;
            (evicted, c2) = ARCCache_evict_for_size value_size ([], c1)
        in (evicted, c2\<lparr>arc_t2 := LRUList_push_front k v value_size (arc_t2 c2),
                        arc_current_size := arc_current_size c2 + value_size\<rparr>)
      else
        let c1 = ARCCache_trim_ghosts c;
            (evicted, c2) = ARCCache_evict_for_size value_size ([], c1)
        in (evicted, c2\<lparr>arc_t1 := LRUList_push_front k v value_size (arc_t1 c2),
                        arc_current_size := arc_current_size c2 + value_size\<rparr>)))"

definition ARCCache_remove_impl :: "'k \<Rightarrow> ('k, 'v) ARCCache \<Rightarrow> bool \<times> ('k, 'v) ARCCache" where
  "ARCCache_remove_impl k c =
     (case LRUList_find_entry (arc_t1 c) k of
        Some (it, e) \<Rightarrow> (True, c\<lparr>arc_current_size := arc_current_size c - e_size e,
                                 arc_t1 := LRUList_erase it (arc_t1 c)\<rparr>)
      | None \<Rightarrow>
          (case LRUList_find_entry (arc_t2 c) k of
             Some (it, e) \<Rightarrow> (True, c\<lparr>arc_current_size := arc_current_size c - e_size e,
                                      arc_t2 := LRUList_erase it (arc_t2 c)\<rparr>)
           | None \<Rightarrow> (False, c\<lparr>arc_b1 := GhostList_erase k (arc_b1 c),
                               arc_b2 := GhostList_erase k (arc_b2 c)\<rparr>)))"

definition ARCCache_contains :: "('k, 'v) ARCCache \<Rightarrow> 'k \<Rightarrow> bool" where
  "ARCCache_contains c k = (LRUList_contains (arc_t1 c) k \<or> LRUList_contains (arc_t2 c) k)"

definition ARCCache_clear :: "('k, 'v) ARCCache \<Rightarrow> ('k, 'v) ARCCache" where
  "ARCCache_clear c =
     c\<lparr>arc_t1 := LRUList_clear (arc_t1 c), arc_t2 := LRUList_clear (arc_t2 c),
       arc_b1 := GhostList_clear (arc_b1 c), arc_b2 := GhostList_clear (arc_b2 c),
       arc_p := 0, arc_current_size := 0\<rparr>"

record ARCStats =
  as_hits :: u64
  as_misses :: u64
  as_t1_size :: u64
  as_t2_size :: u64
  as_b1_size :: u64
  as_b2_size :: u64
  as_p :: double

definition ARCCache_stats :: "('k, 'v) ARCCache \<Rightarrow> ARCStats" where
  "ARCCache_stats c =
     \<lparr>as_hits = arc_hits c, as_misses = arc_misses c,
      as_t1_size = LRUList_size (arc_t1 c), as_t2_size = LRUList_size (arc_t2 c),
      as_b1_size = GhostList_size (arc_b1 c), as_b2_size = GhostList_size (arc_b2 c),
      as_p = arc_p c\<rparr>"

section \<open>The specification\<close>

text \<open>The four lists as sequences, most recent first.\<close>

record ('k, 'v) arc =
  a_capacity :: u64
  a_size_fn :: "'v \<Rightarrow> u64"
  a_t1 :: "('k, 'v) Entry list"
  a_t2 :: "('k, 'v) Entry list"
  a_b1 :: "'k list"
  a_b2 :: "'k list"
  a_p :: double
  a_size :: u64
  a_hits :: u64
  a_misses :: u64

definition entry_find :: "'k \<Rightarrow> ('k, 'v) Entry list \<Rightarrow> ('k, 'v) Entry option" where
  "entry_find k es = List.find (\<lambda>e. e_key e = k) es"

definition entry_del :: "'k \<Rightarrow> ('k, 'v) Entry list \<Rightarrow> ('k, 'v) Entry list" where
  "entry_del k es = filter (\<lambda>e. e_key e \<noteq> k) es"

definition entries_size :: "('k, 'v) Entry list \<Rightarrow> u64" where
  "entries_size es = sum_list (map e_size es)"

definition arc_get :: "'k \<Rightarrow> ('k, 'v) arc \<Rightarrow> 'v option \<times> ('k, 'v) arc" where
  "arc_get k a =
     (case entry_find k (a_t1 a) of
        Some e \<Rightarrow> (Some (e_value e), a\<lparr>a_t1 := entry_del k (a_t1 a), a_t2 := e # a_t2 a, a_hits := a_hits a + 1\<rparr>)
      | None \<Rightarrow> (case entry_find k (a_t2 a) of
          Some e \<Rightarrow> (Some (e_value e), a\<lparr>a_t2 := e # entry_del k (a_t2 a), a_hits := a_hits a + 1\<rparr>)
        | None \<Rightarrow> (None, a\<lparr>a_misses := a_misses a + 1\<rparr>)))"

definition arc_evict_one :: "('k \<times> 'v) list \<times> ('k, 'v) arc \<Rightarrow> ('k \<times> 'v) list \<times> ('k, 'v) arc" where
  "arc_evict_one s =
     (let (ev, a) = s
      in if a_t1 a \<noteq> [] \<and> (u64_of_double (a_p a) < entries_size (a_t1 a) \<or> a_t2 a = []) then
           let e = last (a_t1 a)
           in (ev @ [(e_key e, e_value e)],
               a\<lparr>a_t1 := butlast (a_t1 a), a_size := a_size a - e_size e, a_b1 := e_key e # a_b1 a\<rparr>)
         else if a_t2 a \<noteq> [] then
           let e = last (a_t2 a)
           in (ev @ [(e_key e, e_value e)],
               a\<lparr>a_t2 := butlast (a_t2 a), a_size := a_size a - e_size e, a_b2 := e_key e # a_b2 a\<rparr>)
         else s)"

function arc_evict :: "u64 \<Rightarrow> ('k \<times> 'v) list \<times> ('k, 'v) arc \<Rightarrow> ('k \<times> 'v) list \<times> ('k, 'v) arc" where
  "arc_evict needed s =
     (if a_capacity (snd s) < a_size (snd s) + needed \<and> (a_t1 (snd s) \<noteq> [] \<or> a_t2 (snd s) \<noteq> [])
      then arc_evict needed (arc_evict_one s) else s)"
  by pat_completeness auto

termination arc_evict
  by (relation "measure (\<lambda>(n, s). length (a_t1 (snd s)) + length (a_t2 (snd s)))")
     (auto simp: arc_evict_one_def Let_def split: prod.splits)

declare arc_evict.simps [simp del]

text \<open>Make room and insert at the front of \<open>t1\<close> (a new key) or of \<open>t2\<close> (a key with a ghost).\<close>

definition arc_insert :: "bool \<Rightarrow> 'k \<Rightarrow> 'v \<Rightarrow> ('k, 'v) arc \<Rightarrow> ('k \<times> 'v) list \<times> ('k, 'v) arc" where
  "arc_insert fresh k v a =
     (let e = \<lparr>e_key = k, e_value = v, e_size = a_size_fn a v\<rparr>;
          (ev, a') = arc_evict (a_size_fn a v) ([], a)
      in (ev, a'\<lparr>a_t1 := (if fresh then e # a_t1 a' else a_t1 a'),
                 a_t2 := (if fresh then a_t2 a' else e # a_t2 a'),
                 a_size := a_size a' + a_size_fn a v\<rparr>))"

definition arc_trim :: "('k, 'v) arc \<Rightarrow> ('k, 'v) arc" where
  "arc_trim a =
     (if a_capacity a \<le> vec_size (a_t1 a) + vec_size (a_b1 a) then a\<lparr>a_b1 := butlast (a_b1 a)\<rparr>
      else if a_capacity a * 2 \<le> vec_size (a_t1 a) + vec_size (a_t2 a) + (vec_size (a_b1 a) + vec_size (a_b2 a))
      then a\<lparr>a_b2 := butlast (a_b2 a)\<rparr> else a)"

definition arc_put :: "'k \<Rightarrow> 'v \<Rightarrow> ('k, 'v) arc \<Rightarrow> ('k \<times> 'v) list \<times> ('k, 'v) arc" where
  "arc_put k v a =
     (let n = a_size_fn a v; new = \<lparr>e_key = k, e_value = v, e_size = n\<rparr>
      in case entry_find k (a_t1 a) of
        Some e \<Rightarrow> ([], a\<lparr>a_size := a_size a - e_size e + n, a_t1 := entry_del k (a_t1 a), a_t2 := new # a_t2 a\<rparr>)
      | None \<Rightarrow> (case entry_find k (a_t2 a) of
        Some e \<Rightarrow> ([], a\<lparr>a_size := a_size a - e_size e + n, a_t2 := new # entry_del k (a_t2 a)\<rparr>)
      | None \<Rightarrow>
        if k \<in> set (a_b1 a) then
          arc_insert False k v
            (a\<lparr>a_p := min (fl (a_p a + adapt_delta (vec_size (a_b2 a)) (vec_size (a_b1 a)))) (double_of_u64 (a_capacity a)),
               a_b1 := filter (\<lambda>x. x \<noteq> k) (a_b1 a)\<rparr>)
        else if k \<in> set (a_b2 a) then
          arc_insert False k v
            (a\<lparr>a_p := max (fl (a_p a - adapt_delta (vec_size (a_b1 a)) (vec_size (a_b2 a)))) 0,
               a_b2 := filter (\<lambda>x. x \<noteq> k) (a_b2 a)\<rparr>)
        else arc_insert True k v (arc_trim a)))"

definition arc_remove :: "'k \<Rightarrow> ('k, 'v) arc \<Rightarrow> bool \<times> ('k, 'v) arc" where
  "arc_remove k a =
     (case entry_find k (a_t1 a) of
        Some e \<Rightarrow> (True, a\<lparr>a_size := a_size a - e_size e, a_t1 := entry_del k (a_t1 a)\<rparr>)
      | None \<Rightarrow> (case entry_find k (a_t2 a) of
          Some e \<Rightarrow> (True, a\<lparr>a_size := a_size a - e_size e, a_t2 := entry_del k (a_t2 a)\<rparr>)
        | None \<Rightarrow> (False, a\<lparr>a_b1 := filter (\<lambda>x. x \<noteq> k) (a_b1 a), a_b2 := filter (\<lambda>x. x \<noteq> k) (a_b2 a)\<rparr>)))"

definition arc_clear :: "('k, 'v) arc \<Rightarrow> ('k, 'v) arc" where
  "arc_clear a = a\<lparr>a_t1 := [], a_t2 := [], a_b1 := [], a_b2 := [], a_p := 0, a_size := 0\<rparr>"

section \<open>The class implements the specification\<close>

definition arc_abs :: "('k, 'v) ARCCache \<Rightarrow> ('k, 'v) arc" where
  "arc_abs c =
     \<lparr>a_capacity = arc_capacity c, a_size_fn = arc_size_fn c,
      a_t1 = entries (arc_t1 c), a_t2 = entries (arc_t2 c), a_b1 = ghosts (arc_b1 c), a_b2 = ghosts (arc_b2 c),
      a_p = arc_p c, a_size = arc_current_size c, a_hits = arc_hits c, a_misses = arc_misses c\<rparr>"

text \<open>No key is in two of the four lists, or twice in one.\<close>

definition arc_all :: "('k, 'v) arc \<Rightarrow> 'k list" where
  "arc_all a = map e_key (a_t1 a) @ map e_key (a_t2 a) @ a_b1 a @ a_b2 a"

definition ARCCache_inv :: "('k, 'v) ARCCache \<Rightarrow> bool" where
  "ARCCache_inv c =
     (LRUList_inv (arc_t1 c) \<and> LRUList_inv (arc_t2 c) \<and> GhostList_inv (arc_b1 c) \<and> GhostList_inv (arc_b2 c)
      \<and> distinct (arc_all (arc_abs c)))"

lemma entry_find_None: "entry_find k es = None \<longleftrightarrow> k \<notin> e_key ` set es"
  by (auto simp: entry_find_def find_None_iff image_iff)

lemma entry_find_SomeD: "entry_find k es = Some e \<Longrightarrow> e \<in> set es \<and> e_key e = k"
  by (auto simp: entry_find_def find_Some_iff)

lemma entry_find_Some_iff:
  assumes "distinct (map e_key es)"
  shows "entry_find k es = Some e \<longleftrightarrow> e \<in> set es \<and> e_key e = k"
proof
  assume e: "e \<in> set es \<and> e_key e = k"
  then obtain e' where e': "entry_find k es = Some e'" by (metis entry_find_None imageI not_Some_eq)
  then have "e' = e" using e entry_find_SomeD assms by (metis inj_onD distinct_map)
  then show "entry_find k es = Some e" using e' by simp
qed (rule entry_find_SomeD)

lemma LRUList_find_entry_None:
  assumes "LRUList_inv l"
  shows "LRUList_find_entry l k = None \<longleftrightarrow> entry_find k (entries l) = None"
proof (cases "LRUList_find l k")
  case None
  then show ?thesis using LRUList_find_None_iff [OF assms, of k] by (auto simp: LRUList_find_entry_def entry_find_None)
next
  case (Some it)
  then have "k \<in> e_key ` set (entries l)" using LRUList_find_None_iff [OF assms, of k] by simp
  moreover obtain e where "LRUList_deref l it = Some e" using LRUList_find_SomeD [OF assms Some] .
  ultimately show ?thesis using Some by (simp add: LRUList_find_entry_def entry_find_None)
qed

lemma LRUList_find_entry_Some:
  assumes "LRUList_inv l" and "LRUList_find_entry l k = Some (it, e)"
  shows "entry_find k (entries l) = Some e" and "LRUList_find l k = Some it"
    and "LRUList_deref l it = Some e" and "e_key e = k"
proof -
  show it: "LRUList_find l k = Some it" and e: "LRUList_deref l it = Some e"
    using assms(2) by (auto simp: LRUList_find_entry_def bind_eq_Some_conv)
  obtain e' where "LRUList_deref l it = Some e'" "e' \<in> set (entries l)" "e_key e' = k"
    using LRUList_find_SomeD [OF assms(1) it] .
  then show "entry_find k (entries l) = Some e" "e_key e = k"
    using e lru.distinct_keys [OF assms(1)] by (auto simp: entry_find_Some_iff)
qed

lemma LRUList_push_front_entries:
  assumes "LRUList_inv l" and "k \<notin> e_key ` set (entries l)"
  shows "LRUList_inv (LRUList_push_front k v n l)"
    and "entries (LRUList_push_front k v n l) = \<lparr>e_key = k, e_value = v, e_size = n\<rparr> # entries l"
    and "LRUList_get (LRUList_push_front k v n l) k = Some v"
  using lru.push_inv [of l "\<lparr>e_key = k, e_value = v, e_size = n\<rparr>"]
    lru.seq_push [of l "\<lparr>e_key = k, e_value = v, e_size = n\<rparr>"] assms
  by (simp_all add: LRUList_push_def)
     (simp add: LRUList_get_def LRUList_push_front_def LRUList_deref_def)

lemma LRUList_total_size_eq:
  fixes l :: "('k, 'v) LRUList"
  shows "LRUList_total_size l = entries_size (entries l)"
proof -
  have "foldl (\<lambda>s x. s + e_size (snd x)) n xs = n + sum_list (map (e_size \<circ> snd) xs)"
    for n and xs :: "(nat \<times> ('k, 'v) Entry) list"
    by (induction xs arbitrary: n) simp_all
  then show ?thesis by (simp add: LRUList_total_size_def entries_size_def entries_def)
qed

lemma list_views:
  "LRUList_empty l \<longleftrightarrow> entries l = []" "LRUList_size l = vec_size (entries l)"
  "GhostList_empty g \<longleftrightarrow> ghosts g = []" "GhostList_size g = vec_size (ghosts g)"
  by (simp_all add: LRUList_empty_def LRUList_size_def GhostList_empty_def GhostList_size_def entries_def ghosts_def)

lemma arc_abs_simps [simp]:
  "a_capacity (arc_abs c) = arc_capacity c" "a_size_fn (arc_abs c) = arc_size_fn c"
  "a_t1 (arc_abs c) = entries (arc_t1 c)" "a_t2 (arc_abs c) = entries (arc_t2 c)"
  "a_b1 (arc_abs c) = ghosts (arc_b1 c)" "a_b2 (arc_abs c) = ghosts (arc_b2 c)"
  "a_p (arc_abs c) = arc_p c" "a_size (arc_abs c) = arc_current_size c"
  "a_hits (arc_abs c) = arc_hits c" "a_misses (arc_abs c) = arc_misses c"
  by (simp_all add: arc_abs_def)

lemma evict_one_sim:
  assumes "ARCCache_inv c" and "ARCCache_evict_one (ev, c) = (ev', c')"
  shows "ARCCache_inv c' \<and> arc_evict_one (ev, arc_abs c) = (ev', arc_abs c')"
proof -
  have inv: "LRUList_inv (arc_t1 c)" "LRUList_inv (arc_t2 c)" "GhostList_inv (arc_b1 c)" "GhostList_inv (arc_b2 c)"
    and d: "distinct (arc_all (arc_abs c))" using assms(1) by (simp_all add: ARCCache_inv_def)
  let ?one = "entries (arc_t1 c) \<noteq> [] \<and> (u64_of_double (arc_p c) < entries_size (entries (arc_t1 c)) \<or> entries (arc_t2 c) = [])"
  consider (t1) e t1 where "?one" "LRUList_pop_back (arc_t1 c) = Some (e, t1)"
    | (t2) e t2 where "\<not> ?one" "entries (arc_t2 c) \<noteq> []" "LRUList_pop_back (arc_t2 c) = Some (e, t2)"
    | (none) "\<not> ?one" "entries (arc_t2 c) = []"
    using lru.pop_None_iff [OF inv(1)] lru.pop_None_iff [OF inv(2)] by (metis not_None_eq surj_pair)
  then show ?thesis
  proof cases
    case t1
    note p = lru.pop_SomeD [OF inv(1) t1(2)]
    have k: "e_key e \<notin> set (ghosts (arc_b1 c))" using d by (simp add: arc_all_def p(1))
    have g: "GhostList_inv (GhostList_push_front (e_key e) (arc_b1 c))"
        "ghosts (GhostList_push_front (e_key e) (arc_b1 c)) = e_key e # ghosts (arc_b1 c)"
      using ghost.push_inv [OF inv(3)] ghost.seq_push [OF inv(3)] k by simp_all
    have res: "ev' = ev @ [(e_key e, e_value e)]"
        "c' = c\<lparr>arc_t1 := t1, arc_current_size := arc_current_size c - e_size e,
                 arc_b1 := GhostList_push_front (e_key e) (arc_b1 c)\<rparr>"
      using assms(2) t1 by (simp_all add: ARCCache_evict_one_def list_views LRUList_total_size_eq Let_def)
    have "ARCCache_inv c'"
      unfolding res using inv d p(2) g by (auto simp: ARCCache_inv_def arc_all_def p(1))
    moreover have "arc_evict_one (ev, arc_abs c) = (ev', arc_abs c')"
      unfolding res using t1(1) p(1) g by (auto simp: arc_evict_one_def arc_abs_def)
    ultimately show ?thesis ..
  next
    case t2
    note p = lru.pop_SomeD [OF inv(2) t2(3)]
    have k: "e_key e \<notin> set (ghosts (arc_b2 c))" using d by (simp add: arc_all_def p(1))
    have g: "GhostList_inv (GhostList_push_front (e_key e) (arc_b2 c))"
        "ghosts (GhostList_push_front (e_key e) (arc_b2 c)) = e_key e # ghosts (arc_b2 c)"
      using ghost.push_inv [OF inv(4)] ghost.seq_push [OF inv(4)] k by simp_all
    have res: "ev' = ev @ [(e_key e, e_value e)]"
        "c' = c\<lparr>arc_t2 := t2, arc_current_size := arc_current_size c - e_size e,
                 arc_b2 := GhostList_push_front (e_key e) (arc_b2 c)\<rparr>"
      using assms(2) t2 by (auto simp: ARCCache_evict_one_def list_views LRUList_total_size_eq Let_def split: if_splits)
    have "ARCCache_inv c'"
      unfolding res using inv d p(2) g by (auto simp: ARCCache_inv_def arc_all_def p(1))
    moreover have "arc_evict_one (ev, arc_abs c) = (ev', arc_abs c')"
      unfolding res using t2(1) p(1) g by (auto simp: arc_evict_one_def arc_abs_def)
    ultimately show ?thesis ..
  next
    case none
    then show ?thesis
      using assms by (simp add: ARCCache_evict_one_def arc_evict_one_def list_views LRUList_total_size_eq Let_def)
  qed
qed

lemma evict_for_size_sim:
  assumes "ARCCache_inv c" and "ARCCache_evict_for_size n (ev, c) = (ev', c')"
  shows "ARCCache_inv c' \<and> arc_evict n (ev, arc_abs c) = (ev', arc_abs c')"
  using assms
proof (induction n "(ev, c)" arbitrary: ev c rule: ARCCache_evict_for_size.induct)
  case (1 n ev c)
  show ?case
  proof (cases "arc_capacity c < arc_current_size c + n \<and> (\<not> LRUList_empty (arc_t1 c) \<or> \<not> LRUList_empty (arc_t2 c))")
    case True
    obtain ev1 c1 where one: "ARCCache_evict_one (ev, c) = (ev1, c1)" by fastforce
    note s = evict_one_sim [OF "1.prems"(1) one]
    have "ARCCache_evict_for_size n (ev1, c1) = (ev', c')"
      using "1.prems"(2) True one by (simp add: ARCCache_evict_for_size.simps [of n "(ev, c)"])
    then have "ARCCache_inv c' \<and> arc_evict n (ev1, arc_abs c1) = (ev', arc_abs c')"
      using "1.hyps" [of ev1 c1] True one s by simp
    then show ?thesis
      using True s by (simp add: arc_evict.simps [of n "(ev, arc_abs c)"] list_views)
  next
    case False
    then show ?thesis
      using "1.prems"
      by (auto simp: ARCCache_evict_for_size.simps [of n "(ev, c)"] arc_evict.simps [of n "(ev, arc_abs c)"]
            list_views split: if_splits)
  qed
qed

lemma arc_evict_one_mset: "mset (arc_all (snd (arc_evict_one s))) = mset (arc_all (snd s))"
proof -
  have last_split: "mset (map e_key (butlast es)) + {#e_key (last es)#} = mset (map e_key es)"
    if "es \<noteq> []" for es :: "('a, 'b) Entry list"
    using that by (cases es rule: rev_cases) simp_all
  show ?thesis
    using last_split by (auto simp: arc_evict_one_def arc_all_def Let_def split: prod.splits) 
qed

lemma arc_evict_mset: "mset (arc_all (snd (arc_evict n s))) = mset (arc_all (snd s))"
proof (induction n s rule: arc_evict.induct)
  case (1 n s)
  then show ?case by (subst arc_evict.simps) (simp add: arc_evict_one_mset)
qed

lemma arc_evict_keys:
  assumes "arc_evict n (ev, a) = (ev', a')"
  shows "set (arc_all a') = set (arc_all a)" and "distinct (arc_all a') \<longleftrightarrow> distinct (arc_all a)"
  using arc_evict_mset [of n "(ev, a)"] assms
  by (auto dest: mset_eq_setD mset_eq_imp_distinct_iff)

lemma insert_sim:
  assumes "ARCCache_inv c" and "k \<notin> set (arc_all (arc_abs c))"
    and "ARCCache_evict_for_size (arc_size_fn c v) ([], c) = (ev, c2)"
  shows "arc_insert False k v (arc_abs c)
           = (ev, arc_abs (c2\<lparr>arc_t2 := LRUList_push_front k v (arc_size_fn c v) (arc_t2 c2),
                             arc_current_size := arc_current_size c2 + arc_size_fn c v\<rparr>))"
    and "ARCCache_inv (c2\<lparr>arc_t2 := LRUList_push_front k v (arc_size_fn c v) (arc_t2 c2),
                             arc_current_size := arc_current_size c2 + arc_size_fn c v\<rparr>)"
    and "arc_insert True k v (arc_abs c)
           = (ev, arc_abs (c2\<lparr>arc_t1 := LRUList_push_front k v (arc_size_fn c v) (arc_t1 c2),
                             arc_current_size := arc_current_size c2 + arc_size_fn c v\<rparr>))"
    and "ARCCache_inv (c2\<lparr>arc_t1 := LRUList_push_front k v (arc_size_fn c v) (arc_t1 c2),
                             arc_current_size := arc_current_size c2 + arc_size_fn c v\<rparr>)"
proof -
  have inv: "ARCCache_inv c2" and ev: "arc_evict (arc_size_fn c v) ([], arc_abs c) = (ev, arc_abs c2)"
    using evict_for_size_sim [OF assms(1,3)] by auto
  have k: "k \<notin> set (arc_all (arc_abs c2))" using arc_evict_keys(1) [OF ev] assms(2) by simp
  then have k1: "k \<notin> e_key ` set (entries (arc_t1 c2))" and k2: "k \<notin> e_key ` set (entries (arc_t2 c2))"
    by (simp_all add: arc_all_def)
  have i: "LRUList_inv (arc_t1 c2)" "LRUList_inv (arc_t2 c2)" using inv by (simp_all add: ARCCache_inv_def)
  note p1 = LRUList_push_front_entries [OF i(1) k1] and p2 = LRUList_push_front_entries [OF i(2) k2]
  show "arc_insert False k v (arc_abs c)
           = (ev, arc_abs (c2\<lparr>arc_t2 := LRUList_push_front k v (arc_size_fn c v) (arc_t2 c2),
                             arc_current_size := arc_current_size c2 + arc_size_fn c v\<rparr>))"
    "arc_insert True k v (arc_abs c)
           = (ev, arc_abs (c2\<lparr>arc_t1 := LRUList_push_front k v (arc_size_fn c v) (arc_t1 c2),
                             arc_current_size := arc_current_size c2 + arc_size_fn c v\<rparr>))"
    using ev p1 p2 by (simp_all add: arc_insert_def Let_def arc_abs_def)
  show "ARCCache_inv (c2\<lparr>arc_t2 := LRUList_push_front k v (arc_size_fn c v) (arc_t2 c2),
                             arc_current_size := arc_current_size c2 + arc_size_fn c v\<rparr>)"
    "ARCCache_inv (c2\<lparr>arc_t1 := LRUList_push_front k v (arc_size_fn c v) (arc_t1 c2),
                             arc_current_size := arc_current_size c2 + arc_size_fn c v\<rparr>)"
    using inv k p1 p2 by (auto simp: ARCCache_inv_def arc_all_def)
qed

text \<open>The effect of the list operations of one cache operation, for a key found in \<^verbatim>\<open>t1_\<close> or \<^verbatim>\<open>t2_\<close>.\<close>

lemma LRUList_erase_entries:
  assumes "LRUList_inv l" and "LRUList_find_entry l k = Some (it, e)"
  shows "LRUList_inv (LRUList_erase it l)" and "entries (LRUList_erase it l) = entry_del k (entries l)"
  using LRUList_erase_found [OF assms(1)] LRUList_find_entry_Some(2) [OF assms]
    lru.erase_inv [OF assms(1)] lru.seq_erase [OF assms(1)]
  by (simp_all add: entry_del_def)

lemma LRUList_move_entries:
  assumes "LRUList_inv l" and "LRUList_find_entry l k = Some (it, e)"
  shows "LRUList_inv (LRUList_move_to_front it l)"
    and "entries (LRUList_move_to_front it l) = e # entry_del k (entries l)"
    and "LRUList_deref (LRUList_move_to_front it l) it = Some e"
  using LRUList_move_found [OF assms(1)] LRUList_find_entry_Some(2,3) [OF assms]
  by (simp_all add: entry_del_def) (simp add: LRUList_move_to_front_def LRUList_deref_def)

lemma entry_del_map:
  assumes "\<And>e. e_key (g e) = e_key e" and "\<And>e. e_key e \<noteq> k \<Longrightarrow> g e = e"
  shows "entry_del k (map g es) = entry_del k es"
  using assms by (induction es) (auto simp: entry_del_def)

lemma LRUList_assign_found:
  assumes "LRUList_inv l" and "LRUList_find_entry l k = Some (it, e)"
  shows "LRUList_inv (LRUList_assign it v n l)"
    and "LRUList_find_entry (LRUList_assign it v n l) k = Some (it, \<lparr>e_key = k, e_value = v, e_size = n\<rparr>)"
    and "entry_del k (entries (LRUList_assign it v n l)) = entry_del k (entries l)"
  using LRUList_assign_entries [OF assms(1) LRUList_find_entry_Some(2) [OF assms], of v n]
  by (simp_all add: LRUList_find_entry_def entry_del_map)

lemma keys_entry_del [simp]: "e_key ` set (entry_del k es) = e_key ` set es - {k}"
  by (auto simp: entry_del_def)

lemma distinct_entry_del [simp]: "distinct (map e_key es) \<Longrightarrow> distinct (map e_key (entry_del k es))"
  by (simp add: entry_del_def distinct_map_filter)

lemma ARCCache_invD:
  assumes "ARCCache_inv c"
  shows "LRUList_inv (arc_t1 c)" "LRUList_inv (arc_t2 c)" "GhostList_inv (arc_b1 c)" "GhostList_inv (arc_b2 c)"
    "distinct (arc_all (arc_abs c))"
  using assms by (simp_all add: ARCCache_inv_def)

lemma find_entry_cases:
  assumes "ARCCache_inv c"
  obtains (t1) it e where "LRUList_find_entry (arc_t1 c) k = Some (it, e)" "entry_find k (entries (arc_t1 c)) = Some e"
      "k \<in> e_key ` set (entries (arc_t1 c))" "k \<notin> e_key ` set (entries (arc_t2 c))"
      "k \<notin> set (ghosts (arc_b1 c))" "k \<notin> set (ghosts (arc_b2 c))" "e_key e = k"
  | (t2) it e where "LRUList_find_entry (arc_t1 c) k = None" "k \<notin> e_key ` set (entries (arc_t1 c))"
      "entry_find k (entries (arc_t1 c)) = None" "LRUList_find_entry (arc_t2 c) k = Some (it, e)" "entry_find k (entries (arc_t2 c)) = Some e"
      "LRUList_find (arc_t2 c) k = Some it"
      "k \<notin> set (ghosts (arc_b1 c))" "k \<notin> set (ghosts (arc_b2 c))" "e_key e = k"
  | (none) "LRUList_find_entry (arc_t1 c) k = None" "k \<notin> e_key ` set (entries (arc_t1 c))"
      "entry_find k (entries (arc_t1 c)) = None" "LRUList_find_entry (arc_t2 c) k = None" "k \<notin> e_key ` set (entries (arc_t2 c))"
      "LRUList_find (arc_t2 c) k = None" "entry_find k (entries (arc_t2 c)) = None"
proof -
  note inv = ARCCache_invD [OF assms]
  show thesis
  proof (cases "LRUList_find_entry (arc_t1 c) k")
    case (Some x)
    obtain it e where x: "x = (it, e)" by fastforce
    note f = LRUList_find_entry_Some [OF inv(1) Some [unfolded x]]
    have k: "k \<in> e_key ` set (entries (arc_t1 c))" using entry_find_SomeD [OF f(1)] by auto
    then have "k \<notin> e_key ` set (entries (arc_t2 c))" "k \<notin> set (ghosts (arc_b1 c))" "k \<notin> set (ghosts (arc_b2 c))"
      using inv(5) by (auto simp: arc_all_def)
    then show thesis using t1 [OF Some [unfolded x] f(1) k] f(4) by blast
  next
    case n1: None
    then have k1: "k \<notin> e_key ` set (entries (arc_t1 c))" using LRUList_find_entry_None [OF inv(1)] by (simp add: entry_find_None)
    show thesis
    proof (cases "LRUList_find_entry (arc_t2 c) k")
      case (Some x)
      obtain it e where x: "x = (it, e)" by fastforce
      note f = LRUList_find_entry_Some [OF inv(2) Some [unfolded x]]
      have "k \<in> e_key ` set (entries (arc_t2 c))" using entry_find_SomeD [OF f(1)] by auto
      then have "k \<notin> set (ghosts (arc_b1 c))" "k \<notin> set (ghosts (arc_b2 c))"
        using inv(5) by (auto simp: arc_all_def)
      then show thesis using t2 [OF n1 k1 _ Some [unfolded x] f(1,2)] k1 f(4) by (simp add: entry_find_None)
    next
      case None
      then have "k \<notin> e_key ` set (entries (arc_t2 c))" using LRUList_find_entry_None [OF inv(2)] by (simp add: entry_find_None)
      then show thesis using none [OF n1 k1 _ None] k1 LRUList_find_None_iff [OF inv(2)] by (simp add: entry_find_None)
    qed
  qed
qed

lemma get_sim:
  assumes "ARCCache_inv c"
  shows "ARCCache_inv (snd (ARCCache_get_impl k c))
       \<and> arc_get k (arc_abs c) = map_prod id arc_abs (ARCCache_get_impl k c)"
proof -
  note inv = ARCCache_invD [OF assms]
  show ?thesis
  proof (cases rule: find_entry_cases [OF assms, of k, case_names t1 t2 none])
    case (t1 it e)
    then show ?thesis
      using inv LRUList_erase_entries [OF inv(1) t1(1)] LRUList_push_front_entries [OF inv(2) t1(4)]
      by (auto simp: ARCCache_get_impl_def arc_get_def Let_def ARCCache_inv_def arc_all_def arc_abs_def)
  next
    case (t2 it e)
    then show ?thesis
      using inv LRUList_move_entries [OF inv(2) t2(4)]
      by (auto simp: ARCCache_get_impl_def arc_get_def Let_def ARCCache_inv_def arc_all_def arc_abs_def)
  next
    case none
    then show ?thesis
      using assms by (auto simp: ARCCache_get_impl_def arc_get_def ARCCache_inv_def arc_all_def arc_abs_def)
  qed
qed

lemma remove_sim:
  assumes "ARCCache_inv c"
  shows "ARCCache_inv (snd (ARCCache_remove_impl k c))
       \<and> arc_remove k (arc_abs c) = map_prod id arc_abs (ARCCache_remove_impl k c)"
proof -
  note inv = ARCCache_invD [OF assms]
  show ?thesis
  proof (cases rule: find_entry_cases [OF assms, of k, case_names t1 t2 none])
    case (t1 it e)
    then show ?thesis
      using inv LRUList_erase_entries [OF inv(1) t1(1)]
      by (auto simp: ARCCache_remove_impl_def arc_remove_def ARCCache_inv_def arc_all_def arc_abs_def)
  next
    case (t2 it e)
    then show ?thesis
      using inv LRUList_erase_entries [OF inv(2) t2(4)]
      by (auto simp: ARCCache_remove_impl_def arc_remove_def ARCCache_inv_def arc_all_def arc_abs_def)
  next
    case none
    then show ?thesis
      using inv
      by (auto simp: ARCCache_remove_impl_def arc_remove_def ARCCache_inv_def arc_all_def arc_abs_def
            ghost.erase_inv ghost.seq_erase)
  qed
qed

lemma clear_sim:
  "ARCCache_inv (ARCCache_clear c) \<and> arc_clear (arc_abs c) = arc_abs (ARCCache_clear c)"
  by (simp add: ARCCache_inv_def ARCCache_clear_def arc_clear_def arc_abs_def arc_all_def
        lru.clear_inv lru.seq_clear ghost.clear_inv ghost.seq_clear)

lemma trim_sim:
  assumes "ARCCache_inv c"
  shows "ARCCache_inv (ARCCache_trim_ghosts c)" and "arc_abs (ARCCache_trim_ghosts c) = arc_trim (arc_abs c)"
    and "set (arc_all (arc_abs (ARCCache_trim_ghosts c))) \<subseteq> set (arc_all (arc_abs c))"
    and "arc_size_fn (ARCCache_trim_ghosts c) = arc_size_fn c"
proof -
  note inv = ARCCache_invD [OF assms]
  note drop = GhostList_drop_back_seq [OF inv(3)] GhostList_drop_back_seq [OF inv(4)]
  have sub: "set (butlast xs) \<subseteq> set xs" for xs :: "'a list"
    by (auto dest: in_set_butlastD)
  show "arc_abs (ARCCache_trim_ghosts c) = arc_trim (arc_abs c)"
    using drop by (simp add: ARCCache_trim_ghosts_def arc_trim_def list_views Let_def arc_abs_def)
  show "set (arc_all (arc_abs (ARCCache_trim_ghosts c))) \<subseteq> set (arc_all (arc_abs c))"
    "arc_size_fn (ARCCache_trim_ghosts c) = arc_size_fn c"
    using drop sub [of "ghosts (arc_b1 c)"] sub [of "ghosts (arc_b2 c)"]
    by (auto simp: ARCCache_trim_ghosts_def Let_def arc_all_def)
  show "ARCCache_inv (ARCCache_trim_ghosts c)"
    using inv drop sub [of "ghosts (arc_b1 c)"] sub [of "ghosts (arc_b2 c)"]
    by (auto simp: ARCCache_trim_ghosts_def Let_def ARCCache_inv_def arc_all_def distinct_butlast)
qed

lemma ghost_erase_sim:
  assumes "ARCCache_inv c"
  shows "ARCCache_inv (c\<lparr>arc_p := p, arc_b1 := GhostList_erase k (arc_b1 c)\<rparr>)"
    and "arc_abs (c\<lparr>arc_p := p, arc_b1 := GhostList_erase k (arc_b1 c)\<rparr>)
       = (arc_abs c)\<lparr>a_p := p, a_b1 := filter (\<lambda>x. x \<noteq> k) (ghosts (arc_b1 c))\<rparr>"
    and "ARCCache_inv (c\<lparr>arc_p := p, arc_b2 := GhostList_erase k (arc_b2 c)\<rparr>)"
    and "arc_abs (c\<lparr>arc_p := p, arc_b2 := GhostList_erase k (arc_b2 c)\<rparr>)
       = (arc_abs c)\<lparr>a_p := p, a_b2 := filter (\<lambda>x. x \<noteq> k) (ghosts (arc_b2 c))\<rparr>"
  using ARCCache_invD [OF assms]
  by (auto simp: ARCCache_inv_def arc_all_def arc_abs_def ghost.erase_inv ghost.seq_erase)

lemma put_sim:
  assumes "ARCCache_inv c"
  shows "ARCCache_inv (snd (ARCCache_put_impl k v c))
       \<and> arc_put k v (arc_abs c) = map_prod id arc_abs (ARCCache_put_impl k v c)"
proof -
  note inv = ARCCache_invD [OF assms]
  show ?thesis
  proof (cases rule: find_entry_cases [OF assms, of k, case_names t1 t2 none])
    case (t1 it e)
    note a = LRUList_assign_found [OF inv(1) t1(1), of v "arc_size_fn c v"]
    show ?thesis
      using t1 inv LRUList_erase_entries [OF a(1,2)] a(3) LRUList_push_front_entries [OF inv(2) t1(4)]
      by (auto simp: ARCCache_put_impl_def arc_put_def Let_def ARCCache_inv_def arc_all_def arc_abs_def)
  next
    case (t2 it e)
    note a = LRUList_assign_found [OF inv(2) t2(4), of v "arc_size_fn c v"]
    show ?thesis
      using t2 inv LRUList_move_entries [OF a(1,2)] a(3)
      by (auto simp: ARCCache_put_impl_def arc_put_def Let_def ARCCache_inv_def arc_all_def arc_abs_def)
  next
    case none
    have in_b1: "GhostList_contains (arc_b1 c) k \<longleftrightarrow> k \<in> set (ghosts (arc_b1 c))"
      and in_b2: "GhostList_contains (arc_b2 c) k \<longleftrightarrow> k \<in> set (ghosts (arc_b2 c))"
      using ghost.contains_iff [OF inv(3)] ghost.contains_iff [OF inv(4)] by simp_all
    consider (b1) "k \<in> set (ghosts (arc_b1 c))"
      | (b2) "k \<notin> set (ghosts (arc_b1 c))" "k \<in> set (ghosts (arc_b2 c))"
      | (new) "k \<notin> set (ghosts (arc_b1 c))" "k \<notin> set (ghosts (arc_b2 c))" by blast
    then show ?thesis
    proof cases
      case b1
      let ?p = "min (fl (arc_p c + adapt_delta (GhostList_size (arc_b2 c)) (GhostList_size (arc_b1 c))))
                    (double_of_u64 (arc_capacity c))"
      let ?c = "c\<lparr>arc_p := ?p, arc_b1 := GhostList_erase k (arc_b1 c)\<rparr>"
      obtain ev c2 where e: "ARCCache_evict_for_size (arc_size_fn ?c v) ([], ?c) = (ev, c2)" by fastforce
      have k: "k \<notin> set (arc_all (arc_abs ?c))"
        using none b1 inv(5) unfolding ghost_erase_sim(2) [OF assms] by (auto simp: arc_all_def)
      show ?thesis
        using insert_sim(1,2) [OF ghost_erase_sim(1) [OF assms] k e] none b1 in_b1 e
        unfolding ghost_erase_sim(2) [OF assms]
        by (simp add: ARCCache_put_impl_def arc_put_def Let_def list_views)
    next
      case b2
      let ?p = "max (fl (arc_p c - adapt_delta (GhostList_size (arc_b1 c)) (GhostList_size (arc_b2 c)))) 0"
      let ?c = "c\<lparr>arc_p := ?p, arc_b2 := GhostList_erase k (arc_b2 c)\<rparr>"
      obtain ev c2 where e: "ARCCache_evict_for_size (arc_size_fn ?c v) ([], ?c) = (ev, c2)" by fastforce
      have k: "k \<notin> set (arc_all (arc_abs ?c))"
        using none b2 inv(5) unfolding ghost_erase_sim(4) [OF assms] by (auto simp: arc_all_def)
      show ?thesis
        using insert_sim(1,2) [OF ghost_erase_sim(3) [OF assms] k e] none b2 in_b1 in_b2 e
        unfolding ghost_erase_sim(4) [OF assms]
        by (simp add: ARCCache_put_impl_def arc_put_def Let_def list_views)
    next
      case new
      let ?c = "ARCCache_trim_ghosts c"
      obtain ev c2 where e: "ARCCache_evict_for_size (arc_size_fn ?c v) ([], ?c) = (ev, c2)" by fastforce
      have "k \<notin> set (arc_all (arc_abs c))" using none new by (auto simp: arc_all_def)
      then have k: "k \<notin> set (arc_all (arc_abs ?c))" using trim_sim(3) [OF assms] by blast
      show ?thesis
        using insert_sim(3,4) [OF trim_sim(1) [OF assms] k e] none new in_b1 in_b2 e
        unfolding trim_sim(2,4) [OF assms]
        by (simp add: ARCCache_put_impl_def arc_put_def Let_def)
    qed
  qed
qed

end
