(* ===== verification/Cache_Contract.thy ===== *)
theory Cache_Contract
  imports Prelude
begin

text \<open>
  What a cache promises its clients, whatever its replacement policy: it is a map that may forget
  entries at any time but never returns anything other than the last value stored. The locale
  \<open>lossy_map\<close> states this for one operation at a time and derives it for every sequence of
  operations; \<open>lossy_store\<close> adds that an entry is present right after it is stored.
\<close>

datatype ('k, 'v) cache_op = GetOp 'k | PutOp 'k 'v | RemoveOp 'k

text \<open>The state after a sequence of operations, and the map of last-stored values.\<close>

fun cache_step ::
    "('k \<Rightarrow> 's \<Rightarrow> 'v option \<times> 's) \<Rightarrow> ('k \<Rightarrow> 'v \<Rightarrow> 's \<Rightarrow> 's) \<Rightarrow> ('k \<Rightarrow> 's \<Rightarrow> 's) \<Rightarrow> ('k, 'v) cache_op \<Rightarrow> 's \<Rightarrow> 's" where
  "cache_step get put remove (GetOp k) s = snd (get k s)"
| "cache_step get put remove (PutOp k v) s = put k v s"
| "cache_step get put remove (RemoveOp k) s = remove k s"

fun last_stored_step :: "('k, 'v) cache_op \<Rightarrow> ('k \<rightharpoonup> 'v) \<Rightarrow> ('k \<rightharpoonup> 'v)" where
  "last_stored_step (GetOp k) m = m"
| "last_stored_step (PutOp k v) m = m(k \<mapsto> v)"
| "last_stored_step (RemoveOp k) m = m(k := None)"

definition last_stored :: "('k, 'v) cache_op list \<Rightarrow> ('k \<rightharpoonup> 'v) \<Rightarrow> ('k \<rightharpoonup> 'v)" where
  "last_stored ops m = fold last_stored_step ops m"

lemma last_stored_simps [simp]:
  "last_stored [] m = m" "last_stored (op # ops) m = last_stored ops (last_stored_step op m)"
  by (simp_all add: last_stored_def)

lemma last_stored_step_mono: "m \<subseteq>\<^sub>m m' \<Longrightarrow> last_stored_step op m \<subseteq>\<^sub>m last_stored_step op m'"
  by (cases op) (auto simp: map_le_def)

lemma last_stored_mono: "m \<subseteq>\<^sub>m m' \<Longrightarrow> last_stored ops m \<subseteq>\<^sub>m last_stored ops m'"
  by (induction ops arbitrary: m m') (simp_all add: last_stored_step_mono)

locale lossy_map =
  fixes inv :: "'s \<Rightarrow> bool"
    and lookup :: "'s \<Rightarrow> 'k \<rightharpoonup> 'v"
    and get :: "'k \<Rightarrow> 's \<Rightarrow> 'v option \<times> 's"
    and put :: "'k \<Rightarrow> 'v \<Rightarrow> 's \<Rightarrow> 's"
    and remove :: "'k \<Rightarrow> 's \<Rightarrow> 's"
  assumes get_value: "inv s \<Longrightarrow> fst (get k s) = lookup s k"
    and get_inv: "inv s \<Longrightarrow> inv (snd (get k s))"
    and get_lookup: "inv s \<Longrightarrow> lookup (snd (get k s)) \<subseteq>\<^sub>m lookup s"
    and put_inv: "inv s \<Longrightarrow> inv (put k v s)"
    and put_lookup: "inv s \<Longrightarrow> lookup (put k v s) \<subseteq>\<^sub>m (lookup s)(k \<mapsto> v)"
    and remove_inv: "inv s \<Longrightarrow> inv (remove k s)"
    and remove_lookup: "inv s \<Longrightarrow> lookup (remove k s) \<subseteq>\<^sub>m (lookup s)(k := None)"
begin

lemma step_sound:
  assumes "inv s"
  shows "inv (cache_step get put remove op s)"
    and "lookup (cache_step get put remove op s) \<subseteq>\<^sub>m last_stored_step op (lookup s)"
  using assms by (cases op; simp add: get_inv get_lookup put_inv put_lookup remove_inv remove_lookup)+

lemma run_sound:
  assumes "inv s"
  shows "inv (fold (cache_step get put remove) ops s)
       \<and> lookup (fold (cache_step get put remove) ops s) \<subseteq>\<^sub>m last_stored ops (lookup s)"
  using assms
proof (induction ops arbitrary: s)
  case (Cons op ops)
  note st = step_sound [OF Cons.prems, of op]
  from Cons.IH [OF st(1)] show ?case
    using map_le_trans [OF _ last_stored_mono [OF st(2), of ops]] by simp
qed simp

lemma hit_is_last_stored:
  assumes "inv s" and "fst (get k (fold (cache_step get put remove) ops s)) = Some v"
  shows "last_stored ops (lookup s) k = Some v"
  using run_sound [OF assms(1), of ops] assms(2) by (auto simp: get_value map_le_def dom_def)

lemma removed_misses:
  assumes "inv s"
  shows "fst (get k (remove k s)) = None"
  using remove_lookup [OF assms, of k] remove_inv [OF assms, of k]
  by (auto simp: get_value map_le_def) (metis domIff fun_upd_same)

end

locale lossy_store = lossy_map +
  assumes put_present: "inv s \<Longrightarrow> lookup (put k v s) k = Some v"
begin

lemma get_after_put: "inv s \<Longrightarrow> fst (get k (put k v s)) = Some v"
  by (simp add: get_value put_inv put_present)

end

end
