(* ===== verification/ARC_Properties.thy ===== *)
theory ARC_Properties
  imports ARC_Cache Cache_Contract
begin

text \<open>
  Properties of the ARC cache, proved on the sequence specification of \<open>ARC_Cache\<close> and carried to the
  class by its simulation: the cache is a map that may forget entries, evicted entries are reported
  exactly, \<^verbatim>\<open>current_size_\<close> is the sum of the sizes of the entries, inserting a key that is not
  cached brings the size within the capacity, and the adaptation parameter stays in its range.
\<close>

section \<open>Contents\<close>

definition arc_pairs :: "('k, 'v) Entry list \<Rightarrow> ('k \<times> 'v) list" where
  "arc_pairs es = map (\<lambda>e. (e_key e, e_value e)) es"

definition arc_lookup :: "('k, 'v) arc \<Rightarrow> 'k \<rightharpoonup> 'v" where
  "arc_lookup a = map_of (arc_pairs (a_t1 a @ a_t2 a))"

lemma arc_pairs_simps [simp]:
  "arc_pairs [] = []" "arc_pairs (e # es) = (e_key e, e_value e) # arc_pairs es"
  "arc_pairs (es @ es') = arc_pairs es @ arc_pairs es'" "fst ` set (arc_pairs es) = e_key ` set es"
  by (simp_all add: arc_pairs_def image_image)

lemma map_of_arc_pairs: "map_of (arc_pairs es) k = map_option e_value (entry_find k es)"
  by (induction es) (simp_all add: entry_find_def)

lemma map_of_arc_pairs_del: "map_of (arc_pairs (entry_del k es)) = (map_of (arc_pairs es))(k := None)"
  by (induction es) (auto simp: entry_del_def fun_upd_twist)

lemma arc_lookup_find:
  "arc_lookup a k = (case entry_find k (a_t1 a) of
       Some e \<Rightarrow> Some (e_value e) | None \<Rightarrow> map_option e_value (entry_find k (a_t2 a)))"
  by (simp add: arc_lookup_def map_of_append map_add_def map_of_arc_pairs split: option.splits)

lemma map_of_mid:
  assumes "k \<notin> fst ` set xs" and "k \<notin> fst ` set ys"
  shows "map_of (xs @ (k, v) # ys) k = Some v"
    and "map_of (xs @ ys) = (map_of (xs @ (k, v) # ys))(k := None)"
proof -
  have "map_of xs k = None" "map_of ys k = None" using assms by (simp_all add: map_of_eq_None_iff)
  then show "map_of (xs @ (k, v) # ys) k = Some v" "map_of (xs @ ys) = (map_of (xs @ (k, v) # ys))(k := None)"
    by (auto simp: map_add_def split: option.splits)
qed

section \<open>Well-formed states\<close>

definition arc_wf :: "('k, 'v) arc \<Rightarrow> bool" where
  "arc_wf a =
     (distinct (arc_all a) \<and> a_size a = entries_size (a_t1 a @ a_t2 a)
      \<and> (\<forall>e\<in>set (a_t1 a @ a_t2 a). e_size e = a_size_fn a (e_value e))
      \<and> 0 \<le> a_p a \<and> a_p a \<le> double_of_u64 (a_capacity a))"

text \<open>What an eviction leaves alone.\<close>

definition arc_frame :: "('k, 'v) arc \<Rightarrow> ('k, 'v) arc \<Rightarrow> bool" where
  "arc_frame a a' =
     (a_capacity a' = a_capacity a \<and> a_size_fn a' = a_size_fn a \<and> a_p a' = a_p a
      \<and> a_hits a' = a_hits a \<and> a_misses a' = a_misses a)"

lemma entries_size_simps [simp]:
  "entries_size [] = 0" "entries_size (e # es) = e_size e + entries_size es"
  "entries_size (es @ es') = entries_size es + entries_size es'"
  by (simp_all add: entries_size_def)

lemma arc_evict_one_facts:
  assumes "arc_wf a" and "a_t1 a \<noteq> [] \<or> a_t2 a \<noteq> []" and "arc_evict_one (ev, a) = (ev', a')"
  shows "\<exists>k v. ev' = ev @ [(k, v)] \<and> arc_lookup a k = Some v \<and> arc_lookup a' = (arc_lookup a)(k := None)
       \<and> arc_wf a' \<and> arc_frame a a'"
proof -
  have d: "distinct (arc_all a)" using assms(1) by (simp add: arc_wf_def)
  consider (t1) xs e where "a_t1 a = xs @ [e]" "u64_of_double (a_p a) < entries_size (a_t1 a) \<or> a_t2 a = []"
    | (t2) ys e where "a_t2 a = ys @ [e]" "\<not> (a_t1 a \<noteq> [] \<and> (u64_of_double (a_p a) < entries_size (a_t1 a) \<or> a_t2 a = []))"
    using assms(2) by (metis append_butlast_last_id)
  then show ?thesis
  proof cases
    case t1
    have res: "ev' = ev @ [(e_key e, e_value e)]"
        "a' = a\<lparr>a_t1 := xs, a_size := a_size a - e_size e, a_b1 := e_key e # a_b1 a\<rparr>"
      using assms(3) t1 by (auto simp: arc_evict_one_def Let_def)
    have "e_key e \<notin> fst ` set (arc_pairs xs)" "e_key e \<notin> fst ` set (arc_pairs (a_t2 a))"
      using d by (simp_all add: t1(1) arc_all_def)
    note m = map_of_mid [OF this, of "e_value e"]
    have "arc_wf a'" using assms(1) by (auto simp: res t1(1) arc_wf_def arc_all_def)
    then show ?thesis using m by (auto simp: res t1(1) arc_lookup_def arc_frame_def)
  next
    case t2
    have res: "ev' = ev @ [(e_key e, e_value e)]"
        "a' = a\<lparr>a_t2 := ys, a_size := a_size a - e_size e, a_b2 := e_key e # a_b2 a\<rparr>"
      using assms(3) t2 by (auto simp: arc_evict_one_def Let_def split: if_splits)
    have "e_key e \<notin> fst ` set (arc_pairs (a_t1 a @ ys))" "e_key e \<notin> fst ` set []"
      using d by (auto simp: t2(1) arc_all_def image_Un)
    note m = map_of_mid [OF this, of "e_value e"]
    have "arc_wf a'" using assms(1) by (auto simp: res t2(1) arc_wf_def arc_all_def)
    then show ?thesis using m by (auto simp: res t2(1) arc_lookup_def arc_frame_def)
  qed
qed

lemma arc_frame_trans: "arc_frame a b \<Longrightarrow> arc_frame b c \<Longrightarrow> arc_frame a c"
  by (simp add: arc_frame_def)

lemma arc_evict_facts:
  assumes "arc_wf a" and "arc_evict n (ev, a) = (ev', a')"
  shows "\<exists>vs. ev' = ev @ vs \<and> distinct (map fst vs) \<and> (\<forall>(k, v)\<in>set vs. arc_lookup a k = Some v)
       \<and> arc_lookup a' = arc_lookup a |` (- fst ` set vs) \<and> arc_wf a' \<and> arc_frame a a'
       \<and> (a_capacity a < a_size a' + n \<longrightarrow> a_t1 a' = [] \<and> a_t2 a' = [])"
  using assms
proof (induction n "(ev, a)" arbitrary: ev a rule: arc_evict.induct)
  case (1 n ev a)
  show ?case
  proof (cases "a_capacity a < a_size a + n \<and> (a_t1 a \<noteq> [] \<or> a_t2 a \<noteq> [])")
    case True
    obtain ev1 a1 where one: "arc_evict_one (ev, a) = (ev1, a1)" by fastforce
    obtain k v where s: "ev1 = ev @ [(k, v)]" "arc_lookup a k = Some v"
        "arc_lookup a1 = (arc_lookup a)(k := None)" "arc_wf a1" "arc_frame a a1"
      using arc_evict_one_facts [OF "1.prems"(1) _ one] True by blast
    have "arc_evict n (ev1, a1) = (ev', a')"
      using "1.prems"(2) True one by (simp add: arc_evict.simps [of n "(ev, a)"])
    then obtain vs where vs: "ev' = ev1 @ vs" "distinct (map fst vs)" "\<forall>(k, v)\<in>set vs. arc_lookup a1 k = Some v"
        "arc_lookup a' = arc_lookup a1 |` (- fst ` set vs)" "arc_wf a'" "arc_frame a1 a'"
        "a_capacity a1 < a_size a' + n \<longrightarrow> a_t1 a' = [] \<and> a_t2 a' = []"
      using "1.hyps" [of ev1 a1] True one s(4) by auto
    have "k \<notin> fst ` set vs" using vs(3) s(3) by auto
    moreover have "\<forall>(x, y)\<in>set vs. arc_lookup a x = Some y" using vs(3) s(3) by (auto split: if_splits)
    moreover have "arc_lookup a' = arc_lookup a |` (- fst ` set ((k, v) # vs))"
      using vs(4) s(3) by (auto simp: restrict_map_def fun_eq_iff)
    ultimately show ?thesis
      using vs s arc_frame_trans [OF s(5) vs(6)]
      by (intro exI [of _ "(k, v) # vs"]) (simp add: arc_frame_def)
  next
    case False
    then show ?thesis
      using "1.prems" by (auto simp: arc_evict.simps [of n "(ev, a)"] arc_frame_def split: if_splits)
  qed
qed

text \<open>
  \<open>arc_stored k v a ev a'\<close>: the new state holds \<open>v\<close> under \<open>k\<close>, the evicted pairs are entries of the old
  state, each key once and none of them \<open>k\<close>, and every other entry is kept.
\<close>

definition arc_stored :: "'k \<Rightarrow> 'v \<Rightarrow> ('k, 'v) arc \<Rightarrow> ('k \<times> 'v) list \<Rightarrow> ('k, 'v) arc \<Rightarrow> bool" where
  "arc_stored k v a ev a' =
     (arc_lookup a' = (arc_lookup a |` (- fst ` set ev))(k \<mapsto> v) \<and> distinct (map fst ev)
      \<and> (\<forall>(k', v')\<in>set ev. arc_lookup a k' = Some v' \<and> k' \<noteq> k))"

lemma arc_stored_Nil: "arc_stored k v a [] a' \<longleftrightarrow> arc_lookup a' = (arc_lookup a)(k \<mapsto> v)"
  by (simp add: arc_stored_def restrict_map_def del: fun_upd_restrict_conv)

lemma arc_insert_facts:
  assumes "arc_wf a" and "k \<notin> set (arc_all a)" and "arc_insert fresh k v a = (ev, a')"
  shows "arc_wf a'" and "arc_stored k v a ev a'" and "a_capacity a' = a_capacity a" and "a_size_fn a' = a_size_fn a"
    and "\<exists>a1. arc_evict (a_size_fn a v) ([], a) = (ev, a1) \<and> a_size a' = a_size a1 + a_size_fn a v"
proof -
  obtain a1 where e: "arc_evict (a_size_fn a v) ([], a) = (ev, a1)"
    and a': "a' = a1\<lparr>a_t1 := (if fresh then \<lparr>e_key = k, e_value = v, e_size = a_size_fn a v\<rparr> # a_t1 a1 else a_t1 a1),
                     a_t2 := (if fresh then a_t2 a1 else \<lparr>e_key = k, e_value = v, e_size = a_size_fn a v\<rparr> # a_t2 a1),
                     a_size := a_size a1 + a_size_fn a v\<rparr>"
    using assms(3) by (auto simp: arc_insert_def Let_def split: prod.splits)
  have f: "distinct (map fst ev)" "\<forall>(k, v)\<in>set ev. arc_lookup a k = Some v"
      "arc_lookup a1 = arc_lookup a |` (- fst ` set ev)" "arc_wf a1" "arc_frame a a1"
    using arc_evict_facts [OF assms(1) e] by auto
  have k1: "k \<notin> set (arc_all a1)" using arc_evict_keys(1) [OF e] assms(2) by simp
  have "k \<notin> fst ` set (arc_pairs (a_t1 a1))" "k \<notin> fst ` set (arc_pairs (a_t2 a1))"
    using k1 by (simp_all add: arc_all_def)
  then have "map_of (arc_pairs (a_t1 a1)) k = None" "map_of (arc_pairs (a_t2 a1)) k = None"
    by (simp_all only: map_of_eq_None_iff not_False_eq_True)
  then have look: "arc_lookup a' = (arc_lookup a1)(k \<mapsto> v)"
    by (auto simp: a' arc_lookup_def map_add_def fun_eq_iff split: option.splits)
  have "k \<notin> e_key ` set (a_t1 a @ a_t2 a)" using assms(2) by (auto simp: arc_all_def)
  then have "arc_lookup a k = None" by (simp add: arc_lookup_def map_of_eq_None_iff image_Un)
  then show "arc_stored k v a ev a'" using f(1-3) look by (auto simp: arc_stored_def)
  show "arc_wf a'" using f(4,5) k1 by (auto simp: a' arc_wf_def arc_all_def arc_frame_def)
  show "a_capacity a' = a_capacity a" "a_size_fn a' = a_size_fn a" using f(5) by (auto simp: a' arc_frame_def)
  show "\<exists>a1. arc_evict (a_size_fn a v) ([], a) = (ev, a1) \<and> a_size a' = a_size a1 + a_size_fn a v"
    using e by (simp add: a')
qed

lemma adapt_delta_nonneg: "0 \<le> adapt_delta x y"
  by (simp add: adapt_delta_def fl_nonneg)

lemma entries_size_del:
  assumes "distinct (map e_key es)" and "entry_find k es = Some e"
  shows "entries_size es = e_size e + entries_size (entry_del k es)"
  using assms
proof (induction es)
  case (Cons x es)
  show ?case
  proof (cases "e_key x = k")
    case True
    then have "x = e" "k \<notin> e_key ` set es" using Cons.prems by (auto simp: entry_find_def)
    then show ?thesis using True filter_key_absent [of k e_key es] by (simp add: entry_del_def)
  next
    case False
    then show ?thesis using Cons by (simp add: entry_find_def entry_del_def)
  qed
qed (simp add: entry_find_def)

lemma set_entry_del: "e \<in> set (entry_del k es) \<Longrightarrow> e \<in> set es"
  by (simp add: entry_del_def)

lemma arc_trim_facts:
  assumes "arc_wf a"
  shows "arc_wf (arc_trim a)" "arc_lookup (arc_trim a) = arc_lookup a" "set (arc_all (arc_trim a)) \<subseteq> set (arc_all a)"
    "a_capacity (arc_trim a) = a_capacity a" "a_size_fn (arc_trim a) = a_size_fn a" "a_size (arc_trim a) = a_size a"
    "a_t1 (arc_trim a) = a_t1 a" "a_t2 (arc_trim a) = a_t2 a"
  using assms
  by (auto simp: arc_trim_def arc_wf_def arc_all_def arc_lookup_def distinct_butlast dest: in_set_butlastD)

lemma arc_stored_lookup_cong:
  "arc_stored k v b ev a' \<Longrightarrow> arc_lookup b = arc_lookup a \<Longrightarrow> arc_stored k v a ev a'"
  by (simp add: arc_stored_def)

text \<open>The state on which a key outside \<open>t1\<close> and \<open>t2\<close> is inserted.\<close>

definition arc_prepare :: "'k \<Rightarrow> ('k, 'v) arc \<Rightarrow> ('k, 'v) arc" where
  "arc_prepare k a =
     (if k \<in> set (a_b1 a) then
        a\<lparr>a_p := min (fl (a_p a + adapt_delta (vec_size (a_b2 a)) (vec_size (a_b1 a)))) (double_of_u64 (a_capacity a)),
          a_b1 := filter (\<lambda>x. x \<noteq> k) (a_b1 a)\<rparr>
      else if k \<in> set (a_b2 a) then
        a\<lparr>a_p := max (fl (a_p a - adapt_delta (vec_size (a_b1 a)) (vec_size (a_b2 a)))) 0,
          a_b2 := filter (\<lambda>x. x \<noteq> k) (a_b2 a)\<rparr>
      else arc_trim a)"

lemma arc_put_new:
  assumes "k \<notin> e_key ` set (a_t1 a @ a_t2 a)"
  shows "\<exists>fresh. arc_put k v a = arc_insert fresh k v (arc_prepare k a)"
  using assms entry_find_None [of k "a_t1 a"] entry_find_None [of k "a_t2 a"]
  by (auto simp: arc_put_def arc_prepare_def)

lemma arc_prepare_facts:
  assumes "arc_wf a" and "k \<notin> e_key ` set (a_t1 a @ a_t2 a)"
  shows "arc_wf (arc_prepare k a)" "arc_lookup (arc_prepare k a) = arc_lookup a" "k \<notin> set (arc_all (arc_prepare k a))"
    "a_capacity (arc_prepare k a) = a_capacity a" "a_size_fn (arc_prepare k a) = a_size_fn a"
    "a_t1 (arc_prepare k a) = a_t1 a" "a_t2 (arc_prepare k a) = a_t2 a"
proof -
  have p: "0 \<le> fl (a_p a + adapt_delta x y)" "0 \<le> double_of_u64 w" for x y w
    using assms(1) adapt_delta_nonneg [of x y] by (simp_all add: arc_wf_def fl_nonneg)
  have q: "fl (a_p a - adapt_delta x y) \<le> double_of_u64 (a_capacity a)" for x y
  proof -
    have "a_p a - adapt_delta x y \<le> double_of_u64 (a_capacity a)"
      using assms(1) adapt_delta_nonneg [of x y] by (simp add: arc_wf_def)
    from fl_mono [OF this] show ?thesis by simp
  qed
  note t = arc_trim_facts [OF assms(1)]
  show "arc_wf (arc_prepare k a)"
    using assms(1) t(1) by (auto simp: p q arc_prepare_def arc_wf_def arc_all_def)
  show "arc_lookup (arc_prepare k a) = arc_lookup a"
    using t(2) by (auto simp: arc_prepare_def arc_lookup_def)
  show "k \<notin> set (arc_all (arc_prepare k a))"
    using assms t(3,7,8) by (auto simp: arc_prepare_def arc_all_def arc_wf_def)
  show "a_capacity (arc_prepare k a) = a_capacity a" "a_size_fn (arc_prepare k a) = a_size_fn a"
    "a_t1 (arc_prepare k a) = a_t1 a" "a_t2 (arc_prepare k a) = a_t2 a"
    using t by (simp_all add: arc_prepare_def)
qed

section \<open>The operations\<close>

lemma arc_wf_lists:
  assumes "arc_wf a"
  shows "distinct (map e_key (a_t1 a))" "distinct (map e_key (a_t2 a))"
    "e_key ` set (a_t1 a) \<inter> e_key ` set (a_t2 a) = {}"
  using assms by (auto simp: arc_wf_def arc_all_def)

lemma arc_put_hit:
  assumes "arc_wf a" and "k \<in> e_key ` set (a_t1 a @ a_t2 a)" and "arc_put k v a = (ev, a')"
  shows "arc_wf a' \<and> ev = [] \<and> arc_stored k v a ev a' \<and> a_capacity a' = a_capacity a \<and> a_size_fn a' = a_size_fn a"
proof (cases "entry_find k (a_t1 a)")
  case (Some e)
  note l = arc_wf_lists [OF assms(1)] and e = entry_find_SomeD [OF Some]
  have a': "ev = []" "a' = a\<lparr>a_size := a_size a - e_size e + a_size_fn a v, a_t1 := entry_del k (a_t1 a),
      a_t2 := \<lparr>e_key = k, e_value = v, e_size = a_size_fn a v\<rparr> # a_t2 a\<rparr>"
    using assms(3) Some by (auto simp: arc_put_def Let_def)
  have "arc_wf a'"
    using assms(1) e entries_size_del [OF l(1) Some]
    by (auto simp: a' arc_wf_def arc_all_def dest: set_entry_del)
  moreover have "arc_lookup a' = (arc_lookup a)(k \<mapsto> v)"
    by (auto simp: a' arc_lookup_def map_of_arc_pairs_del map_add_def fun_eq_iff split: option.splits)
  ultimately show ?thesis by (simp add: a' arc_stored_Nil)
next
  case None
  then obtain e where Some: "entry_find k (a_t2 a) = Some e"
    using assms(2) entry_find_None [of k "a_t1 a"] entry_find_None [of k "a_t2 a"] by (auto simp: image_Un)
  note l = arc_wf_lists [OF assms(1)] and e = entry_find_SomeD [OF Some]
  have k1: "k \<notin> e_key ` set (a_t1 a)" using None by (simp add: entry_find_None)
  have a': "ev = []" "a' = a\<lparr>a_size := a_size a - e_size e + a_size_fn a v,
      a_t2 := \<lparr>e_key = k, e_value = v, e_size = a_size_fn a v\<rparr> # entry_del k (a_t2 a)\<rparr>"
    using assms(3) None Some by (auto simp: arc_put_def Let_def)
  have "arc_wf a'"
    using assms(1) e k1 entries_size_del [OF l(2) Some]
    by (auto simp: a' arc_wf_def arc_all_def dest: set_entry_del)
  moreover have "map_of (arc_pairs (a_t1 a)) k = None" using None by (simp add: map_of_arc_pairs)
  then have "arc_lookup a' = (arc_lookup a)(k \<mapsto> v)"
    by (auto simp: a' arc_lookup_def map_of_arc_pairs_del map_add_def fun_eq_iff split: option.splits)
  ultimately show ?thesis by (simp add: a' arc_stored_Nil)
qed

lemma arc_put_facts:
  assumes "arc_wf a" and "arc_put k v a = (ev, a')"
  shows "arc_wf a' \<and> arc_stored k v a ev a' \<and> a_capacity a' = a_capacity a \<and> a_size_fn a' = a_size_fn a"
proof (cases "k \<in> e_key ` set (a_t1 a @ a_t2 a)")
  case True
  then show ?thesis using arc_put_hit [OF assms(1) _ assms(2)] by blast
next
  case False
  note p = arc_prepare_facts [OF assms(1) False]
  obtain fresh where "arc_insert fresh k v (arc_prepare k a) = (ev, a')"
    using arc_put_new [OF False, of v] assms(2) by auto
  from arc_insert_facts [OF p(1,3) this] show ?thesis
    using p(2,4,5) by (simp add: arc_stored_def)
qed

lemma arc_get_facts:
  assumes "arc_wf a"
  shows "fst (arc_get k a) = arc_lookup a k" and "arc_lookup (snd (arc_get k a)) = arc_lookup a"
    and "arc_wf (snd (arc_get k a))"
proof -
  note l = arc_wf_lists [OF assms]
  show "fst (arc_get k a) = arc_lookup a k"
    by (simp add: arc_get_def arc_lookup_find split: option.splits)
  have "arc_lookup (snd (arc_get k a)) = arc_lookup a \<and> arc_wf (snd (arc_get k a))"
  proof (cases "entry_find k (a_t1 a)")
    case (Some e)
    note e = entry_find_SomeD [OF Some]
    have "map_of (arc_pairs (a_t1 a)) k = Some (e_value e)" "map_of (arc_pairs (a_t2 a)) k = None"
      using Some l(3) e by (auto simp: map_of_arc_pairs entry_find_None)
    then have "arc_lookup (snd (arc_get k a)) = arc_lookup a"
      using e by (auto simp: arc_get_def Some arc_lookup_def map_of_arc_pairs_del map_add_def fun_eq_iff split: option.splits)
    moreover have "arc_wf (snd (arc_get k a))"
      using assms e entries_size_del [OF l(1) Some]
      by (auto simp: arc_get_def Some arc_wf_def arc_all_def dest: set_entry_del)
    ultimately show ?thesis ..
  next
    case None
    show ?thesis
    proof (cases "entry_find k (a_t2 a)")
      case (Some e)
      note e = entry_find_SomeD [OF Some]
      have "map_of (arc_pairs (a_t1 a)) k = None" "map_of (arc_pairs (a_t2 a)) k = Some (e_value e)"
        using Some None by (auto simp: map_of_arc_pairs)
      then have "arc_lookup (snd (arc_get k a)) = arc_lookup a"
        using e by (auto simp: arc_get_def None Some arc_lookup_def map_of_arc_pairs_del map_add_def fun_eq_iff split: option.splits)
      moreover have "arc_wf (snd (arc_get k a))"
        using assms e entries_size_del [OF l(2) Some]
        by (auto simp: arc_get_def None Some arc_wf_def arc_all_def dest: set_entry_del)
      ultimately show ?thesis ..
    qed (use assms None in \<open>simp add: arc_get_def arc_lookup_def arc_wf_def arc_all_def\<close>)
  qed
  then show "arc_lookup (snd (arc_get k a)) = arc_lookup a" "arc_wf (snd (arc_get k a))" by blast+
qed

lemma arc_remove_facts:
  assumes "arc_wf a"
  shows "arc_lookup (snd (arc_remove k a)) = (arc_lookup a)(k := None)" and "arc_wf (snd (arc_remove k a))"
    and "fst (arc_remove k a) \<longleftrightarrow> arc_lookup a k \<noteq> None"
    and "a_capacity (snd (arc_remove k a)) = a_capacity a" and "a_size_fn (snd (arc_remove k a)) = a_size_fn a"
proof -
  note l = arc_wf_lists [OF assms]
  show "fst (arc_remove k a) \<longleftrightarrow> arc_lookup a k \<noteq> None"
    "a_capacity (snd (arc_remove k a)) = a_capacity a" "a_size_fn (snd (arc_remove k a)) = a_size_fn a"
    by (simp_all add: arc_remove_def arc_lookup_find split: option.splits)
  have "arc_lookup (snd (arc_remove k a)) = (arc_lookup a)(k := None) \<and> arc_wf (snd (arc_remove k a))"
  proof (cases "entry_find k (a_t1 a)")
    case (Some e)
    have "map_of (arc_pairs (a_t2 a)) k = None"
      using entry_find_SomeD [OF Some] l(3) by (auto simp: map_of_arc_pairs entry_find_None)
    then show ?thesis
      using assms entries_size_del [OF l(1) Some]
      by (auto simp: arc_remove_def Some arc_lookup_def map_of_arc_pairs_del map_add_def fun_eq_iff
            arc_wf_def arc_all_def dest: set_entry_del split: option.splits)
  next
    case None
    then have t1: "map_of (arc_pairs (a_t1 a)) k = None" by (simp add: map_of_arc_pairs)
    show ?thesis
    proof (cases "entry_find k (a_t2 a)")
      case (Some e)
      show ?thesis
        using assms entries_size_del [OF l(2) Some] t1
        by (auto simp: arc_remove_def None Some arc_lookup_def map_of_arc_pairs_del map_add_def fun_eq_iff
              arc_wf_def arc_all_def dest: set_entry_del split: option.splits)
    next
      case n2: None
      then have "map_of (arc_pairs (a_t2 a)) k = None" by (simp add: map_of_arc_pairs)
      then show ?thesis
        using assms t1
        by (auto simp: arc_remove_def None n2 arc_lookup_def map_add_def fun_eq_iff arc_wf_def arc_all_def)
    qed
  qed
  then show "arc_lookup (snd (arc_remove k a)) = (arc_lookup a)(k := None)" "arc_wf (snd (arc_remove k a))" by blast+
qed

section \<open>Sizes\<close>

text \<open>The total size of the entries over the natural numbers.\<close>

definition arc_bytes :: "('k, 'v) arc \<Rightarrow> nat" where
  "arc_bytes a = sum_list (map (\<lambda>e. unat (e_size e)) (a_t1 a @ a_t2 a))"

lemma entries_size_of_nat: "entries_size es = of_nat (sum_list (map (\<lambda>e. unat (e_size e)) es))"
  by (induction es) simp_all

lemma arc_size_bytes: "arc_wf a \<Longrightarrow> a_size a = of_nat (arc_bytes a)"
  by (simp add: arc_wf_def arc_bytes_def entries_size_of_nat)

lemma arc_evict_one_bytes: "arc_bytes (snd (arc_evict_one s)) \<le> arc_bytes (snd s)"
proof -
  have b: "sum_list (map f (butlast xs)) \<le> sum_list (map f xs)" for xs :: "('a, 'b) Entry list" and f :: "_ \<Rightarrow> nat"
    by (cases xs rule: rev_cases) simp_all
  show ?thesis using b by (auto simp: arc_evict_one_def arc_bytes_def Let_def split: prod.splits)
qed

lemma arc_evict_bytes: "arc_bytes (snd (arc_evict n s)) \<le> arc_bytes (snd s)"
proof (induction n s rule: arc_evict.induct)
  case (1 n s)
  then show ?case using arc_evict_one_bytes [of s] by (subst arc_evict.simps) (auto intro: order_trans)
qed

lemma arc_insert_within_capacity:
  assumes "arc_wf a" and "k \<notin> set (arc_all a)" and "arc_insert fresh k v a = (ev, a')"
    and "a_size_fn a v \<le> a_capacity a" and "arc_bytes a + unat (a_size_fn a v) < 2 ^ 64"
  shows "arc_bytes a' \<le> unat (a_capacity a)"
proof -
  let ?n = "a_size_fn a v"
  obtain a1 where e: "arc_evict ?n ([], a) = (ev, a1)"
    and a': "arc_bytes a' = unat ?n + arc_bytes a1"
    using assms(3) by (auto simp: arc_insert_def Let_def arc_bytes_def split: prod.splits if_splits)
  have f: "arc_wf a1" "a_capacity a < a_size a1 + ?n \<longrightarrow> a_t1 a1 = [] \<and> a_t2 a1 = []"
    using arc_evict_facts [OF assms(1) e] by auto
  have "arc_bytes a1 + unat ?n < 2 ^ 64" using arc_evict_bytes [of ?n "([], a)"] e assms(5) by simp
  then have s: "unat (a_size a1 + ?n) = arc_bytes a1 + unat ?n"
    by (simp add: arc_size_bytes [OF f(1)] unat_add_fits unat_of_nat_fits)
  show ?thesis
  proof (cases "a_capacity a < a_size a1 + ?n")
    case True
    then have "arc_bytes a1 = 0" using f(2) by (simp add: arc_bytes_def)
    then show ?thesis using a' assms(4) by (simp add: word_le_nat_alt)
  next
    case False
    then show ?thesis using s a' by (simp add: word_less_nat_alt)
  qed
qed

lemma bytes_entry_del:
  "sum_list (map (\<lambda>e. unat (e_size e)) (entry_del k es)) \<le> sum_list (map (\<lambda>e. unat (e_size e)) es)"
  by (induction es) (simp_all add: entry_del_def)

lemma arc_put_no_evict:
  assumes "arc_wf a" and "arc_put k v a = (ev, a')"
    and "arc_bytes a + unat (a_size_fn a v) \<le> unat (a_capacity a)"
  shows "ev = []" and "arc_bytes a' \<le> arc_bytes a + unat (a_size_fn a v)"
proof -
  have "ev = [] \<and> arc_bytes a' \<le> arc_bytes a + unat (a_size_fn a v)"
  proof (cases "k \<in> e_key ` set (a_t1 a @ a_t2 a)")
    case True
    have "arc_bytes a' \<le> arc_bytes a + unat (a_size_fn a v)"
      using assms(2) True bytes_entry_del [of k "a_t1 a"] bytes_entry_del [of k "a_t2 a"]
        entry_find_None [of k "a_t1 a"] entry_find_None [of k "a_t2 a"]
      by (auto simp: arc_put_def Let_def arc_bytes_def split: option.splits)
    then show ?thesis using arc_put_hit [OF assms(1) True assms(2)] by blast
  next
    case False
    note p = arc_prepare_facts [OF assms(1) False]
    let ?b = "arc_prepare k a" and ?n = "a_size_fn a v"
    obtain fresh where i: "arc_insert fresh k v ?b = (ev, a')"
      using arc_put_new [OF False, of v] assms(2) by auto
    have b: "arc_bytes ?b = arc_bytes a" unfolding arc_bytes_def p(6,7) ..
    have "arc_bytes a + unat ?n < 2 ^ 64" using le_less_trans [OF assms(3) unat_u64_less] by simp
    then have "unat (a_size ?b + ?n) = arc_bytes a + unat ?n"
      by (simp add: arc_size_bytes [OF p(1)] b unat_add_fits unat_of_nat_fits)
    then have "arc_evict ?n ([], ?b) = ([], ?b)"
      using assms(3) p(4) by (subst arc_evict.simps) (simp add: word_less_nat_alt)
    then show ?thesis
      using i b by (auto simp: arc_insert_def p(5) Let_def arc_bytes_def split: if_splits)
  qed
  then show "ev = []" "arc_bytes a' \<le> arc_bytes a + unat (a_size_fn a v)" by simp_all
qed

section \<open>The class\<close>

definition ARCCache_ok :: "('k, 'v) ARCCache \<Rightarrow> bool" where
  "ARCCache_ok c = (ARCCache_inv c \<and> arc_wf (arc_abs c))"

definition ARCCache_lookup :: "('k, 'v) ARCCache \<Rightarrow> 'k \<rightharpoonup> 'v" where
  "ARCCache_lookup c = arc_lookup (arc_abs c)"

definition ARCCache_bytes :: "('k, 'v) ARCCache \<Rightarrow> nat" where
  "ARCCache_bytes c = arc_bytes (arc_abs c)"

lemma ARCCache_new_ok: "ARCCache_ok (ARCCache_new cap f)" "ARCCache_lookup (ARCCache_new cap f) = Map.empty"
  by (simp_all add: ARCCache_ok_def ARCCache_inv_def arc_wf_def arc_all_def ARCCache_new_def arc_abs_def
        ARCCache_lookup_def arc_lookup_def)

lemma ARCCache_clear_ok: "ARCCache_ok (ARCCache_clear c)" "ARCCache_lookup (ARCCache_clear c) = Map.empty"
  unfolding ARCCache_ok_def ARCCache_lookup_def clear_sim [THEN conjunct2, symmetric]
  by (simp_all add: clear_sim arc_clear_def arc_wf_def arc_all_def arc_lookup_def)

lemma ARCCache_get_ok:
  assumes "ARCCache_ok c"
  shows "fst (ARCCache_get_impl k c) = ARCCache_lookup c k" and "ARCCache_ok (snd (ARCCache_get_impl k c))"
    and "ARCCache_lookup (snd (ARCCache_get_impl k c)) = ARCCache_lookup c"
  using get_sim [of c k] arc_get_facts [of "arc_abs c" k] assms
  by (auto simp: ARCCache_ok_def ARCCache_lookup_def)

lemma ARCCache_get_frame:
  "arc_capacity (snd (ARCCache_get_impl k c)) = arc_capacity c" "arc_size_fn (snd (ARCCache_get_impl k c)) = arc_size_fn c"
  by (simp_all add: ARCCache_get_impl_def Let_def split: option.splits prod.splits)

lemma ARCCache_put_no_evict:
  assumes "ARCCache_ok c" and "ARCCache_put_impl k v c = (ev, c')"
    and "ARCCache_bytes c + unat (arc_size_fn c v) \<le> unat (arc_capacity c)"
  shows "ev = []" and "ARCCache_bytes c' \<le> ARCCache_bytes c + unat (arc_size_fn c v)"
  using put_sim [of c k v] arc_put_no_evict [of "arc_abs c" k v ev "arc_abs c'"] assms
  by (auto simp: ARCCache_ok_def ARCCache_bytes_def)

lemma ARCCache_put_ok:
  assumes "ARCCache_ok c" and "ARCCache_put_impl k v c = (ev, c')"
  shows "ARCCache_ok c'" and "arc_stored k v (arc_abs c) ev (arc_abs c')"
    and "arc_capacity c' = arc_capacity c" and "arc_size_fn c' = arc_size_fn c"
  using put_sim [of c k v] arc_put_facts [of "arc_abs c" k v ev "arc_abs c'"] assms
  by (auto simp: ARCCache_ok_def)

lemma ARCCache_remove_ok:
  assumes "ARCCache_ok c"
  shows "ARCCache_ok (snd (ARCCache_remove_impl k c))"
    and "ARCCache_lookup (snd (ARCCache_remove_impl k c)) = (ARCCache_lookup c)(k := None)"
    and "fst (ARCCache_remove_impl k c) \<longleftrightarrow> ARCCache_lookup c k \<noteq> None"
    and "arc_capacity (snd (ARCCache_remove_impl k c)) = arc_capacity c"
    and "arc_size_fn (snd (ARCCache_remove_impl k c)) = arc_size_fn c"
  using remove_sim [of c k] arc_remove_facts [of "arc_abs c" k] assms
  by (auto simp: ARCCache_ok_def ARCCache_lookup_def)

lemma ARCCache_contains_ok:
  assumes "ARCCache_ok c"
  shows "ARCCache_contains c k \<longleftrightarrow> ARCCache_lookup c k \<noteq> None"
  using assms lru.contains_iff [of "arc_t1 c" k] lru.contains_iff [of "arc_t2 c" k]
  by (auto simp: ARCCache_ok_def ARCCache_inv_def ARCCache_contains_def ARCCache_lookup_def arc_lookup_def
        map_of_eq_None_iff image_Un)

lemma restrict_upd_map_le: "(m |` A)(k \<mapsto> v) \<subseteq>\<^sub>m m(k \<mapsto> v)"
  by (auto simp: map_le_def restrict_map_def split: if_splits)

interpretation arcc: lossy_store ARCCache_ok ARCCache_lookup ARCCache_get_impl
  "\<lambda>k v c. snd (ARCCache_put_impl k v c)" "\<lambda>k c. snd (ARCCache_remove_impl k c)"
proof unfold_locales
  fix c :: "('k, 'v) ARCCache" and k v
  assume ok: "ARCCache_ok c"
  obtain ev c' where p: "ARCCache_put_impl k v c = (ev, c')" by fastforce
  have m: "ARCCache_lookup c' = (ARCCache_lookup c |` (- fst ` set ev))(k \<mapsto> v)"
    using ARCCache_put_ok(2) [OF ok p] by (simp add: arc_stored_def ARCCache_lookup_def)
  show "ARCCache_lookup (snd (ARCCache_put_impl k v c)) \<subseteq>\<^sub>m (ARCCache_lookup c)(k \<mapsto> v)"
    "ARCCache_lookup (snd (ARCCache_put_impl k v c)) k = Some v"
    using m p by (simp_all add: restrict_upd_map_le del: fun_upd_restrict_conv)
  show "ARCCache_ok (snd (ARCCache_put_impl k v c))" using ARCCache_put_ok(1) [OF ok p] p by simp
qed (simp_all add: ARCCache_get_ok ARCCache_remove_ok)

text \<open>A sequence of operations of clients of the class.\<close>

definition ARCCache_run :: "('k, 'v) cache_op list \<Rightarrow> ('k, 'v) ARCCache \<Rightarrow> ('k, 'v) ARCCache" where
  "ARCCache_run = fold (cache_step ARCCache_get_impl (\<lambda>k v c. snd (ARCCache_put_impl k v c))
                         (\<lambda>k c. snd (ARCCache_remove_impl k c)))"

section \<open>Properties\<close>

text \<open>
  C12. The ARC class, with its linked lists, iterators and key indices, implements the sequence
  specification: from a state in which the four lists are consistent and pairwise disjoint, every
  operation keeps them so, returns what the specification returns and reaches a state whose
  sequences are those of the specification. The eviction loop inside \<^verbatim>\<open>put\<close> always ends.
\<close>

theorem arc_class_refines_spec:
  assumes "ARCCache_inv c"
  shows "arc_get k (arc_abs c) = map_prod id arc_abs (ARCCache_get_impl k c)
       \<and> ARCCache_inv (snd (ARCCache_get_impl k c))
       \<and> arc_put k v (arc_abs c) = map_prod id arc_abs (ARCCache_put_impl k v c)
       \<and> ARCCache_inv (snd (ARCCache_put_impl k v c))
       \<and> arc_remove k (arc_abs c) = map_prod id arc_abs (ARCCache_remove_impl k c)
       \<and> ARCCache_inv (snd (ARCCache_remove_impl k c))
       \<and> arc_clear (arc_abs c) = arc_abs (ARCCache_clear c) \<and> ARCCache_inv (ARCCache_clear c)"
  using get_sim [OF assms, of k] put_sim [OF assms, of k v] remove_sim [OF assms, of k] clear_sim [of c]
  by blast

theorem arc_class_refines_spec_witness:
  "arc_put (1 :: nat) (7 :: nat) (arc_abs (ARCCache_new 10 None))
     = map_prod id arc_abs (ARCCache_put_impl 1 7 (ARCCache_new 10 None))"
proof -
  have "ARCCache_inv (ARCCache_new 10 None :: (nat, nat) ARCCache)"
    by (simp add: ARCCache_inv_def ARCCache_new_def arc_all_def)
  from arc_class_refines_spec [OF this] show ?thesis by blast
qed

text \<open>
  C15. A \<^verbatim>\<open>put\<close> reports its evictions exactly: afterwards the key has the new value, the returned pairs
  are entries of the cache before the call, each key once and none of them the key stored, and the
  contents are the old contents without these pairs plus the new one. The size account stays the sum
  of the sizes of the entries and the adaptation parameter stays between 0 and the capacity.
\<close>

theorem arc_put_exact:
  assumes "ARCCache_ok c" and "ARCCache_put_impl k v c = (ev, c')"
  shows "ARCCache_lookup c' = (ARCCache_lookup c |` (- fst ` set ev))(k \<mapsto> v)
       \<and> distinct (map fst ev) \<and> (\<forall>(k', v')\<in>set ev. ARCCache_lookup c k' = Some v' \<and> k' \<noteq> k)
       \<and> ARCCache_ok c' \<and> arc_current_size c' = of_nat (ARCCache_bytes c')
       \<and> 0 \<le> arc_p c' \<and> arc_p c' \<le> double_of_u64 (arc_capacity c')"
  using ARCCache_put_ok [OF assms] arc_size_bytes [of "arc_abs c'"]
  by (auto simp: arc_stored_def ARCCache_lookup_def ARCCache_ok_def ARCCache_bytes_def arc_wf_def)

theorem arc_put_exact_witness:
  "\<exists>ev c'. ARCCache_put_impl (1 :: nat) (7 :: nat) (ARCCache_new 10 None) = (ev, c') \<and> ARCCache_lookup c' 1 = Some 7"
proof -
  obtain ev c' where p: "ARCCache_put_impl (1 :: nat) (7 :: nat) (ARCCache_new 10 None) = (ev, c')" by fastforce
  from arc_put_exact [OF ARCCache_new_ok(1) p] have "ARCCache_lookup c' 1 = Some 7" by simp
  then show ?thesis using p by blast
qed

text \<open>
  C16. Storing a key that is not cached, with a value that fits the capacity, leaves the total size of
  the entries within the capacity, and \<^verbatim>\<open>current_size_\<close> is that total, provided the sizes do not
  add up to 2^64 bytes.
\<close>

theorem arc_put_new_within_capacity:
  assumes "ARCCache_ok c" and "\<not> ARCCache_contains c k" and "arc_size_fn c v \<le> arc_capacity c"
    and "ARCCache_bytes c + unat (arc_size_fn c v) < 2 ^ 64" and "ARCCache_put_impl k v c = (ev, c')"
  shows "ARCCache_bytes c' \<le> unat (arc_capacity c) \<and> unat (arc_current_size c') = ARCCache_bytes c'"
proof -
  let ?a = "arc_abs c"
  have wf: "arc_wf ?a" using assms(1) by (simp add: ARCCache_ok_def)
  have "arc_lookup ?a k = None"
    using assms(2) ARCCache_contains_ok [OF assms(1), of k] by (simp add: ARCCache_lookup_def)
  then have k: "k \<notin> e_key ` set (a_t1 ?a @ a_t2 ?a)"
    by (simp add: arc_lookup_def map_of_eq_None_iff image_Un)
  note p = arc_prepare_facts [OF wf k]
  have "arc_put k v ?a = (ev, arc_abs c')"
    using put_sim [of c k v] assms(1,5) by (simp add: ARCCache_ok_def)
  then obtain fresh where i: "arc_insert fresh k v (arc_prepare k ?a) = (ev, arc_abs c')"
    using arc_put_new [OF k, of v] by auto
  have "arc_bytes (arc_prepare k ?a) = arc_bytes ?a" unfolding arc_bytes_def p(6,7) ..
  then have b: "ARCCache_bytes c' \<le> unat (arc_capacity c)"
    using arc_insert_within_capacity [OF p(1,3) i] assms(3,4) p(4,5) by (simp add: ARCCache_bytes_def)
  have "arc_current_size c' = of_nat (ARCCache_bytes c')"
    using arc_size_bytes [of "arc_abs c'"] ARCCache_put_ok(1) [OF assms(1,5)]
    by (simp add: ARCCache_ok_def ARCCache_bytes_def)
  then have "unat (arc_current_size c') = ARCCache_bytes c'"
    using le_less_trans [OF b unat_u64_less] by (simp add: unat_of_nat_fits)
  with b show ?thesis ..
qed

theorem arc_put_new_within_capacity_witness:
  "\<exists>ev c'. ARCCache_put_impl (1 :: nat) (7 :: u64) (ARCCache_new 10 (Some id)) = (ev, c')
     \<and> ARCCache_bytes c' \<le> 10"
proof -
  let ?c = "ARCCache_new 10 (Some id) :: (nat, u64) ARCCache"
  obtain ev c' where p: "ARCCache_put_impl 1 7 ?c = (ev, c')" by fastforce
  have "\<not> ARCCache_contains ?c 1" "arc_size_fn ?c 7 \<le> arc_capacity ?c" "ARCCache_bytes ?c + unat (arc_size_fn ?c 7) < 2 ^ 64"
    by (simp_all add: ARCCache_contains_ok [OF ARCCache_new_ok(1)] ARCCache_new_ok(2))
       (simp_all add: ARCCache_new_def ARCCache_bytes_def arc_bytes_def)
  from arc_put_new_within_capacity [OF ARCCache_new_ok(1) this p]
  have "ARCCache_bytes c' \<le> 10" by (simp add: ARCCache_new_def)
  then show ?thesis using p by blast
qed

text \<open>
  Whatever sequence of lookups, stores and removals a fresh ARC cache has seen, a lookup that hits
  returns the value last stored under that key and not removed since; and a lookup right after a
  store hits.
\<close>

theorem arc_hit_is_last_stored:
  "fst (ARCCache_get_impl k (ARCCache_run ops (ARCCache_new cap f))) \<in> {None, last_stored ops Map.empty k}
   \<and> fst (ARCCache_get_impl k (ARCCache_run (ops @ [PutOp k v]) (ARCCache_new cap f))) = Some v"
proof -
  note ok = ARCCache_new_ok [of cap f]
  have "fst (ARCCache_get_impl k (ARCCache_run ops (ARCCache_new cap f))) \<in> {None, last_stored ops Map.empty k}"
    using arcc.hit_is_last_stored [OF ok(1), of k ops]
    by (cases "fst (ARCCache_get_impl k (ARCCache_run ops (ARCCache_new cap f)))")
       (simp_all add: ARCCache_run_def ok(2))
  moreover have "ARCCache_ok (ARCCache_run ops (ARCCache_new cap f))"
    using arcc.run_sound [OF ok(1), of ops] unfolding ARCCache_run_def by blast
  then have "fst (ARCCache_get_impl k (ARCCache_run (ops @ [PutOp k v]) (ARCCache_new cap f))) = Some v"
    using arcc.get_after_put by (simp add: ARCCache_run_def)
  ultimately show ?thesis ..
qed

end
