(* ===== verification/Memory_Cache.thy ===== *)
theory Memory_Cache
  imports Cache_Interface ARC_Properties
begin

text \<open>
  The memory cache: \<^verbatim>\<open>include/elcache/memory_cache.hpp\<close> and \<^verbatim>\<open>src/cache/memory_cache.cpp\<close>. Values are
  cut into content-addressed chunks held by an ARC cache; a descriptor per key lists the chunks.
  The coroutine operations are modelled as sequences of the calls they make; \<open>now\<close> is the reading of
  the system clock. \<open>H\<close> is the hash package.
\<close>

section \<open>State\<close>

record MemoryCache =
  mc_chunk_cache :: "(ChunkId, SharedChunk) ARCCache"
  mc_descriptors :: "(CacheKey \<times> ValueDescriptor) list"
  mc_hits :: u64
  mc_misses :: u64
  mc_partial_hits :: u64
  mc_bytes_read :: u64
  mc_bytes_written :: u64
  mc_evictions :: u64

definition shared_chunk_size :: "SharedChunk \<Rightarrow> u64" where
  "shared_chunk_size chunk = (case chunk of Some c \<Rightarrow> vec_size c | None \<Rightarrow> 0)"

definition MemoryCache_new :: "u64 \<Rightarrow> MemoryCache" where
  "MemoryCache_new max_size =
     \<lparr>mc_chunk_cache = ARCCache_new max_size (Some shared_chunk_size), mc_descriptors = [],
      mc_hits = 0, mc_misses = 0, mc_partial_hits = 0, mc_bytes_read = 0, mc_bytes_written = 0, mc_evictions = 0\<rparr>"

section \<open>Chunk operations\<close>

definition MemoryCache_get_chunk :: "ChunkId \<Rightarrow> MemoryCache \<Rightarrow> SharedChunk \<times> MemoryCache" where
  "MemoryCache_get_chunk i m =
     (case ARCCache_get_impl i (mc_chunk_cache m) of
        (Some chunk, a) \<Rightarrow> (chunk, m\<lparr>mc_chunk_cache := a\<rparr>)
      | (None, a) \<Rightarrow> (None, m\<lparr>mc_chunk_cache := a\<rparr>))"

definition MemoryCache_put_chunk :: "hasher \<Rightarrow> SharedChunk \<Rightarrow> MemoryCache \<Rightarrow> Status \<times> MemoryCache" where
  "MemoryCache_put_chunk H chunk m =
     (case chunk of
        None \<Rightarrow> (Status_error InvalidArgument ''Null chunk'', m)
      | Some c \<Rightarrow>
          (case ARCCache_put_impl (Chunk_id H c) chunk (mc_chunk_cache m) of
             (evicted, a) \<Rightarrow>
               (Status_ok, m\<lparr>mc_chunk_cache := a, mc_evictions := mc_evictions m + vec_size evicted\<rparr>)))"

definition MemoryCache_remove_chunk :: "ChunkId \<Rightarrow> MemoryCache \<Rightarrow> Status \<times> MemoryCache" where
  "MemoryCache_remove_chunk i m =
     (Status_ok, m\<lparr>mc_chunk_cache := snd (ARCCache_remove_impl i (mc_chunk_cache m))\<rparr>)"

definition MemoryCache_has_chunk :: "MemoryCache \<Rightarrow> ChunkId \<Rightarrow> bool" where
  "MemoryCache_has_chunk m i = ARCCache_contains (mc_chunk_cache m) i"

fun MemoryCache_get_chunks :: "ChunkId list \<Rightarrow> MemoryCache \<Rightarrow> SharedChunk list \<times> MemoryCache" where
  "MemoryCache_get_chunks [] m = ([], m)"
| "MemoryCache_get_chunks (i # ids) m =
     (case MemoryCache_get_chunk i m of (c, m1) \<Rightarrow>
        case MemoryCache_get_chunks ids m1 of (cs, m2) \<Rightarrow> (c # cs, m2))"

definition MemoryCache_get_descriptor :: "MemoryCache \<Rightarrow> CacheKey \<Rightarrow> ValueDescriptor option" where
  "MemoryCache_get_descriptor m key = map_of (mc_descriptors m) key"

definition MemoryCache_put_descriptor :: "ValueDescriptor \<Rightarrow> MemoryCache \<Rightarrow> Status \<times> MemoryCache" where
  "MemoryCache_put_descriptor d m =
     (Status_ok, m\<lparr>mc_descriptors := AList.update (vd_key d) d (mc_descriptors m)\<rparr>)"

definition MemoryCache_remove_descriptor :: "CacheKey \<Rightarrow> MemoryCache \<Rightarrow> Status \<times> MemoryCache" where
  "MemoryCache_remove_descriptor key m =
     (Status_ok, m\<lparr>mc_descriptors := AList.delete key (mc_descriptors m)\<rparr>)"

definition MemoryCache_evict :: "u64 \<Rightarrow> MemoryCache \<Rightarrow> u64 \<times> MemoryCache" where
  "MemoryCache_evict bytes_needed m = (0, m)"

section \<open>Assembling a result\<close>

text \<open>
  The loop of \<^verbatim>\<open>assemble_value\<close>. \<open>i\<close> is the position in the list of fetched chunks, the first of which
  is chunk \<open>start_chunk\<close> of the value.
\<close>

fun assemble_loop :: "u64 \<Rightarrow> u64 \<Rightarrow> u64 \<Rightarrow> u64 \<Rightarrow> SharedChunk list \<Rightarrow> byte list" where
  "assemble_loop start_chunk i current_offset remaining [] = []"
| "assemble_loop start_chunk i current_offset remaining (c # cs) =
     (if remaining = 0 then []
      else case c of
          None \<Rightarrow>
            let skip = min remaining CHUNK_SIZE
            in assemble_loop start_chunk (i + 1) (current_offset + skip) (remaining - skip) cs
        | Some d \<Rightarrow>
            let chunk_global_offset = (start_chunk + i) * CHUNK_SIZE;
                offset_in_chunk = (if chunk_global_offset < current_offset then current_offset - chunk_global_offset else 0);
                available = vec_size d - offset_in_chunk;
                to_copy = min remaining available
            in Chunk_read d offset_in_chunk to_copy
               @ assemble_loop start_chunk (i + 1) (current_offset + to_copy) (remaining - to_copy) cs)"

definition assemble_value :: "SharedChunk list \<Rightarrow> Range \<Rightarrow> byte list" where
  "assemble_value chunks rng =
     assemble_loop (r_offset rng div CHUNK_SIZE) 0 (r_offset rng) (r_length rng) chunks"

section \<open>Cache operations\<close>

text \<open>The second half of \<^verbatim>\<open>get\<close>: fetch the chunks of the clamped range and assemble the answer.\<close>

definition MemoryCache_read :: "ValueDescriptor \<Rightarrow> Range \<Rightarrow> ReadOptions \<Rightarrow> MemoryCache \<Rightarrow> ReadResult \<times> MemoryCache" where
  "MemoryCache_read desc rng opts m =
     (let (chunks, all_found, m1) =
            fetch_loop MemoryCache_get_chunk (ro_allow_partial opts) (vd_chunks desc) (chunks_for_range desc rng) m
      in if chunks = [] \<or> (\<not> all_found \<and> \<not> ro_allow_partial opts) then
           (ReadResult_new, m1\<lparr>mc_misses := mc_misses m1 + 1\<rparr>)
         else
           let data = assemble_value chunks rng;
               full = (all_found \<and> vec_size data = r_length rng);
               m2 = (if full then m1\<lparr>mc_hits := mc_hits m1 + 1\<rparr>
                     else m1\<lparr>mc_partial_hits := mc_partial_hits m1 + 1\<rparr>)
           in (\<lparr>rr_result = (if full then Hit else PartialHit), rr_data = data,
                rr_actual_range = \<lparr>r_offset = r_offset rng, r_length = vec_size data\<rparr>,
                rr_metadata = Some (vd_metadata desc)\<rparr>,
               m2\<lparr>mc_bytes_read := mc_bytes_read m2 + vec_size data\<rparr>))"

definition MemoryCache_get :: "Timestamp \<Rightarrow> CacheKey \<Rightarrow> ReadOptions \<Rightarrow> MemoryCache \<Rightarrow> ReadResult \<times> MemoryCache" where
  "MemoryCache_get now key opts m =
     (case MemoryCache_get_descriptor m key of
        None \<Rightarrow> (ReadResult_new, m\<lparr>mc_misses := mc_misses m + 1\<rparr>)
      | Some desc \<Rightarrow>
          if CacheMetadata_is_expired now (vd_metadata desc) then
            (ReadResult_new\<lparr>rr_result := Expired\<rparr>, m\<lparr>mc_misses := mc_misses m + 1\<rparr>)
          else
            let rng = (case ro_range opts of Some r \<Rightarrow> r | None \<Rightarrow> \<lparr>r_offset = 0, r_length = vd_total_size desc\<rparr>)
            in if vd_total_size desc \<le> r_offset rng then
                 (ReadResult_new\<lparr>rr_result := Hit, rr_actual_range := \<lparr>r_offset = r_offset rng, r_length = 0\<rparr>,
                                 rr_metadata := Some (vd_metadata desc)\<rparr>, m)
               else
                 let effective_length = min (r_length rng) (vd_total_size desc - r_offset rng)
                 in MemoryCache_read desc (rng\<lparr>r_length := effective_length\<rparr>) opts m)"

definition MemoryCache_put ::
    "hasher \<Rightarrow> Timestamp \<Rightarrow> CacheKey \<Rightarrow> byte list \<Rightarrow> WriteOptions \<Rightarrow> MemoryCache \<Rightarrow> Status \<times> MemoryCache" where
  "MemoryCache_put H now key v opts m =
     (if MAX_KEY_SIZE < CacheKey_size key then (Status_error KeyTooLarge ''Key exceeds maximum size'', m)
      else if MAX_VALUE_SIZE < vec_size v then (Status_error ValueTooLarge ''Value exceeds maximum size'', m)
      else
        let chunks = split_value v
        in case put_chunks_loop (MemoryCache_put_chunk H) H chunks m of
            (Inl st, m1) \<Rightarrow> (st, m1)
          | (Inr ids, m1) \<Rightarrow>
              (case MemoryCache_put_descriptor
                      \<lparr>vd_key = key, vd_total_size = vec_size v, vd_chunks = ids,
                       vd_metadata = new_metadata now opts v (vec_size chunks)\<rparr> m1 of
                 (st, m2) \<Rightarrow>
                   if \<not> Status_is_ok st then (st, m2)
                   else (Status_ok, m2\<lparr>mc_bytes_written := mc_bytes_written m2 + vec_size v\<rparr>)))"

definition MemoryCache_remove :: "CacheKey \<Rightarrow> DeleteOptions \<Rightarrow> MemoryCache \<Rightarrow> Status \<times> MemoryCache" where
  "MemoryCache_remove key opts m =
     (case MemoryCache_get_descriptor m key of
        None \<Rightarrow> (Status_error NotFound ''Key not found'', m)
      | Some desc \<Rightarrow>
          let m1 = fold (\<lambda>i m. snd (MemoryCache_remove_chunk i m)) (vd_chunks desc) m
          in (Status_ok, snd (MemoryCache_remove_descriptor key m1)))"

text \<open>\<^verbatim>\<open>check\<close>; \<open>None\<close> is the outcome that \<^verbatim>\<open>missing_ranges\<close> does not return.\<close>

definition MemoryCache_check :: "CacheKey \<Rightarrow> Range option \<Rightarrow> MemoryCache \<Rightarrow> AvailabilityResult option" where
  "MemoryCache_check key range_opt m =
     (case MemoryCache_get_descriptor m key of
        None \<Rightarrow> Some AvailabilityResult_new
      | Some desc \<Rightarrow>
          let check_range = (case range_opt of Some r \<Rightarrow> r | None \<Rightarrow> \<lparr>r_offset = 0, r_length = vd_total_size desc\<rparr>);
              partial = mark_loop (MemoryCache_has_chunk m) (vd_chunks desc) (chunks_for_range desc check_range)
                          (PartialValue_new desc)
          in map_option (\<lambda>missing. \<lparr>av_exists = True, av_metadata = Some (vd_metadata desc),
                                   av_available_ranges = available_ranges partial, av_missing_ranges = missing\<rparr>)
               (missing_ranges partial check_range))"

definition MemoryCache_metadata :: "CacheKey \<Rightarrow> MemoryCache \<Rightarrow> CacheMetadata option" where
  "MemoryCache_metadata key m = map_option vd_metadata (MemoryCache_get_descriptor m key)"

definition MemoryCache_stats :: "MemoryCache \<Rightarrow> CacheStats" where
  "MemoryCache_stats m =
     \<lparr>cs_hits = mc_hits m, cs_misses = mc_misses m, cs_partial_hits = mc_partial_hits m,
      cs_bytes_read = mc_bytes_read m, cs_bytes_written = mc_bytes_written m, cs_evictions = mc_evictions m,
      cs_entry_count = vec_size (mc_descriptors m), cs_size_bytes = arc_current_size (mc_chunk_cache m),
      cs_capacity_bytes = arc_capacity (mc_chunk_cache m)\<rparr>"

definition MemoryCache_start :: "MemoryCache \<Rightarrow> Status \<times> MemoryCache" where
  "MemoryCache_start m = (Status_ok, m)"

definition MemoryCache_stop :: "MemoryCache \<Rightarrow> MemoryCache" where
  "MemoryCache_stop m = m\<lparr>mc_chunk_cache := ARCCache_clear (mc_chunk_cache m), mc_descriptors := []\<rparr>"

section \<open>Assembly\<close>

lemma assemble_loop_0 [simp]: "assemble_loop st i cur 0 cs = []"
  by (cases cs) simp_all

text \<open>The arithmetic of one pass over a chunk that is present.\<close>

lemma assemble_step_facts:
  fixes st i cur rem :: u64
  assumes "fits v" and "unat cur + unat rem \<le> length v" and "rem \<noteq> 0" and "unat (st + i) = unat cur div CS"
  defines "d \<equiv> chunk_of v (unat cur div CS)" and "g \<equiv> (st + i) * CHUNK_SIZE"
  defines "off \<equiv> (if g < cur then cur - g else 0)"
  defines "n \<equiv> min rem (vec_size d - off)"
  shows "unat n = min (unat rem) (CS - unat cur mod CS)" and "0 < unat n"
    and "Chunk_read d off n = subspan v (unat cur) (unat n)"
proof -
  let ?c = "unat cur" and ?j = "unat cur div CS"
  have jm: "?j * CS + ?c mod CS = ?c" by simp
  have jc: "?j * CS \<le> ?c" by simp
  have m: "?c mod CS < CS" by simp
  have r: "0 < unat rem" using assms(3) by (simp add: unat_gt_0)
  have g: "unat g = ?j * CS"
    using order_le_less_trans [OF jc unat_u64_less] unfolding g_def assms(4) [symmetric] by (intro unat_mult_fits) simp
  have off: "unat off = ?c mod CS"
  proof (cases "g < cur")
    case True
    then show ?thesis using g by (simp add: off_def word_less_nat_alt unat_sub_fits minus_div_mult_eq_mod)
  next
    case False
    then have "?c mod CS = 0" using g jm by (simp only: word_less_nat_alt)
    then show ?thesis using False by (simp add: off_def)
  qed
  have fd: "fits d" and ld: "length d = min CS (length v - ?j * CS)"
    using assms(1) by (simp_all add: d_def length_chunk_of)
  have lo: "?c mod CS < length d" using assms(2) r jm m unfolding ld by linarith
  have "unat (vec_size d - off) = length d - ?c mod CS"
    using fd lo off by (simp add: unat_sub_fits unat_vec_size)
  then have n: "unat n = min (unat rem) (length d - ?c mod CS)" by (simp add: n_def unat_min_word)
  also have "\<dots> = min (unat rem) (CS - ?c mod CS)"
    using assms(2) jm unfolding ld by linarith
  finally show n': "unat n = min (unat rem) (CS - ?c mod CS)" .
  show "0 < unat n" unfolding n' using r m by simp
  have "Chunk_read d off n = subspan d (?c mod CS) (unat n)" using fd by (simp add: Chunk_read_subspan off)
  also have "\<dots> = subspan v (?j * CS + ?c mod CS) (min (unat n) (CS - ?c mod CS))"
    unfolding d_def chunk_of_def by (rule subspan_slice)
  finally show "Chunk_read d off n = subspan v ?c (unat n)" by (simp add: n')
qed

lemma assemble_loop_all:
  assumes "fits v" and "unat cur + unat rem \<le> length v" and "rem \<noteq> 0"
    and "unat (st + i) = unat cur div CS" and "unat cur + unat rem \<le> (unat cur div CS + n) * CS"
    and "unat cur div CS + n \<le> chunk_num v"
  shows "assemble_loop st i cur rem (map (\<lambda>j. Some (chunk_of v j)) [unat cur div CS ..< unat cur div CS + n])
       = subspan v (unat cur) (unat rem)"
  using assms(2-)
proof (induction n arbitrary: i cur rem)
  case 0
  then have "unat cur + unat rem \<le> unat cur div CS * CS" by simp
  also have "\<dots> \<le> unat cur" by (rule div_times_less_eq_dividend)
  finally have "unat rem = 0" by linarith
  then show ?case using 0 by (simp add: unat_eq_0)
next
  case (Suc n)
  let ?c = "unat cur" and ?j = "unat cur div CS"
  let ?d = "chunk_of v ?j" and ?g = "(st + i) * CHUNK_SIZE"
  let ?off = "if ?g < cur then cur - ?g else 0"
  let ?n = "min rem (vec_size ?d - ?off)"
  note f = assemble_step_facts [OF assms(1) Suc.prems(1,2,3)]
  have cur': "unat (cur + ?n) = ?c + unat ?n" and rem': "unat (rem - ?n) = unat rem - unat ?n"
    using f(1) Suc.prems(1) assms(1) by (auto simp: unat_add_fits unat_sub_fits)
  have rest: "assemble_loop st (i + 1) (cur + ?n) (rem - ?n) (map (\<lambda>j. Some (chunk_of v j)) [Suc ?j ..< ?j + Suc n])
      = subspan v (?c + unat ?n) (unat rem - unat ?n)"
  proof (cases "unat ?n = unat rem")
    case True
    then have "rem - ?n = 0" using rem' by (simp add: word_eq_unat)
    then show ?thesis using True by simp
  next
    case False
    then have n: "unat ?n = CS - ?c mod CS" "unat ?n < unat rem" using f(1) by auto
    have c': "?c + unat ?n = Suc ?j * CS"
      using n(1) div_mult_mod_eq [of ?c CS] mod_less_divisor [OF CHUNK_SIZE_pos(1), of ?c]
      unfolding mult_Suc by linarith
    have j': "unat (cur + ?n) div CS = Suc ?j" unfolding cur' c' by simp
    have "Suc ?j \<le> chunk_num v" using Suc.prems(5) by simp
    then have "unat (st + i) + 1 < 2 ^ 64" using chunk_num_le [of v] assms(1) Suc.prems(3) by simp
    then have i': "unat (st + (i + 1)) = unat (cur + ?n) div CS"
      unfolding j' using Suc.prems(3) unat_add_fits [of "st + i" 1] by (simp add: add.assoc)
    have r': "rem - ?n \<noteq> 0" using n(2) rem' by (metis diff_is_0_eq leD unat_0)
    have tot: "unat (cur + ?n) + unat (rem - ?n) = ?c + unat rem" unfolding cur' rem' using n(2) by simp
    have "assemble_loop st (i + 1) (cur + ?n) (rem - ?n)
        (map (\<lambda>j. Some (chunk_of v j)) [unat (cur + ?n) div CS ..< unat (cur + ?n) div CS + n])
      = subspan v (unat (cur + ?n)) (unat (rem - ?n))"
      using Suc.prems(1,4,5) by (intro Suc.IH [OF _ r' i']) (simp_all only: tot j' add_Suc add_Suc_right)
    then show ?thesis unfolding j' unfolding cur' rem' by (simp only: add_Suc add_Suc_right)
  qed
  have "assemble_loop st i cur rem (map (\<lambda>j. Some (chunk_of v j)) [?j ..< ?j + Suc n])
      = Chunk_read ?d ?off ?n @ subspan v (?c + unat ?n) (unat rem - unat ?n)"
    using Suc.prems(2) rest by (simp add: upt_conv_Cons Let_def del: upt_Suc)
  then show ?case
    using f(1,3) subspan_add [of v ?c "unat ?n" "unat rem - unat ?n"] by simp
qed

section \<open>The chunk store\<close>

definition mc_chunk_at :: "MemoryCache \<Rightarrow> ChunkId \<rightharpoonup> Chunk" where
  "mc_chunk_at m i = Option.bind (ARCCache_lookup (mc_chunk_cache m) i) id"

definition mc_chunks_ok :: "MemoryCache \<Rightarrow> bool" where
  "mc_chunks_ok m = (ARCCache_ok (mc_chunk_cache m) \<and> arc_size_fn (mc_chunk_cache m) = shared_chunk_size)"

lemma mc_chunk_at_frame [simp]:
  "mc_chunk_at (m\<lparr>mc_descriptors := ds\<rparr>) = mc_chunk_at m" "mc_chunk_at (m\<lparr>mc_hits := a\<rparr>) = mc_chunk_at m"
  "mc_chunk_at (m\<lparr>mc_misses := a\<rparr>) = mc_chunk_at m" "mc_chunk_at (m\<lparr>mc_partial_hits := a\<rparr>) = mc_chunk_at m"
  "mc_chunk_at (m\<lparr>mc_bytes_read := a\<rparr>) = mc_chunk_at m" "mc_chunk_at (m\<lparr>mc_bytes_written := a\<rparr>) = mc_chunk_at m"
  "mc_chunk_at (m\<lparr>mc_evictions := a\<rparr>) = mc_chunk_at m"
  by (simp_all add: mc_chunk_at_def fun_eq_iff)

interpretation mem_chunks: chunk_store mc_chunks_ok mc_chunk_at MemoryCache_get_chunk
proof unfold_locales
  fix m i assume "mc_chunks_ok m"
  then have ok: "ARCCache_ok (mc_chunk_cache m)" by (simp add: mc_chunks_ok_def)
  obtain r a where g: "ARCCache_get_impl i (mc_chunk_cache m) = (r, a)" by fastforce
  show "fst (MemoryCache_get_chunk i m) = mc_chunk_at m i" "mc_chunks_ok (snd (MemoryCache_get_chunk i m))"
    "mc_chunk_at (snd (MemoryCache_get_chunk i m)) = mc_chunk_at m"
    using ARCCache_get_ok [OF ok, of i] ARCCache_get_frame(2) [of i "mc_chunk_cache m"] g \<open>mc_chunks_ok m\<close>
    by (auto simp: MemoryCache_get_chunk_def mc_chunk_at_def mc_chunks_ok_def fun_eq_iff split: option.splits)
qed

lemma MemoryCache_get_chunk_frame: "mc_descriptors (snd (MemoryCache_get_chunk i m)) = mc_descriptors m"
  by (simp add: MemoryCache_get_chunk_def split: prod.splits option.splits)

section \<open>Representation of a map of values\<close>

text \<open>
  \<open>MC_rep H S m A\<close>: the cache \<open>m\<close> stands for the map \<open>A\<close> of keys to values and metadata. Its
  descriptors are those of \<open>A\<close> exactly; its chunks are chunks of \<open>S\<close> under their identifiers, any
  number of which may have been evicted.
\<close>

definition MC_rep :: "hasher \<Rightarrow> Chunk set \<Rightarrow> MemoryCache \<Rightarrow> cache_map \<Rightarrow> bool" where
  "MC_rep H S m A =
     (mc_chunks_ok m \<and> chunks_sound H S (mc_chunk_at m) \<and> map_of (mc_descriptors m) = descriptors_of H A
      \<and> distinct (map fst (mc_descriptors m)) \<and> (\<forall>k v md. A k = Some (v, md) \<longrightarrow> value_ok S v))"

lemma MC_rep_counters [simp]:
  "MC_rep H S (m\<lparr>mc_hits := a\<rparr>) A = MC_rep H S m A" "MC_rep H S (m\<lparr>mc_misses := a\<rparr>) A = MC_rep H S m A"
  "MC_rep H S (m\<lparr>mc_partial_hits := a\<rparr>) A = MC_rep H S m A" "MC_rep H S (m\<lparr>mc_bytes_read := a\<rparr>) A = MC_rep H S m A"
  "MC_rep H S (m\<lparr>mc_bytes_written := a\<rparr>) A = MC_rep H S m A" "MC_rep H S (m\<lparr>mc_evictions := a\<rparr>) A = MC_rep H S m A"
  by (simp_all add: MC_rep_def mc_chunks_ok_def)

lemma assemble_value_all:
  assumes "fits v" and "unat off + unat len \<le> length v" and "len \<noteq> 0"
  shows "assemble_value (map (\<lambda>j. Some (chunk_of v j)) (needed_chunks (unat off) (unat len)))
           \<lparr>r_offset = off, r_length = len\<rparr> = subspan v (unat off) (unat len)"
proof -
  let ?a = "unat off div CS" and ?e = "(unat off + unat len - 1) div CS"
  have l: "0 < unat len" using assms(3) by (simp add: unat_gt_0)
  have ae: "?a \<le> ?e" using l by (intro div_le_mono) linarith
  have up: "unat off + unat len \<le> (?a + (Suc ?e - ?a)) * CS"
  proof -
    have "?a + (Suc ?e - ?a) = Suc ?e" using ae by simp
    then show ?thesis
      using div_mult_mod_eq [of "unat off + unat len - 1" CS] l
        mod_less_divisor [OF CHUNK_SIZE_pos(1), of "unat off + unat len - 1"]
      by (simp only: mult_Suc)
  qed
  have "?e * CS < length v"
    using assms(2) l div_times_less_eq_dividend [of "unat off + unat len - 1" CS] by linarith
  then have num: "?a + (Suc ?e - ?a) \<le> chunk_num v" using ae by (simp add: Suc_le_eq chunk_num_less)
  show ?thesis
    using assemble_loop_all [OF assms _ up num, of "off div CHUNK_SIZE" 0] ae
    by (simp add: assemble_value_def needed_chunks_def unat_div del: upt_Suc)
qed

lemma MemoryCache_read_stored:
  assumes "MC_rep H S m A" and "collision_free H S" and "value_ok S v"
    and "unat off + unat len \<le> length v"
    and "MemoryCache_read (mk_descriptor H key v md) \<lparr>r_offset = off, r_length = len\<rparr> opts m = (res, m')"
  shows "MC_rep H S m' A" and "range_read_ok H (mc_chunk_at m) v md opts off len res"
proof -
  let ?d = "mk_descriptor H key v md" and ?q = "\<lparr>r_offset = off, r_length = len\<rparr>"
  have cs: "chunks_sound H S (mc_chunk_at m)" and inv: "mc_chunks_ok m" using assms(1) by (simp_all add: MC_rep_def)
  obtain chunks af m1 where
    fl: "fetch_loop MemoryCache_get_chunk (ro_allow_partial opts) (vd_chunks ?d) (chunks_for_range ?d ?q) m = (chunks, af, m1)"
    by (metis surj_pair)
  have md: "vd_metadata ?d = md" by (simp add: mk_descriptor_def)
  note r = mem_chunks.range_read [where asm = "\<lambda>cs. assemble_value cs ?q", OF inv cs assms(2-4) fl
      assemble_value_all [OF value_ok_fits [OF assms(3)] assms(4)]]
  have "MC_rep H S m1 A"
    using assms(1) r(1,2) fetch_loop_frame [OF MemoryCache_get_chunk_frame fl] by (simp add: MC_rep_def)
  then show "MC_rep H S m' A"
    using assms(5) by (auto simp: MemoryCache_read_def fl Let_def split: if_splits)
  have "res = read_answer opts ?q md chunks af (assemble_value chunks ?q)"
    using assms(5) by (auto simp: MemoryCache_read_def fl Let_def read_answer_def md split: if_splits)
  then show "range_read_ok H (mc_chunk_at m) v md opts off len res" using r(3) by simp
qed

lemma MemoryCache_get_stored:
  assumes "MC_rep H S m A" and "collision_free H S" and "A key = Some (v, md)"
    and "\<not> CacheMetadata_is_expired now md" and "MemoryCache_get now key opts m = (res, m')"
  shows "MC_rep H S m' A" and "read_ok opts v md res"
    and "requested_bytes opts v \<noteq> [] \<Longrightarrow> rr_result res = Hit \<longleftrightarrow> all_present H (mc_chunk_at m) v (requested_range opts v)"
proof -
  let ?r = "requested_range opts v" and ?d = "mk_descriptor H key v md"
  have ok: "value_ok S v" using assms(1,3) by (auto simp: MC_rep_def)
  note f = value_ok_fits [OF ok]
  have d: "MemoryCache_get_descriptor m key = Some ?d"
    using assms(1,3) by (simp add: MC_rep_def MemoryCache_get_descriptor_def descriptors_of_def)
  have dd: "vd_total_size ?d = vec_size v" "vd_metadata ?d = md" by (simp_all add: mk_descriptor_def)
  have rng: "(case ro_range opts of Some r \<Rightarrow> r | None \<Rightarrow> \<lparr>r_offset = 0, r_length = vec_size v\<rparr>) = ?r"
    by (simp add: requested_range_def)
  note get = assms(5) [unfolded MemoryCache_get_def d option.case dd rng if_not_P [OF assms(4)] Let_def]
  have "MC_rep H S m' A \<and> read_ok opts v md res \<and>
      (requested_bytes opts v \<noteq> [] \<longrightarrow> (rr_result res = Hit \<longleftrightarrow> all_present H (mc_chunk_at m) v ?r))"
  proof (cases "vec_size v \<le> r_offset ?r")
    case True
    then show ?thesis using assms(1) get True read_ok_beyond(1) [OF f True] read_ok_beyond(2) [OF f True, of md] by (auto simp: ReadResult_new_def)
  next
    case False
    let ?len = "min (r_length ?r) (vec_size v - r_offset ?r)"
    have "MemoryCache_read ?d \<lparr>r_offset = r_offset ?r, r_length = ?len\<rparr> opts m = (res, m')"
      using get False by (cases ?r) simp
    note s = MemoryCache_read_stored [OF assms(1,2) ok clamp_facts(2) [OF f False] this]
    show ?thesis using s(1) read_ok_clamped [OF f False s(2)] by blast
  qed
  then show "MC_rep H S m' A" and "read_ok opts v md res"
    and "requested_bytes opts v \<noteq> [] \<Longrightarrow> rr_result res = Hit \<longleftrightarrow> all_present H (mc_chunk_at m) v ?r"
    by blast+
qed

lemma MemoryCache_get_absent:
  assumes "MC_rep H S m A" and "A key = None" and "MemoryCache_get now key opts m = (res, m')"
  shows "MC_rep H S m' A" and "res = ReadResult_new"
  using assms by (auto simp: MC_rep_def MemoryCache_get_def MemoryCache_get_descriptor_def descriptors_of_def
      mc_chunks_ok_def mc_chunk_at_def chunks_sound_def)

lemma MemoryCache_get_expired:
  assumes "MC_rep H S m A" and "A key = Some (v, md)" and "CacheMetadata_is_expired now md"
    and "MemoryCache_get now key opts m = (res, m')"
  shows "MC_rep H S m' A" and "res = ReadResult_new\<lparr>rr_result := Expired\<rparr>"
proof -
  have "MemoryCache_get_descriptor m key = Some (mk_descriptor H key v md)"
    using assms(1,2) by (simp add: MC_rep_def MemoryCache_get_descriptor_def descriptors_of_def)
  then have "res = ReadResult_new\<lparr>rr_result := Expired\<rparr> \<and> m' = m\<lparr>mc_misses := mc_misses m + 1\<rparr>"
    using assms(3,4) by (simp add: MemoryCache_get_def mk_descriptor_def)
  then show "MC_rep H S m' A" "res = ReadResult_new\<lparr>rr_result := Expired\<rparr>" using assms(1) by simp_all
qed

section \<open>Storing and removing\<close>

lemma MemoryCache_put_chunk_ok:
  assumes "MC_rep H S m A" and "d \<in> S" and "MemoryCache_put_chunk H (Some d) m = (st, m')"
  shows "st = Status_ok" and "MC_rep H S m' A" and "mc_chunk_at m' \<subseteq>\<^sub>m (mc_chunk_at m)(Chunk_id H d \<mapsto> d)"
    and "mc_chunk_at m' (Chunk_id H d) = Some d" and "arc_capacity (mc_chunk_cache m') = arc_capacity (mc_chunk_cache m)"
proof -
  let ?c = "mc_chunk_cache m"
  obtain ev a where p: "ARCCache_put_impl (Chunk_id H d) (Some d) ?c = (ev, a)" by fastforce
  have ok: "ARCCache_ok ?c" "arc_size_fn ?c = shared_chunk_size" using assms(1) by (simp_all add: MC_rep_def mc_chunks_ok_def)
  note po = ARCCache_put_ok [OF ok(1) p]
  have m': "st = Status_ok" "m' = m\<lparr>mc_chunk_cache := a, mc_evictions := mc_evictions m + vec_size ev\<rparr>"
    using assms(3) p by (simp_all add: MemoryCache_put_chunk_def)
  obtain X where look: "ARCCache_lookup a = (ARCCache_lookup ?c |` X)(Chunk_id H d \<mapsto> Some d)"
    using po(2) by (simp add: arc_stored_def ARCCache_lookup_def)
  show "st = Status_ok" by (rule m'(1))
  show le: "mc_chunk_at m' \<subseteq>\<^sub>m (mc_chunk_at m)(Chunk_id H d \<mapsto> d)"
    and "mc_chunk_at m' (Chunk_id H d) = Some d"
    using look by (auto simp: m' mc_chunk_at_def map_le_def restrict_map_def split: if_splits)
  have "chunks_sound H S (mc_chunk_at m')"
    using le assms(1,2) chunks_sound_upd by (auto simp: MC_rep_def)
  then show "MC_rep H S m' A"
    using assms(1) po(1,4) ok(2) by (auto simp: m' MC_rep_def mc_chunks_ok_def mc_chunk_at_def)
  show "arc_capacity (mc_chunk_cache m') = arc_capacity ?c" using po(3) by (simp add: m')
qed

lemma MemoryCache_put_chunks_ok:
  assumes "MC_rep H S m A" and "set cs \<subseteq> S"
  shows "\<exists>m'. put_chunks_loop (MemoryCache_put_chunk H) H cs m = (Inr (map (Chunk_id H) cs), m') \<and> MC_rep H S m' A"
  using assms
proof (induction cs arbitrary: m)
  case (Cons c cs)
  obtain st m1 where p: "MemoryCache_put_chunk H (Some c) m = (st, m1)" by fastforce
  have "c \<in> S" using Cons.prems(2) by simp
  note s = MemoryCache_put_chunk_ok [OF Cons.prems(1) this p]
  from Cons.IH [OF s(2)] Cons.prems(2) show ?case using p s(1) by auto
qed simp

lemma MemoryCache_put_ok:
  assumes "MC_rep H S m A" and "value_ok S v" and "\<not> MAX_KEY_SIZE < CacheKey_size key" and "\<not> MAX_VALUE_SIZE < vec_size v"
  shows "\<exists>m1 m'. put_chunks_loop (MemoryCache_put_chunk H) H (split_value v) m = (Inr (map (Chunk_id H) (split_value v)), m1)
       \<and> MemoryCache_put H now key v opts m = (Status_ok, m') \<and> mc_chunk_cache m' = mc_chunk_cache m1
       \<and> MC_rep H S m' (A(key \<mapsto> (v, new_metadata now opts v (vec_size (split_value v)))))"
proof -
  have sub: "set (split_value v) \<subseteq> S" using assms(2) by (simp add: value_ok_def)
  obtain m1 where p: "put_chunks_loop (MemoryCache_put_chunk H) H (split_value v) m = (Inr (map (Chunk_id H) (split_value v)), m1)"
    and r: "MC_rep H S m1 A" using MemoryCache_put_chunks_ok [OF assms(1) sub] by blast
  let ?d = "mk_descriptor H key v (new_metadata now opts v (vec_size (split_value v)))"
  let ?m = "m1\<lparr>mc_descriptors := AList.update key ?d (mc_descriptors m1), mc_bytes_written := mc_bytes_written m1 + vec_size v\<rparr>"
  have "MemoryCache_put H now key v opts m = (Status_ok, ?m)"
    using assms(3,4) p by (simp add: MemoryCache_put_def MemoryCache_put_descriptor_def mk_descriptor_def Let_def)
  moreover have "MC_rep H S ?m (A(key \<mapsto> (v, new_metadata now opts v (vec_size (split_value v)))))"
    using r assms(2) by (auto simp: MC_rep_def mc_chunks_ok_def)
  ultimately show ?thesis using p by auto
qed

lemma MemoryCache_remove_chunks_ok:
  assumes "MC_rep H S m A"
  shows "MC_rep H S (fold (\<lambda>i m. snd (MemoryCache_remove_chunk i m)) ids m) A"
  using assms
proof (induction ids arbitrary: m)
  case (Cons i ids)
  have ok: "ARCCache_ok (mc_chunk_cache m)" "arc_size_fn (mc_chunk_cache m) = shared_chunk_size"
    using Cons.prems by (simp_all add: MC_rep_def mc_chunks_ok_def)
  have "MC_rep H S (snd (MemoryCache_remove_chunk i m)) A"
    using Cons.prems ARCCache_remove_ok [OF ok(1), of i] ok(2)
    by (auto simp: MC_rep_def mc_chunks_ok_def mc_chunk_at_def MemoryCache_remove_chunk_def chunks_sound_def split: if_splits)
  from Cons.IH [OF this] show ?case by simp
qed simp

lemma MemoryCache_remove_ok:
  assumes "MC_rep H S m A" and "MemoryCache_remove key opts m = (st, m')"
  shows "MC_rep H S m' (A(key := None))" and "Status_is_ok st \<longleftrightarrow> A key \<noteq> None"
    and "A key = None \<Longrightarrow> st_code st = NotFound \<and> m' = m"
proof -
  have d: "MemoryCache_get_descriptor m key = map_option (\<lambda>(v, md). mk_descriptor H key v md) (A key)"
    using assms(1) by (simp add: MC_rep_def MemoryCache_get_descriptor_def descriptors_of_def)
  show "Status_is_ok st \<longleftrightarrow> A key \<noteq> None" "A key = None \<Longrightarrow> st_code st = NotFound \<and> m' = m"
    using assms(2) d by (auto simp: MemoryCache_remove_def Let_def Status_error_def Status_is_ok_def Status_ok_def split: option.splits)
  show "MC_rep H S m' (A(key := None))"
  proof (cases "A key")
    case None
    then have "A(key := None) = A" by auto
    then show ?thesis using assms d None by (simp add: MemoryCache_remove_def)
  next
    case (Some x)
    then have "m' = snd (MemoryCache_remove_descriptor key
        (fold (\<lambda>i m. snd (MemoryCache_remove_chunk i m)) (vd_chunks (mk_descriptor H key (fst x) (snd x))) m))"
      using assms(2) d by (simp add: MemoryCache_remove_def Let_def case_prod_unfold)
    then show ?thesis
      using MemoryCache_remove_chunks_ok [OF assms(1)]
      by (auto simp: MC_rep_def MemoryCache_remove_descriptor_def mc_chunks_ok_def mc_chunk_at_def)
  qed
qed

section \<open>Reachable states\<close>

text \<open>
  The states of a memory cache under any sequence of its operations, with the map of the values its
  clients stored. \<open>S\<close> is the set of chunks of the values that are ever stored.
\<close>

inductive mc_reach :: "hasher \<Rightarrow> Chunk set \<Rightarrow> MemoryCache \<Rightarrow> cache_map \<Rightarrow> bool" for H S where
  mc_new: "mc_reach H S (MemoryCache_new cap) Map.empty"
| mc_get: "mc_reach H S m A \<Longrightarrow> MemoryCache_get now key ropts m = (res, m') \<Longrightarrow> mc_reach H S m' A"
| mc_put: "mc_reach H S m A \<Longrightarrow> value_ok S v \<Longrightarrow> MemoryCache_put H now key v wopts m = (st, m') \<Longrightarrow>
    mc_reach H S m' (if Status_is_ok st then A(key \<mapsto> (v, new_metadata now wopts v (vec_size (split_value v)))) else A)"
| mc_remove: "mc_reach H S m A \<Longrightarrow> MemoryCache_remove key dopts m = (st, m') \<Longrightarrow> mc_reach H S m' (A(key := None))"
| mc_put_chunk: "mc_reach H S m A \<Longrightarrow> d \<in> S \<Longrightarrow> MemoryCache_put_chunk H (Some d) m = (st, m') \<Longrightarrow> mc_reach H S m' A"
| mc_remove_chunk: "mc_reach H S m A \<Longrightarrow> MemoryCache_remove_chunk i m = (st, m') \<Longrightarrow> mc_reach H S m' A"
| mc_stop: "mc_reach H S m A \<Longrightarrow> mc_reach H S (MemoryCache_stop m) Map.empty"

inductive_cases mc_reach_cases: "mc_reach H S m A"

lemma MC_rep_new: "MC_rep H S (MemoryCache_new cap) Map.empty"
proof -
  have "mc_chunk_at (MemoryCache_new cap) = Map.empty"
    by (simp add: fun_eq_iff mc_chunk_at_def MemoryCache_new_def ARCCache_new_ok)
  then show ?thesis
    by (simp add: MC_rep_def mc_chunks_ok_def chunks_sound_def MemoryCache_new_def ARCCache_new_ok(1) descriptors_of_def)
       (simp add: ARCCache_new_def)
qed

lemma MC_rep_stop: "MC_rep H S m A \<Longrightarrow> MC_rep H S (MemoryCache_stop m) Map.empty"
  by (simp add: MC_rep_def mc_chunks_ok_def mc_chunk_at_def chunks_sound_def MemoryCache_stop_def ARCCache_clear_ok descriptors_of_def)
     (simp add: ARCCache_clear_def)

lemma MC_rep_get:
  assumes "MC_rep H S m A" and "collision_free H S" and "MemoryCache_get now key opts m = (res, m')"
  shows "MC_rep H S m' A"
proof (cases "A key")
  case None
  then show ?thesis using MemoryCache_get_absent(1) [OF assms(1) _ assms(3)] by blast
next
  case (Some x)
  then obtain v md where x: "A key = Some (v, md)" by (cases x) auto
  then show ?thesis
    using MemoryCache_get_expired(1) [OF assms(1) x _ assms(3)] MemoryCache_get_stored(1) [OF assms(1,2) x _ assms(3)] by blast
qed

lemma MC_rep_put:
  assumes "MC_rep H S m A" and "value_ok S v" and "MemoryCache_put H now key v opts m = (st, m')"
  shows "MC_rep H S m' (if Status_is_ok st then A(key \<mapsto> (v, new_metadata now opts v (vec_size (split_value v)))) else A)"
proof (cases "MAX_KEY_SIZE < CacheKey_size key \<or> MAX_VALUE_SIZE < vec_size v")
  case True
  then have "\<not> Status_is_ok st \<and> m' = m" using assms(3) by (auto simp: MemoryCache_put_def split: if_splits)
  then show ?thesis using assms(1) by simp
next
  case False
  then show ?thesis
    using MemoryCache_put_ok [OF assms(1,2), of key now opts] assms(3) by auto
qed

lemma mc_reach_rep:
  assumes "collision_free H S" and "mc_reach H S m A"
  shows "MC_rep H S m A"
  using assms(2)
proof induction
  case (mc_get m A now key ropts res m')
  then show ?case using MC_rep_get assms(1) by blast
next
  case (mc_put m A v now key wopts st m')
  then show ?case using MC_rep_put by blast
next
  case (mc_remove m A key dopts st m')
  then show ?case using MemoryCache_remove_ok(1) by blast
next
  case (mc_put_chunk m A d st m')
  then show ?case using MemoryCache_put_chunk_ok(2) by blast
next
  case (mc_remove_chunk m A i st m')
  then show ?case using MemoryCache_remove_chunks_ok [of H S m A "[i]"] by simp
qed (simp_all add: MC_rep_new MC_rep_stop)

section \<open>Storing without eviction\<close>

abbreviation mc_bytes :: "MemoryCache \<Rightarrow> nat" where
  "mc_bytes m \<equiv> ARCCache_bytes (mc_chunk_cache m)"

abbreviation mc_capacity :: "MemoryCache \<Rightarrow> u64" where
  "mc_capacity m \<equiv> arc_capacity (mc_chunk_cache m)"

lemma MemoryCache_put_chunk_fits:
  assumes "MC_rep H S m A" and "MemoryCache_put_chunk H (Some d) m = (st, m')" and "fits d"
    and "mc_bytes m + length d \<le> unat (mc_capacity m)"
  shows "mc_chunk_at m' = (mc_chunk_at m)(Chunk_id H d \<mapsto> d)" and "mc_bytes m' \<le> mc_bytes m + length d"
    and "mc_capacity m' = mc_capacity m"
proof -
  let ?c = "mc_chunk_cache m"
  obtain ev a where p: "ARCCache_put_impl (Chunk_id H d) (Some d) ?c = (ev, a)" by fastforce
  have ok: "ARCCache_ok ?c" "arc_size_fn ?c = shared_chunk_size" using assms(1) by (simp_all add: MC_rep_def mc_chunks_ok_def)
  have sz: "unat (arc_size_fn ?c (Some d)) = length d"
    using assms(3) by (simp add: ok(2) shared_chunk_size_def unat_vec_size)
  note ne = ARCCache_put_no_evict [OF ok(1) p] and po = ARCCache_put_ok [OF ok(1) p]
  have m': "m' = m\<lparr>mc_chunk_cache := a, mc_evictions := mc_evictions m + vec_size ev\<rparr>"
    using assms(2) p by (simp add: MemoryCache_put_chunk_def)
  have "ev = []" using ne(1) sz assms(4) by simp
  then have "ARCCache_lookup a = (ARCCache_lookup ?c)(Chunk_id H d \<mapsto> Some d)"
    using po(2) by (simp add: arc_stored_Nil ARCCache_lookup_def)
  then show "mc_chunk_at m' = (mc_chunk_at m)(Chunk_id H d \<mapsto> d)" by (auto simp: m' mc_chunk_at_def fun_eq_iff)
  show "mc_bytes m' \<le> mc_bytes m + length d" using ne(2) sz assms(4) by (simp add: m')
  show "mc_capacity m' = mc_capacity m" using po(3) by (simp add: m')
qed

lemma put_chunks_present:
  assumes "MC_rep H S m A" and "set cs \<subseteq> S" and "\<forall>d\<in>set cs. fits d"
    and "mc_bytes m + length (concat cs) \<le> unat (mc_capacity m)" and "collision_free H S"
    and "put_chunks_loop (MemoryCache_put_chunk H) H cs m = (r, m')"
  shows "\<forall>d\<in>S. mc_chunk_at m (Chunk_id H d) = Some d \<or> d \<in> set cs \<longrightarrow> mc_chunk_at m' (Chunk_id H d) = Some d"
  using assms
proof (induction cs arbitrary: m r)
  case (Cons c cs)
  obtain st m1 where p: "MemoryCache_put_chunk H (Some c) m = (st, m1)" by fastforce
  have c: "c \<in> S" "fits c" "mc_bytes m + length c \<le> unat (mc_capacity m)" using Cons.prems by simp_all
  note ok = MemoryCache_put_chunk_ok [OF Cons.prems(1) c(1) p]
  note fit = MemoryCache_put_chunk_fits [OF Cons.prems(1) p c(2,3)]
  obtain r1 where l: "put_chunks_loop (MemoryCache_put_chunk H) H cs m1 = (r1, m')"
    using Cons.prems(6) p ok(1) by (auto split: prod.splits sum.splits)
  have "mc_bytes m1 + length (concat cs) \<le> unat (mc_capacity m1)" using fit(2,3) Cons.prems(4) by simp
  note IH = Cons.IH [OF ok(2) _ _ this Cons.prems(5) l]
  show ?case
  proof (intro ballI impI)
    fix d assume "d \<in> S" and d: "mc_chunk_at m (Chunk_id H d) = Some d \<or> d \<in> set (c # cs)"
    then have "mc_chunk_at m1 (Chunk_id H d) = Some d \<or> d \<in> set cs"
      using fit(1) Chunk_id_inj [OF Cons.prems(5) c(1) \<open>d \<in> S\<close>] by (cases "d = c") auto
    then show "mc_chunk_at m' (Chunk_id H d) = Some d" using IH \<open>d \<in> S\<close> Cons.prems(2,3) by auto
  qed
qed simp

lemma put_then_present:
  assumes "MC_rep H S m A" and "collision_free H S" and "value_ok S v"
    and "\<not> MAX_KEY_SIZE < CacheKey_size key" and "\<not> MAX_VALUE_SIZE < vec_size v"
    and "mc_bytes m + length v \<le> unat (mc_capacity m)"
    and "MemoryCache_put H now key v opts m = (st, m')" and "j < chunk_num v"
  shows "mc_chunk_at m' (Chunk_id H (chunk_of v j)) = Some (chunk_of v j)"
proof -
  note f = value_ok_fits [OF assms(3)]
  obtain m1 where p: "put_chunks_loop (MemoryCache_put_chunk H) H (split_value v) m = (Inr (map (Chunk_id H) (split_value v)), m1)"
    and m': "mc_chunk_cache m' = mc_chunk_cache m1"
    using MemoryCache_put_ok [OF assms(1,3,4,5), of now opts] assms(7) by auto
  have "\<forall>d\<in>set (split_value v). fits d"
  proof
    fix d assume "d \<in> set (split_value v)"
    then have "length d \<le> CS" using split_value_nonempty [OF f] by blast
    then show "fits d" by (simp add: unat_CHUNK_SIZE)
  qed
  moreover have "mc_bytes m + length (concat (split_value v)) \<le> unat (mc_capacity m)"
    using assms(6) concat_split_value [OF f] by simp
  moreover have "set (split_value v) \<subseteq> S" using assms(3) by (simp add: value_ok_def)
  ultimately have "mc_chunk_at m1 (Chunk_id H d) = Some d" if "d \<in> set (split_value v)" for d
    using put_chunks_present [OF assms(1) _ _ _ assms(2) p] that by blast
  moreover have "chunk_of v j \<in> set (split_value v)" using assms(8) by (auto simp: split_value_chunks [OF f])
  moreover have "mc_chunk_at m' = mc_chunk_at m1" using m' by (simp add: mc_chunk_at_def fun_eq_iff)
  ultimately show ?thesis by simp
qed

section \<open>Properties\<close>

text \<open>
  C6. Reads of the memory cache are correct in every state its operations can reach, for any
  capacity and any evictions: a key that was never stored, or was removed, misses; an expired entry
  answers \<^verbatim>\<open>Expired\<close>; and an answer \<^verbatim>\<open>Hit\<close> carries exactly the requested bytes of the value last
  stored, with its metadata and range. A request for at least one byte hits exactly when all chunks
  it needs are held. Without \<^verbatim>\<open>allow_partial\<close> there is no partial answer. The hash is assumed to tell the
  stored chunks apart.
\<close>

theorem memory_get_sound:
  assumes "collision_free H S" and "mc_reach H S m A" and "MemoryCache_get now key opts m = (res, m')"
  shows "case A key of
      None \<Rightarrow> rr_result res = Miss \<and> rr_data res = []
    | Some (v, md) \<Rightarrow>
        if CacheMetadata_is_expired now md then rr_result res = Expired \<and> rr_data res = []
        else read_ok opts v md res
          \<and> (requested_bytes opts v \<noteq> [] \<longrightarrow> rr_result res = Hit \<longleftrightarrow> all_present H (mc_chunk_at m) v (requested_range opts v))"
proof -
  note rep = mc_reach_rep [OF assms(1,2)]
  show ?thesis
  proof (cases "A key")
    case None
    then show ?thesis using MemoryCache_get_absent(2) [OF rep _ assms(3)] by (simp add: ReadResult_new_def)
  next
    case (Some x)
    then obtain v md where x: "A key = Some (v, md)" by (cases x) auto
    then show ?thesis
      using MemoryCache_get_expired(2) [OF rep x _ assms(3)] MemoryCache_get_stored(2,3) [OF rep assms(1) x _ assms(3)]
      by (simp add: ReadResult_new_def)
  qed
qed

theorem memory_get_sound_witness:
  "\<exists>st m1 res m2. MemoryCache_put fnv_hasher 0 (CacheKey_new fnv_hasher ''k'') [1, 2, 3] WriteOptions_new (MemoryCache_new 1000) = (st, m1)
     \<and> Status_is_ok st \<and> MemoryCache_get 5 (CacheKey_new fnv_hasher ''k'') ReadOptions_new m1 = (res, m2)
     \<and> read_ok ReadOptions_new [1, 2, 3] (new_metadata 0 WriteOptions_new [1, 2, 3] 1) res"
proof -
  let ?H = fnv_hasher and ?v = "[1, 2, 3] :: byte list" and ?k = "CacheKey_new fnv_hasher ''k''"
  have ok: "value_ok {?v} ?v" by (rule small_value_ok) simp
  have sz: "\<not> MAX_KEY_SIZE < CacheKey_size ?k" "\<not> MAX_VALUE_SIZE < vec_size ?v"
    by (simp_all add: MAX_KEY_SIZE_def MAX_VALUE_SIZE_def CacheKey_size_def CacheKey_new_def vec_size_def)
  have n: "vec_size (split_value ?v) = 1"
    using split_value_chunks [of ?v] by (simp add: vec_size_def chunk_num_def unat_CHUNK_SIZE)
  obtain m1 where p: "MemoryCache_put ?H 0 ?k ?v WriteOptions_new (MemoryCache_new 1000) = (Status_ok, m1)"
    using MemoryCache_put_ok [OF MC_rep_new ok sz, of ?H 1000 0 WriteOptions_new] by blast
  obtain res m2 where g: "MemoryCache_get 5 ?k ReadOptions_new m1 = (res, m2)" by fastforce
  have r: "mc_reach ?H {?v} m1 [?k \<mapsto> (?v, new_metadata 0 WriteOptions_new ?v 1)]"
    using mc_reach.mc_put [OF mc_reach.mc_new ok p] n by simp
  have "read_ok ReadOptions_new ?v (new_metadata 0 WriteOptions_new ?v 1) res"
    using memory_get_sound [OF collision_free_singleton r g]
    by (simp add: CacheMetadata_is_expired_def new_metadata_def expiry_def WriteOptions_new_def)
  then show ?thesis using p g by auto
qed

lemma MemoryCache_put_then_get:
  assumes "MC_rep H S m A" and "collision_free H S" and "value_ok S v" and "v \<noteq> []"
    and "CacheKey_size key \<le> MAX_KEY_SIZE" and "vec_size v \<le> MAX_VALUE_SIZE"
    and "mc_bytes m + length v \<le> unat (mc_capacity m)"
    and "\<not> CacheMetadata_is_expired later (new_metadata now opts v (vec_size (split_value v)))" and "ro_range ropts = None"
  shows "\<exists>m'. MemoryCache_put H now key v opts m = (Status_ok, m')
       \<and> MC_rep H S m' (A(key \<mapsto> (v, new_metadata now opts v (vec_size (split_value v)))))
       \<and> rr_result (fst (MemoryCache_get later key ropts m')) = Hit \<and> rr_data (fst (MemoryCache_get later key ropts m')) = v"
proof -
  note f = value_ok_fits [OF assms(3)]
  let ?md = "new_metadata now opts v (vec_size (split_value v))"
  have sz: "\<not> MAX_KEY_SIZE < CacheKey_size key" "\<not> MAX_VALUE_SIZE < vec_size v" using assms(5,6) by simp_all
  obtain m' where p: "MemoryCache_put H now key v opts m = (Status_ok, m')"
    and r: "MC_rep H S m' (A(key \<mapsto> (v, ?md)))" using MemoryCache_put_ok [OF assms(1,3) sz] by blast
  obtain res m'' where g: "MemoryCache_get later key ropts m' = (res, m'')" by fastforce
  have rng: "requested_range ropts v = \<lparr>r_offset = 0, r_length = vec_size v\<rparr>"
    using assms(9) by (simp add: requested_range_def)
  have bytes: "requested_bytes ropts v = v" using f by (simp add: requested_bytes_def rng unat_vec_size)
  have "all_present H (mc_chunk_at m') v (requested_range ropts v)"
    unfolding all_present_def rng
    using put_then_present [OF assms(1,2,3) sz assms(7) p] needed_chunks_below [of 0 "length v" v] assms(4) f
    by (simp add: unat_vec_size)
  then have "rr_result res = Hit" "read_ok ropts v ?md res"
    using MemoryCache_get_stored(2,3) [OF r assms(2) _ assms(8) g] bytes assms(4) by simp_all
  then show ?thesis using p g r bytes by (auto simp: read_ok_def)
qed

text \<open>
  C7. A value stored while the cache has room for it (the bytes held plus the length of the value do
  not exceed the capacity) is read back whole: the store succeeds and the next read of the key,
  before the entry expires, is a \<^verbatim>\<open>Hit\<close> with the same bytes.
\<close>

theorem memory_put_get:
  assumes "collision_free H S" and "mc_reach H S m A" and "value_ok S v" and "v \<noteq> []"
    and "CacheKey_size key \<le> MAX_KEY_SIZE" and "vec_size v \<le> MAX_VALUE_SIZE"
    and "mc_bytes m + length v \<le> unat (mc_capacity m)"
    and "\<not> CacheMetadata_is_expired later (new_metadata now opts v (vec_size (split_value v)))"
  shows "\<exists>m' res m''. MemoryCache_put H now key v opts m = (Status_ok, m')
       \<and> MemoryCache_get later key ReadOptions_new m' = (res, m'')
       \<and> rr_result res = Hit \<and> rr_data res = v"
  using MemoryCache_put_then_get [OF mc_reach_rep [OF assms(1,2)] assms(1,3-8), of ReadOptions_new]
  by (metis prod.collapse ReadOptions_new_def ReadOptions.select_convs(4))

theorem memory_put_get_witness:
  "\<exists>m' res m''. MemoryCache_put fnv_hasher 0 (CacheKey_new fnv_hasher ''k'') [1, 2, 3] WriteOptions_new (MemoryCache_new 1000) = (Status_ok, m')
     \<and> MemoryCache_get 5 (CacheKey_new fnv_hasher ''k'') ReadOptions_new m' = (res, m'') \<and> rr_result res = Hit \<and> rr_data res = [1, 2, 3]"
  by (rule memory_put_get [OF collision_free_singleton mc_reach.mc_new small_value_ok])
     (simp_all add: MAX_KEY_SIZE_def MAX_VALUE_SIZE_def CacheKey_size_def CacheKey_new_def vec_size_def
        MemoryCache_new_def ARCCache_new_def ARCCache_bytes_def arc_bytes_def
        CacheMetadata_is_expired_def new_metadata_def expiry_def WriteOptions_new_def)

text \<open>
  C21. The availability check of the memory cache is exact: for a stored key and a non-empty request
  inside the value it returns, it reports the entry with its metadata, its missing ranges are
  exactly the requested bytes whose chunk is not in the cache, in increasing order with gaps, and
  every byte it reports available is in a chunk the cache holds.
\<close>

theorem memory_check_exact:
  assumes "collision_free H S" and "mc_reach H S m A" and "A key = Some (v, md)"
    and "unat (r_offset r) + unat (r_length r) \<le> length v" and "r_length r \<noteq> 0"
  shows "\<exists>res. MemoryCache_check key (Some r) m = Some res \<and> av_exists res \<and> av_metadata res = Some md
       \<and> ranges_sep (av_missing_ranges res)
       \<and> ranges_set (av_missing_ranges res) = Range_bytes r - held_bytes H (MemoryCache_has_chunk m) v
       \<and> ranges_set (av_available_ranges res) \<subseteq> held_bytes H (MemoryCache_has_chunk m) v
       \<and> (AvailabilityResult_is_complete res \<longleftrightarrow> Range_bytes r \<subseteq> held_bytes H (MemoryCache_has_chunk m) v)"
proof -
  note rep = mc_reach_rep [OF assms(1,2)]
  let ?d = "mk_descriptor H key v md" and ?has = "MemoryCache_has_chunk m"
  let ?pv = "mark_loop ?has (vd_chunks ?d) (chunks_for_range ?d r) (PartialValue_new ?d)"
  have d: "MemoryCache_get_descriptor m key = Some ?d" and ok: "value_ok S v"
    using rep assms(3) by (auto simp: MC_rep_def MemoryCache_get_descriptor_def descriptors_of_def)
  have r: "\<lparr>r_offset = r_offset r, r_length = r_length r\<rparr> = r" by simp
  note c = check_partial_correct(1-3,5,6) [where H = H and key = key and md = md and has = ?has, OF ok assms(4,5), unfolded r]
    and rok = check_partial_correct(4) [OF ok assms(4,5), unfolded r]
  obtain ms where ms: "missing_ranges ?pv r = Some ms" "ranges_sep ms" "ranges_set ms = Range_bytes r - held_bytes H ?has v"
    using missing_ranges_correct [OF rok c(2,3)] unfolding c(1) by blast
  have "ranges_set (available_ranges ?pv) \<subseteq> held_bytes H ?has v"
    using available_loop_correct [OF c(5), of 0] c(4) by (simp add: available_ranges_def)
  moreover have "ms = [] \<longleftrightarrow> Range_bytes r \<subseteq> held_bytes H ?has v"
    using ranges_set_empty_iff [OF ms(2)] ms(3) by auto
  ultimately show ?thesis
    using d ms by (simp add: MemoryCache_check_def Let_def mk_descriptor_def AvailabilityResult_is_complete_def)
qed

theorem memory_check_exact_witness:
  "\<exists>m1 res. MemoryCache_put fnv_hasher 0 (CacheKey_new fnv_hasher ''k'') [1, 2, 3] WriteOptions_new (MemoryCache_new 1000) = (Status_ok, m1)
     \<and> MemoryCache_check (CacheKey_new fnv_hasher ''k'') (Some \<lparr>r_offset = 1, r_length = 2\<rparr>) m1 = Some res \<and> av_exists res"
proof -
  let ?H = fnv_hasher and ?v = "[1, 2, 3] :: byte list" and ?k = "CacheKey_new fnv_hasher ''k''"
  have ok: "value_ok {?v} ?v" by (rule small_value_ok) simp
  have sz: "\<not> MAX_KEY_SIZE < CacheKey_size ?k" "\<not> MAX_VALUE_SIZE < vec_size ?v"
    by (simp_all add: MAX_KEY_SIZE_def MAX_VALUE_SIZE_def CacheKey_size_def CacheKey_new_def vec_size_def)
  obtain m1 where p: "MemoryCache_put ?H 0 ?k ?v WriteOptions_new (MemoryCache_new 1000) = (Status_ok, m1)"
    using MemoryCache_put_ok [OF MC_rep_new ok sz, of ?H 1000 0 WriteOptions_new] by blast
  have r: "mc_reach ?H {?v} m1 [?k \<mapsto> (?v, new_metadata 0 WriteOptions_new ?v (vec_size (split_value ?v)))]"
    using mc_reach.mc_put [OF mc_reach.mc_new ok p] by simp
  show ?thesis
    using memory_check_exact [OF collision_free_singleton r, of ?k ?v _ "\<lparr>r_offset = 1, r_length = 2\<rparr>"] p by auto
qed

section \<open>Behaviour to know about\<close>

text \<open>
  Chunks are shared between keys with equal content but not counted: removing one key removes the
  chunks of the other, whose reads then miss although it was never removed.
\<close>

lemma remove_chunks_absent:
  assumes "MC_rep H S m A" and "i \<in> set ids"
  shows "mc_chunk_at (fold (\<lambda>i m. snd (MemoryCache_remove_chunk i m)) ids m) i = None"
proof -
  have step: "mc_chunk_at (snd (MemoryCache_remove_chunk j n)) = (mc_chunk_at n)(j := None)" if "MC_rep H S n A" for j n
  proof -
    have "ARCCache_ok (mc_chunk_cache n)" using that by (simp add: MC_rep_def mc_chunks_ok_def)
    then show ?thesis
      by (auto simp: mc_chunk_at_def MemoryCache_remove_chunk_def fun_eq_iff ARCCache_remove_ok(2))
  qed
  have "mc_chunk_at (fold (\<lambda>i m. snd (MemoryCache_remove_chunk i m)) ids m) i = None"
    if "MC_rep H S m A" "i \<in> set ids \<or> mc_chunk_at m i = None" for m
    using that
  proof (induction ids arbitrary: m)
    case (Cons j ids)
    have "MC_rep H S (snd (MemoryCache_remove_chunk j m)) A"
      using MemoryCache_remove_chunks_ok [OF Cons.prems(1), of "[j]"] by simp
    from Cons.IH [OF this] show ?case using Cons.prems step [OF Cons.prems(1), of j] by auto
  qed simp
  then show ?thesis using assms by blast
qed

lemma remove_loses_shared_chunks:
  assumes "MC_rep H S m A" and "collision_free H S" and "A k1 = Some (v, md1)" and "A k2 = Some (v, md2)" and "k1 \<noteq> k2"
    and "v \<noteq> []" and "\<not> CacheMetadata_is_expired now md2" and "MemoryCache_remove k1 dopts m = (st, m')"
    and "MemoryCache_get now k2 (ReadOptions_new\<lparr>ro_allow_partial := False\<rparr>) m' = (res, m'')"
  shows "MC_rep H S m' (A(k1 := None))" and "rr_result res = Miss"
proof -
  let ?o = "ReadOptions_new\<lparr>ro_allow_partial := False\<rparr>"
  have ok: "value_ok S v" using assms(1,3) by (auto simp: MC_rep_def)
  note f = value_ok_fits [OF ok]
  show rep: "MC_rep H S m' (A(k1 := None))" using MemoryCache_remove_ok(1) [OF assms(1,8)] .
  let ?ids = "map (Chunk_id H) (split_value v)"
  have "MemoryCache_get_descriptor m k1 = Some (mk_descriptor H k1 v md1)"
    using assms(1,3) by (simp add: MC_rep_def MemoryCache_get_descriptor_def descriptors_of_def)
  then have m': "mc_chunk_at m' = mc_chunk_at (fold (\<lambda>i m. snd (MemoryCache_remove_chunk i m)) ?ids m)"
    using assms(8) by (auto simp: MemoryCache_remove_def Let_def mk_descriptor_def MemoryCache_remove_descriptor_def)
  have lv: "0 < length v" using assms(6) by simp
  have "chunk_of v 0 \<in> set (split_value v)"
    using lv chunk_num_less [of 0 v] by (simp add: split_value_chunks [OF f])
  then have gone: "mc_chunk_at m' (Chunk_id H (chunk_of v 0)) = None"
    unfolding m' by (intro remove_chunks_absent [OF assms(1)]) simp
  have bytes: "requested_bytes ?o v = v"
    using f by (simp add: requested_bytes_def requested_range_def ReadOptions_new_def unat_vec_size)
  have "0 \<in> set (needed_chunks 0 (length v))" using byte_in_needed [of 0 0 "length v"] lv by simp
  then have "\<not> all_present H (mc_chunk_at m') v (requested_range ?o v)"
    using gone f by (auto simp: all_present_def requested_range_def ReadOptions_new_def unat_vec_size)
  then have "rr_result res \<noteq> Hit" "read_ok ?o v md2 res"
    using MemoryCache_get_stored(2,3) [OF rep assms(2) _ assms(7,9)] assms(4-6) bytes by auto
  then show "rr_result res = Miss" by (auto simp: read_ok_def)
qed

text \<open>
  A partial answer skips missing chunks without a mark: the bytes after a hole follow the bytes
  before it, and \<^verbatim>\<open>actual_range\<close> claims them to be contiguous from the start of the request.
\<close>

lemma partial_hit_has_hole:
  assumes "length a = CS" and "length c = CS"
  shows "assemble_value [Some a, None, Some c] \<lparr>r_offset = 0, r_length = 3 * CHUNK_SIZE\<rparr> = a @ c"
proof -
  have s: "vec_size a = CHUNK_SIZE" "vec_size c = CHUNK_SIZE" using assms by (simp_all add: vec_size_def)
  have f: "fits a" "fits c" using assms by (simp_all add: unat_CHUNK_SIZE)
  have r: "Chunk_read a 0 CHUNK_SIZE = a" "Chunk_read c 0 CHUNK_SIZE = c"
    using f assms by (simp_all add: Chunk_read_subspan)
  show ?thesis using s r by (simp add: assemble_value_def CHUNK_SIZE_def)
qed

text \<open>A read of zero bytes inside a stored value is answered with a miss.\<close>

lemma zero_length_read_misses:
  assumes "MemoryCache_get_descriptor m key = Some d" and "\<not> CacheMetadata_is_expired now (vd_metadata d)"
    and "r_length r = 0" and "r_offset r < vd_total_size d"
  shows "rr_result (fst (MemoryCache_get now key (ReadOptions_new\<lparr>ro_range := Some r\<rparr>) m)) = Miss"
  using assms by (simp add: MemoryCache_get_def MemoryCache_read_def chunks_for_range_def ReadResult_new_def not_le)

end
