(* ===== verification/Wire.thy ===== *)
theory Wire
  imports Cxx_Strings
begin

text \<open>
  Byte formats. A decoder takes the bytes still unread and returns a value with the bytes after it,
  or the exception it throws. \<open>reads d bs x\<close> says that \<open>d\<close> consumes exactly \<open>bs\<close> and returns \<open>x\<close> whatever
  follows; \<open>extends d\<close> that more input never changes a successful decoding. The locale \<open>wire\<close> is the
  contract between an encoder and a decoder; from its two laws follow that encodings are
  uniquely readable, and that a truncated encoding is never decoded.
\<close>

type_synonym 'a decoder = "byte list \<Rightarrow> ('a \<times> byte list) result"

definition dec_return :: "'a \<Rightarrow> 'a decoder" where
  "dec_return x data = Inr (x, data)"

definition dec_throw :: "cxx_exn \<Rightarrow> 'a decoder" where
  "dec_throw e data = Inl e"

definition dec_bind :: "'a decoder \<Rightarrow> ('a \<Rightarrow> 'b decoder) \<Rightarrow> 'b decoder" where
  "dec_bind d f data = (case d data of Inl e \<Rightarrow> Inl e | Inr (x, data') \<Rightarrow> f x data')"

fun dec_times :: "nat \<Rightarrow> 'a decoder \<Rightarrow> 'a list decoder" where
  "dec_times 0 d = dec_return []"
| "dec_times (Suc n) d = dec_bind d (\<lambda>x. dec_bind (dec_times n d) (\<lambda>xs. dec_return (x # xs)))"

section \<open>Decoders that read an encoding\<close>

definition reads :: "'a decoder \<Rightarrow> byte list \<Rightarrow> 'a \<Rightarrow> bool" where
  "reads d bs x \<longleftrightarrow> (\<forall>rest. d (bs @ rest) = Inr (x, rest))"

definition extends :: "'a decoder \<Rightarrow> bool" where
  "extends d \<longleftrightarrow> (\<forall>bs x rest more. d bs = Inr (x, rest) \<longrightarrow> d (bs @ more) = Inr (x, rest @ more))"

named_theorems wire_intros

lemma readsI: "(\<And>rest. d (bs @ rest) = Inr (x, rest)) \<Longrightarrow> reads d bs x"
  by (simp add: reads_def)

lemma readsD: "reads d bs x \<Longrightarrow> d (bs @ rest) = Inr (x, rest)"
  by (simp add: reads_def)

lemma reads_all: "reads d bs x \<Longrightarrow> d bs = Inr (x, [])"
  using readsD [of d bs x "[]"] by simp

lemma reads_return: "x = y \<Longrightarrow> reads (dec_return x) [] y"
  by (simp add: reads_def dec_return_def)

lemma reads_bind: "reads d as x \<Longrightarrow> reads (f x) bs y \<Longrightarrow> reads (dec_bind d f) (as @ bs) y"
  by (simp add: reads_def dec_bind_def)

lemma reads_bind_last: "reads d bs x \<Longrightarrow> reads (f x) [] y \<Longrightarrow> reads (dec_bind d f) bs y"
  using reads_bind [of d bs x f "[]"] by simp

lemma reads_times:
  "list_all2 (reads d) bss xs \<Longrightarrow> n = length xs \<Longrightarrow> reads (dec_times n d) (concat bss) xs"
proof (induction bss arbitrary: xs n)
  case Nil
  then show ?case by (simp add: reads_return)
next
  case (Cons bs bss)
  obtain x ys where xs: "xs = x # ys" and x: "reads d bs x" and ys: "list_all2 (reads d) bss ys"
    using Cons.prems(1) by (auto simp: list_all2_Cons1)
  have "reads (dec_times (length ys) d) (concat bss) ys" using Cons.IH [OF ys refl] .
  then have "reads (dec_times (Suc (length ys)) d) (bs @ concat bss) (x # ys)"
    unfolding dec_times.simps by (auto intro: reads_bind [OF x] reads_bind_last reads_return)
  then show ?case using xs Cons.prems(2) by simp
qed

lemma extendsI:
  "(\<And>bs x rest more. d bs = Inr (x, rest) \<Longrightarrow> d (bs @ more) = Inr (x, rest @ more)) \<Longrightarrow> extends d"
  by (auto simp: extends_def)

lemma extendsD: "extends d \<Longrightarrow> d bs = Inr (x, rest) \<Longrightarrow> d (bs @ more) = Inr (x, rest @ more)"
  by (auto simp: extends_def)

lemma extends_return [wire_intros]: "extends (dec_return x)"
  by (simp add: extends_def dec_return_def)

lemma extends_throw [wire_intros]: "extends (dec_throw e)"
  by (simp add: extends_def dec_throw_def)

lemma extends_bind [wire_intros]: "extends d \<Longrightarrow> (\<And>x. extends (f x)) \<Longrightarrow> extends (dec_bind d f)"
  by (rule extendsI) (auto simp: dec_bind_def extendsD split: sum.split_asm)

lemma extends_if [wire_intros]: "extends d \<Longrightarrow> extends d' \<Longrightarrow> extends (if b then d else d')"
  by simp

lemma extends_times [wire_intros]: "extends d \<Longrightarrow> extends (dec_times n d)"
  by (induction n) (auto intro!: wire_intros)

text \<open>Once a decoder reads the whole of \<open>bs\<close>, it fails on every proper prefix of \<open>bs\<close>.\<close>

lemma reads_truncated:
  assumes "reads d bs x" and "extends d" and "n < length bs"
  shows "\<exists>e. d (take n bs) = Inl e"
proof (cases "d (take n bs)")
  case (Inr y)
  obtain z rest where "d (take n bs) = Inr (z, rest)" using Inr by (cases y) simp
  from extendsD [OF assms(2) this, of "drop n bs"] have "d bs = Inr (z, rest @ drop n bs)" by simp
  then show ?thesis using reads_all [OF assms(1)] assms(3) by simp
qed simp

section \<open>The contract of an encoder and its decoder\<close>

locale wire =
  fixes enc :: "'a \<Rightarrow> byte list"
    and dec :: "'a decoder"
    and ok :: "'a \<Rightarrow> bool"
  assumes dec_enc: "ok x \<Longrightarrow> reads dec (enc x) x"
    and dec_extends: "extends dec"
begin

lemma enc_unique: "ok x \<Longrightarrow> ok y \<Longrightarrow> enc x @ r = enc y @ s \<Longrightarrow> x = y \<and> r = s"
  by (metis readsD [OF dec_enc] sum.inject(2) prod.inject)

lemma dec_truncated: "ok x \<Longrightarrow> n < length (enc x) \<Longrightarrow> \<exists>e. dec (take n (enc x)) = Inl e"
  using reads_truncated [OF dec_enc dec_extends] .

lemma dec_list:
  assumes "\<forall>x\<in>set xs. ok x" and "n = length xs"
  shows "reads (dec_times n dec) (concat (map enc xs)) xs"
  using assms by (intro reads_times) (auto simp: list_all2_map1 list.rel_refl_strong dec_enc)

lemma dec_list_extends: "extends (dec_times n dec)"
  by (intro wire_intros dec_extends)

end

end
