(* ===== verification/Codec.thy ===== *)
theory Codec
  imports Wire Chunks
begin

text \<open>
  The wire protocol between nodes (\<^verbatim>\<open>protocol.hpp\<close>, \<^verbatim>\<open>codec.cpp\<close>). An encoding helper of the source
  appends to a buffer; here it returns the bytes it appends. A decoding helper advances the view it
  is given; here it is a decoder. \<^verbatim>\<open>memcpy\<close> of an integer copies its little-endian bytes, as on the
  machines the program runs on. Reading \<^verbatim>\<open>data[0]\<close> of an empty view is \<open>Undefined_behaviour\<close>.
\<close>

unbundle bit_operations_syntax

section \<open>Integers and byte strings\<close>

definition encode_u16 :: "u16 \<Rightarrow> byte list" where
  "encode_u16 v = [ucast (v AND 0xFF), ucast (drop_bit 8 v AND 0xFF)]"

definition encode_u32 :: "u32 \<Rightarrow> byte list" where
  "encode_u32 v = [ucast (v AND 0xFF), ucast (drop_bit 8 v AND 0xFF),
                   ucast (drop_bit 16 v AND 0xFF), ucast (drop_bit 24 v AND 0xFF)]"

definition encode_u64 :: "u64 \<Rightarrow> byte list" where
  "encode_u64 v = map (\<lambda>i. ucast (drop_bit (i * 8) v AND 0xFF)) [0..<8]"

definition encode_string :: "string \<Rightarrow> byte list" where
  "encode_string str = encode_u32 (ucast (vec_size str)) @ bytes_of str"

definition encode_bytes :: "byte list \<Rightarrow> byte list" where
  "encode_bytes data = encode_u32 (ucast (vec_size data)) @ data"

definition decode_u16 :: "u16 decoder" where
  "decode_u16 data =
     (if length data < 2 then Inl (Runtime_error ''Truncated u16'')
      else Inr (ucast (data ! 0) OR push_bit 8 (ucast (data ! 1)), drop 2 data))"

definition decode_u32 :: "u32 decoder" where
  "decode_u32 data =
     (if length data < 4 then Inl (Runtime_error ''Truncated u32'')
      else Inr (ucast (data ! 0) OR push_bit 8 (ucast (data ! 1))
                OR push_bit 16 (ucast (data ! 2)) OR push_bit 24 (ucast (data ! 3)), drop 4 data))"

definition decode_u64 :: "u64 decoder" where
  "decode_u64 data =
     (if length data < 8 then Inl (Runtime_error ''Truncated u64'')
      else Inr (fold (\<lambda>i v. v OR push_bit (i * 8) (ucast (data ! i))) [0..<8] 0, drop 8 data))"

definition decode_bytes :: "byte list decoder" where
  "decode_bytes = dec_bind decode_u32 (\<lambda>len data.
     if length data < unat len then Inl (Runtime_error ''Truncated bytes'')
     else Inr (take (unat len) data, drop (unat len) data))"

definition decode_string :: "string decoder" where
  "decode_string = dec_bind decode_u32 (\<lambda>len data.
     if length data < unat len then Inl (Runtime_error ''Truncated string'')
     else Inr (string_of (take (unat len) data), drop (unat len) data))"

text \<open>A flag byte: \<^verbatim>\<open>push_back(b ? 1 : 0)\<close>, and \<^verbatim>\<open>data[0] != 0\<close> followed by \<^verbatim>\<open>data.subspan(1)\<close>.\<close>

definition encode_flag :: "bool \<Rightarrow> byte list" where
  "encode_flag b = [if b then 1 else 0]"

definition decode_flag :: "bool decoder" where
  "decode_flag data = (case data of [] \<Rightarrow> Inl Undefined_behaviour | b # data' \<Rightarrow> Inr (b \<noteq> 0, data'))"

text \<open>The flag that ends a \<^verbatim>\<open>DeleteResponse\<close>: \<^verbatim>\<open>data[0] != 0\<close> alone, the view is not advanced.\<close>

definition peek_flag :: "bool decoder" where
  "peek_flag data = (case data of [] \<Rightarrow> Inl Undefined_behaviour | b # _ \<Rightarrow> Inr (b \<noteq> 0, data))"

section \<open>Messages\<close>

datatype MessageType = MT_Hello | MT_HelloAck | MT_GossipPush | MT_GossipPull | MT_GossipAck
  | MT_Get | MT_GetResponse | MT_Put | MT_PutResponse | MT_Delete | MT_DeleteResponse
  | MT_Check | MT_CheckResponse | MT_GetChunk | MT_GetChunkResponse | MT_PutChunk
  | MT_PutChunkResponse | MT_HasChunk | MT_HasChunkResponse | MT_StreamStart | MT_StreamData
  | MT_StreamEnd | MT_StreamAck | MT_StreamAbort | MT_NodeJoin | MT_NodeLeave | MT_NodeStatus
  | MT_Error

fun MessageType_value :: "MessageType \<Rightarrow> u16" where
  "MessageType_value MT_Hello = 0x0001"
| "MessageType_value MT_HelloAck = 0x0002"
| "MessageType_value MT_GossipPush = 0x0010"
| "MessageType_value MT_GossipPull = 0x0011"
| "MessageType_value MT_GossipAck = 0x0012"
| "MessageType_value MT_Get = 0x0100"
| "MessageType_value MT_GetResponse = 0x0101"
| "MessageType_value MT_Put = 0x0102"
| "MessageType_value MT_PutResponse = 0x0103"
| "MessageType_value MT_Delete = 0x0104"
| "MessageType_value MT_DeleteResponse = 0x0105"
| "MessageType_value MT_Check = 0x0106"
| "MessageType_value MT_CheckResponse = 0x0107"
| "MessageType_value MT_GetChunk = 0x0200"
| "MessageType_value MT_GetChunkResponse = 0x0201"
| "MessageType_value MT_PutChunk = 0x0202"
| "MessageType_value MT_PutChunkResponse = 0x0203"
| "MessageType_value MT_HasChunk = 0x0204"
| "MessageType_value MT_HasChunkResponse = 0x0205"
| "MessageType_value MT_StreamStart = 0x0300"
| "MessageType_value MT_StreamData = 0x0301"
| "MessageType_value MT_StreamEnd = 0x0302"
| "MessageType_value MT_StreamAck = 0x0303"
| "MessageType_value MT_StreamAbort = 0x0304"
| "MessageType_value MT_NodeJoin = 0x0400"
| "MessageType_value MT_NodeLeave = 0x0401"
| "MessageType_value MT_NodeStatus = 0x0402"
| "MessageType_value MT_Error = 0xFFFF"

record MessageHeader =
  hdr_magic :: u32
  hdr_version :: u16
  hdr_type :: u16
  hdr_length :: u32
  hdr_request_id :: u32
  hdr_timestamp :: u64

definition PROTOCOL_VERSION :: u16 where
  "PROTOCOL_VERSION = 1"

definition MAGIC :: u32 where
  "MAGIC = 0x454C4341"

definition HEADER_SIZE :: nat where
  "HEADER_SIZE = 24"

definition is_compatible_version :: "u16 \<Rightarrow> bool" where
  "is_compatible_version remote_version = (remote_version = PROTOCOL_VERSION)"

record NodeInfo =
  ni_id :: NodeId
  ni_address :: string
  ni_port :: u16
  ni_memory_capacity :: u64
  ni_memory_used :: u64
  ni_disk_capacity :: u64
  ni_disk_used :: u64
  ni_generation :: u64
  ni_state :: u32
  ni_last_seen :: Timestamp

text \<open>The enumerators of \<^verbatim>\<open>NodeInfo::NodeState\<close>; the field holds any 32-bit value.\<close>

datatype NodeState = NS_Unknown | NS_Joining | NS_Active | NS_Leaving | NS_Failed

fun NodeState_value :: "NodeState \<Rightarrow> u32" where
  "NodeState_value NS_Unknown = 0"
| "NodeState_value NS_Joining = 1"
| "NodeState_value NS_Active = 2"
| "NodeState_value NS_Leaving = 3"
| "NodeState_value NS_Failed = 4"

text \<open>One constructor per message structure, its arguments the members in order.\<close>

datatype Message =
    HelloMessage NodeInfo string "string list"
  | HelloAckMessage NodeInfo bool string
  | GossipPushMessage NodeId "NodeInfo list"
  | GossipPullMessage NodeId "NodeId list"
  | GossipAckMessage NodeId "NodeInfo list"
  | GetMessage CacheKey bool "Range option"
  | GetResponseMessage CacheResult "CacheMetadata option" "byte list" Range
  | PutMessage CacheKey "byte list" "int option" u32
  | PutResponseMessage ErrorCode string
  | DeleteMessage CacheKey
  | DeleteResponseMessage ErrorCode bool
  | CheckMessage CacheKey "Range option"
  | CheckResponseMessage bool "CacheMetadata option" "Range list"
  | GetChunkMessage ChunkId u64 u64
  | GetChunkResponseMessage bool "byte list"
  | PutChunkMessage ChunkId "byte list"
  | PutChunkResponseMessage ErrorCode
  | HasChunkMessage "ChunkId list"
  | HasChunkResponseMessage "bool list"
  | StreamStartMessage u32 CacheKey u64 u64
  | StreamDataMessage u32 u64 "byte list"
  | StreamEndMessage u32 Hash128
  | StreamAckMessage u32 u64 ErrorCode
  | StreamAbortMessage u32 ErrorCode string
  | ErrorMessage ErrorCode string u32

text \<open>The integer value of an enumerator, and \<^verbatim>\<open>static_cast\<close> from an integer.\<close>

fun CacheResult_value :: "CacheResult \<Rightarrow> u32" where
  "CacheResult_value Hit = 0"
| "CacheResult_value Miss = 1"
| "CacheResult_value PartialHit = 2"
| "CacheResult_value Error = 3"
| "CacheResult_value Expired = 4"
| "CacheResult_value ResultNotFound = 5"
| "CacheResult_value (OtherResult n) = n"

definition CacheResult_cast :: "u32 \<Rightarrow> CacheResult" where
  "CacheResult_cast n =
     (let rs = [Hit, Miss, PartialHit, Error, Expired, ResultNotFound]
      in if unat n < length rs then rs ! unat n else OtherResult n)"

fun ErrorCode_value :: "ErrorCode \<Rightarrow> u32" where
  "ErrorCode_value Ok = 0"
| "ErrorCode_value KeyTooLarge = 1"
| "ErrorCode_value ValueTooLarge = 2"
| "ErrorCode_value NotFound = 3"
| "ErrorCode_value PartialData = 4"
| "ErrorCode_value NetworkError = 5"
| "ErrorCode_value DiskError = 6"
| "ErrorCode_value Timeout = 7"
| "ErrorCode_value InvalidArgument = 8"
| "ErrorCode_value OutOfMemory = 9"
| "ErrorCode_value InternalError = 10"
| "ErrorCode_value (OtherError n) = n"

definition ErrorCode_cast :: "u32 \<Rightarrow> ErrorCode" where
  "ErrorCode_cast n =
     (let cs = [Ok, KeyTooLarge, ValueTooLarge, NotFound, PartialData, NetworkError, DiskError,
                Timeout, InvalidArgument, OutOfMemory, InternalError]
      in if unat n < length cs then cs ! unat n else OtherError n)"

section \<open>Encoding\<close>

definition encode_header :: "u64 \<Rightarrow> MessageType \<Rightarrow> u32 \<Rightarrow> u32 \<Rightarrow> byte list" where
  "encode_header now_ms type payload_len request_id =
     encode_u32 MAGIC @ encode_u16 PROTOCOL_VERSION @ encode_u16 (MessageType_value type)
     @ encode_u32 payload_len @ encode_u32 request_id @ encode_u64 now_ms"

definition encode_node_info :: "NodeInfo \<Rightarrow> byte list" where
  "encode_node_info info =
     encode_u64 (node_value (ni_id info)) @ encode_string (ni_address info) @ encode_u16 (ni_port info)
     @ encode_u64 (ni_memory_capacity info) @ encode_u64 (ni_memory_used info)
     @ encode_u64 (ni_disk_capacity info) @ encode_u64 (ni_disk_used info)
     @ encode_u64 (ni_generation info) @ encode_u32 (ni_state info)"

definition encode_range :: "Range \<Rightarrow> byte list" where
  "encode_range r = encode_u64 (r_offset r) @ encode_u64 (r_length r)"

definition encode_metadata :: "CacheMetadata \<Rightarrow> byte list" where
  "encode_metadata md =
     encode_u64 (md_total_size md) @ encode_u64 (md_chunk_count md) @ encode_u32 (md_flags md)"

definition encode_optional :: "('a \<Rightarrow> byte list) \<Rightarrow> 'a option \<Rightarrow> byte list" where
  "encode_optional enc v = encode_flag (v \<noteq> None) @ (case v of None \<Rightarrow> [] | Some x \<Rightarrow> enc x)"

definition encode_seconds :: "int \<Rightarrow> byte list" where
  "encode_seconds ttl = encode_u64 (word_of_int ttl)"

fun encode_payload :: "Message \<Rightarrow> MessageType \<times> byte list" where
  "encode_payload (HelloMessage sender cluster_name capabilities) =
     (MT_Hello, encode_node_info sender @ encode_string cluster_name
        @ encode_u32 (ucast (vec_size capabilities)) @ concat (map encode_string capabilities))"
| "encode_payload (HelloAckMessage sender accepted reject_reason) =
     (MT_HelloAck, encode_node_info sender @ encode_flag accepted @ encode_string reject_reason)"
| "encode_payload (GossipPushMessage sender nodes) =
     (MT_GossipPush, encode_u64 (node_value sender) @ encode_u32 (ucast (vec_size nodes))
        @ concat (map encode_node_info nodes))"
| "encode_payload (GetMessage key metadata_only rng) =
     (MT_Get, encode_string (ck_data key) @ encode_flag metadata_only @ encode_optional encode_range rng)"
| "encode_payload (GetResponseMessage res metadata data actual_range) =
     (MT_GetResponse, encode_u32 (CacheResult_value res) @ encode_optional encode_metadata metadata
        @ encode_bytes data @ encode_range actual_range)"
| "encode_payload (PutMessage key data ttl flags) =
     (MT_Put, encode_string (ck_data key) @ encode_bytes data
        @ encode_optional encode_seconds ttl @ encode_u32 flags)"
| "encode_payload (PutResponseMessage code message) =
     (MT_PutResponse, encode_u32 (ErrorCode_value code) @ encode_string message)"
| "encode_payload (DeleteMessage key) = (MT_Delete, encode_string (ck_data key))"
| "encode_payload (DeleteResponseMessage code existed) =
     (MT_DeleteResponse, encode_u32 (ErrorCode_value code) @ encode_flag existed)"
| "encode_payload (CheckMessage key rng) =
     (MT_Check, encode_string (ck_data key) @ encode_optional encode_range rng)"
| "encode_payload (CheckResponseMessage exists metadata available) =
     (MT_CheckResponse, encode_flag exists @ encode_optional encode_metadata metadata
        @ encode_u32 (ucast (vec_size available)) @ concat (map encode_range available))"
| "encode_payload (GetChunkMessage cid offset len) =
     (MT_GetChunk, encode_u64 (low (chunk_hash cid)) @ encode_u64 (high (chunk_hash cid))
        @ encode_u64 offset @ encode_u64 len)"
| "encode_payload (GetChunkResponseMessage found data) =
     (MT_GetChunkResponse, encode_flag found @ encode_bytes data)"
| "encode_payload (ErrorMessage code message original_request_id) =
     (MT_Error, encode_u32 (ErrorCode_value code) @ encode_string message
        @ encode_u32 original_request_id)"
| "encode_payload msg = (MT_Error, [])"

definition encode :: "u64 \<Rightarrow> Message \<Rightarrow> u32 \<Rightarrow> byte list" where
  "encode now_ms msg request_id =
     (let (type, payload) = encode_payload msg
      in encode_header now_ms type (ucast (vec_size payload)) request_id @ payload)"

section \<open>Decoding\<close>

definition parse_header :: "byte list \<Rightarrow> MessageHeader result" where
  "parse_header data =
     (if length data < HEADER_SIZE then Inl (Runtime_error ''Truncated header'')
      else bind_res
        (dec_bind decode_u32 (\<lambda>magic. dec_bind decode_u16 (\<lambda>version. dec_bind decode_u16 (\<lambda>type.
         dec_bind decode_u32 (\<lambda>len. dec_bind decode_u32 (\<lambda>request_id. dec_bind decode_u64 (\<lambda>timestamp.
           dec_return \<lparr>hdr_magic = magic, hdr_version = version, hdr_type = type, hdr_length = len,
                       hdr_request_id = request_id, hdr_timestamp = timestamp\<rparr>)))))) data)
        (\<lambda>(hdr, _). if hdr_magic hdr \<noteq> MAGIC then Inl (Runtime_error ''Invalid magic number'')
                    else Inr hdr))"

definition decode_node_info :: "NodeInfo decoder" where
  "decode_node_info =
     dec_bind decode_u64 (\<lambda>id. dec_bind decode_string (\<lambda>address. dec_bind decode_u16 (\<lambda>port.
     dec_bind decode_u64 (\<lambda>memory_capacity. dec_bind decode_u64 (\<lambda>memory_used.
     dec_bind decode_u64 (\<lambda>disk_capacity. dec_bind decode_u64 (\<lambda>disk_used.
     dec_bind decode_u64 (\<lambda>generation. dec_bind decode_u32 (\<lambda>state.
       dec_return \<lparr>ni_id = NodeId id, ni_address = address, ni_port = port,
         ni_memory_capacity = memory_capacity, ni_memory_used = memory_used,
         ni_disk_capacity = disk_capacity, ni_disk_used = disk_used, ni_generation = generation,
         ni_state = state, ni_last_seen = 0\<rparr>)))))))))"

definition decode_range :: "Range decoder" where
  "decode_range = dec_bind decode_u64 (\<lambda>offset. dec_bind decode_u64 (\<lambda>len.
     dec_return \<lparr>r_offset = offset, r_length = len\<rparr>))"

definition decode_metadata :: "CacheMetadata decoder" where
  "decode_metadata =
     dec_bind decode_u64 (\<lambda>total_size. dec_bind decode_u64 (\<lambda>chunk_count. dec_bind decode_u32 (\<lambda>flags.
       dec_return \<lparr>md_total_size = total_size, md_chunk_count = chunk_count, md_created_at = 0,
         md_last_accessed = 0, md_expires_at = None, md_flags = flags\<rparr>)))"

definition decode_seconds :: "int decoder" where
  "decode_seconds = dec_bind decode_u64 (\<lambda>t. dec_return (sint t))"

definition decode_optional :: "'a decoder \<Rightarrow> 'a option decoder" where
  "decode_optional dec = dec_bind decode_flag (\<lambda>present.
     if present then dec_bind dec (\<lambda>x. dec_return (Some x)) else dec_return None)"

text \<open>
  The switch of \<^verbatim>\<open>Codec::decode\<close>. The view is not used after the last member, so it makes no
  difference that \<^verbatim>\<open>DeleteResponse\<close> does not advance it past its flag.
\<close>

definition decode_payload :: "hasher \<Rightarrow> u16 \<Rightarrow> Message decoder" where
  "decode_payload H type =
     (if type = MessageType_value MT_Hello then
        dec_bind decode_node_info (\<lambda>sender. dec_bind decode_string (\<lambda>cluster_name.
        dec_bind decode_u32 (\<lambda>cap_count. dec_bind (dec_times (unat cap_count) decode_string) (\<lambda>capabilities.
          dec_return (HelloMessage sender cluster_name capabilities)))))
      else if type = MessageType_value MT_HelloAck then
        dec_bind decode_node_info (\<lambda>sender. dec_bind decode_flag (\<lambda>accepted.
        dec_bind decode_string (\<lambda>reject_reason.
          dec_return (HelloAckMessage sender accepted reject_reason))))
      else if type = MessageType_value MT_GossipPush then
        dec_bind decode_u64 (\<lambda>sender. dec_bind decode_u32 (\<lambda>node_count.
        dec_bind (dec_times (unat node_count) decode_node_info) (\<lambda>nodes.
          dec_return (GossipPushMessage (NodeId sender) nodes))))
      else if type = MessageType_value MT_Get then
        dec_bind decode_string (\<lambda>key. dec_bind decode_flag (\<lambda>metadata_only.
        dec_bind (decode_optional decode_range) (\<lambda>rng.
          dec_return (GetMessage (CacheKey_new H key) metadata_only rng))))
      else if type = MessageType_value MT_GetResponse then
        dec_bind decode_u32 (\<lambda>res. dec_bind (decode_optional decode_metadata) (\<lambda>metadata.
        dec_bind decode_bytes (\<lambda>data. dec_bind decode_range (\<lambda>actual_range.
          dec_return (GetResponseMessage (CacheResult_cast res) metadata data actual_range)))))
      else if type = MessageType_value MT_Put then
        dec_bind decode_string (\<lambda>key. dec_bind decode_bytes (\<lambda>data.
        dec_bind (decode_optional decode_seconds) (\<lambda>ttl.
        dec_bind decode_u32 (\<lambda>flags.
          dec_return (PutMessage (CacheKey_new H key) data ttl flags)))))
      else if type = MessageType_value MT_PutResponse then
        dec_bind decode_u32 (\<lambda>code. dec_bind decode_string (\<lambda>message.
          dec_return (PutResponseMessage (ErrorCode_cast code) message)))
      else if type = MessageType_value MT_Delete then
        dec_bind decode_string (\<lambda>key. dec_return (DeleteMessage (CacheKey_new H key)))
      else if type = MessageType_value MT_DeleteResponse then
        dec_bind decode_u32 (\<lambda>code. dec_bind peek_flag (\<lambda>existed.
          dec_return (DeleteResponseMessage (ErrorCode_cast code) existed)))
      else if type = MessageType_value MT_Error then
        dec_bind decode_u32 (\<lambda>code. dec_bind decode_string (\<lambda>message.
        dec_bind decode_u32 (\<lambda>original_request_id.
          dec_return (ErrorMessage (ErrorCode_cast code) message original_request_id))))
      else dec_throw (Runtime_error ''Unknown message type''))"

definition decode :: "hasher \<Rightarrow> byte list \<Rightarrow> (Message \<times> MessageHeader) result" where
  "decode H data = bind_res (parse_header data) (\<lambda>header.
     bind_res (decode_payload H (hdr_type header) (drop HEADER_SIZE data)) (\<lambda>(msg, _).
       Inr (msg, header)))"

section \<open>The formats keep the contract of the wire\<close>

text \<open>A word is the disjunction of its bytes, each shifted to its place.\<close>

lemma low_byte: "(ucast (ucast (w AND 0xFF) :: byte) :: 'a::len word) = take_bit 8 w"
proof -
  have "w AND 0xFF = take_bit 8 w" by (simp add: take_bit_eq_mask mask_eq_exp_minus_1)
  then show ?thesis by (auto intro!: bit_word_eqI simp: bit_simps)
qed

lemma take_bit_next_byte:
  "take_bit n v OR push_bit n (take_bit 8 (drop_bit n v)) = take_bit (n + 8) (v :: 'a::len word)"
  by (rule bit_word_eqI) (auto simp: bit_simps)

lemma word_bytes:
  "fold (\<lambda>i w. w OR push_bit (i * 8) (take_bit 8 (drop_bit (i * 8) v))) [0..<n] 0
   = take_bit (n * 8) (v :: 'a::len word)"
  by (induction n) (simp_all add: take_bit_next_byte add.commute)

lemma u16_bytes: "take_bit 8 v OR push_bit 8 (take_bit 8 (drop_bit 8 v)) = (v :: u16)"
  using take_bit_next_byte [of 8 v] by (simp add: take_bit_word_eq_self)

lemma u32_bytes:
  "take_bit 8 v OR push_bit 8 (take_bit 8 (drop_bit 8 v)) OR push_bit 16 (take_bit 8 (drop_bit 16 v))
     OR push_bit 24 (take_bit 8 (drop_bit 24 v)) = (v :: u32)"
  using take_bit_next_byte [of 8 v] take_bit_next_byte [of 16 v] take_bit_next_byte [of 24 v]
  by (simp add: take_bit_word_eq_self flip: or.assoc)

lemma length_encode [simp]:
  "length (encode_u16 a) = 2" "length (encode_u32 b) = 4" "length (encode_u64 c) = 8"
  "length (encode_flag f) = 1"
  by (simp_all add: encode_u16_def encode_u32_def encode_u64_def encode_flag_def)

lemma extends_fixed:
  assumes "\<And>xs ys. length xs = n \<Longrightarrow> f (xs @ ys) = f xs"
  shows "extends (\<lambda>data. if length data < n then Inl e else Inr (f data, drop n data))"
proof (rule extendsI)
  fix bs x rest more
  assume "(if length bs < n then Inl e else Inr (f bs, drop n bs)) = Inr (x, rest)"
  then have "n \<le> length bs" "f bs = x" "drop n bs = rest" by (auto split: if_splits)
  moreover have "f (bs @ more) = f bs"
    using assms [of "take n bs" "drop n bs @ more"] assms [of "take n bs" "drop n bs"] \<open>n \<le> length bs\<close>
    by (simp flip: append_assoc)
  ultimately show "(if length (bs @ more) < n then Inl e else Inr (f (bs @ more), drop n (bs @ more)))
      = Inr (x, rest @ more)" by simp
qed

interpretation w16: wire encode_u16 decode_u16 "\<lambda>_. True"
proof
  show "reads decode_u16 (encode_u16 v) v" for v
    by (rule readsI) (simp add: decode_u16_def encode_u16_def low_byte u16_bytes)
  show "extends decode_u16"
    unfolding decode_u16_def by (rule extends_fixed) (simp add: nth_append)
qed

interpretation w32: wire encode_u32 decode_u32 "\<lambda>_. True"
proof
  show "reads decode_u32 (encode_u32 v) v" for v
    by (rule readsI) (simp add: decode_u32_def encode_u32_def low_byte u32_bytes)
  show "extends decode_u32"
    unfolding decode_u32_def by (rule extends_fixed) (simp add: nth_append)
qed

lemma encode_u64_nth: "i < 8 \<Longrightarrow> (encode_u64 v @ rest) ! i = ucast (drop_bit (i * 8) v AND 0xFF)"
  by (simp add: encode_u64_def nth_append del: upt_Suc)

interpretation w64: wire encode_u64 decode_u64 "\<lambda>_. True"
proof
  show "reads decode_u64 (encode_u64 v) v" for v
  proof (rule readsI)
    fix rest
    have "fold (\<lambda>i w. w OR push_bit (i * 8) (ucast ((encode_u64 v @ rest) ! i))) [0..<8] 0
        = fold (\<lambda>i w. w OR push_bit (i * 8) (take_bit 8 (drop_bit (i * 8) v))) [0..<8] (0 :: u64)"
      by (rule fold_cong) (simp_all add: encode_u64_nth low_byte)
    also have "\<dots> = v" by (simp only: word_bytes) (simp add: take_bit_word_eq_self)
    finally show "decode_u64 (encode_u64 v @ rest) = Inr (v, rest)"
      by (simp add: decode_u64_def)
  qed
  show "extends decode_u64"
    unfolding decode_u64_def
    by (rule extends_fixed) (auto intro!: fold_cong simp: nth_append)
qed

interpretation wflag: wire encode_flag decode_flag "\<lambda>_. True"
proof
  show "reads decode_flag (encode_flag b) b" for b
    by (rule readsI) (simp add: decode_flag_def encode_flag_def)
  show "extends decode_flag"
    by (rule extendsI) (auto simp: decode_flag_def split: list.splits)
qed

abbreviation fits32 :: "'a list \<Rightarrow> bool" where
  "fits32 xs \<equiv> length xs < 2 ^ 32"

lemma unat_size32: "fits32 xs \<Longrightarrow> unat (ucast (vec_size xs) :: u32) = length xs"
  by (simp add: vec_size_def unsigned_ucast_eq unat_of_nat take_bit_nat_eq_self)

lemma extends_counted:
  "extends (\<lambda>data. if length data < n then Inl e else Inr (f (take n data), drop n data))"
  by (rule extends_fixed) simp

interpretation wbytes: wire encode_bytes decode_bytes fits32
proof
  show "reads decode_bytes (encode_bytes v) v" if "fits32 v" for v
    unfolding decode_bytes_def encode_bytes_def
    by (rule reads_bind [OF w32.dec_enc [OF TrueI]]) (simp add: reads_def unat_size32 [OF that])
  show "extends decode_bytes"
    unfolding decode_bytes_def by (intro wire_intros w32.dec_extends extends_counted [where f = "\<lambda>x. x"])
qed

interpretation wstring: wire encode_string decode_string fits32
proof
  show "reads decode_string (encode_string v) v" if "fits32 v" for v
    unfolding decode_string_def encode_string_def
    by (rule reads_bind [OF w32.dec_enc [OF TrueI]]) (simp add: reads_def unat_size32 [OF that])
  show "extends decode_string"
    unfolding decode_string_def by (intro wire_intros w32.dec_extends extends_counted)
qed

text \<open>Evaluation of a decoder on an encoding, as equations for the simplifier.\<close>

lemmas leaf_eqs = w16.dec_enc [OF TrueI, THEN readsD] w32.dec_enc [OF TrueI, THEN readsD]
  w64.dec_enc [OF TrueI, THEN readsD] wflag.dec_enc [OF TrueI, THEN readsD]
  wbytes.dec_enc [THEN readsD] wstring.dec_enc [THEN readsD]

lemmas wire_eqs = dec_bind_def dec_return_def leaf_eqs

lemmas leaf_extends = w16.dec_extends w32.dec_extends w64.dec_extends wflag.dec_extends
  wbytes.dec_extends wstring.dec_extends

text \<open>
  Time stamps do not travel: \<open>info_on_wire\<close> and \<open>md_on_wire\<close> are what the receiver reconstructs.
\<close>

definition info_on_wire :: "NodeInfo \<Rightarrow> NodeInfo" where
  "info_on_wire info = info\<lparr>ni_last_seen := 0\<rparr>"

definition md_on_wire :: "CacheMetadata \<Rightarrow> CacheMetadata" where
  "md_on_wire md = md\<lparr>md_created_at := 0, md_last_accessed := 0, md_expires_at := None\<rparr>"

definition info_ok :: "NodeInfo \<Rightarrow> bool" where
  "info_ok info \<longleftrightarrow> fits32 (ni_address info)"

lemma reads_node_info: "info_ok info \<Longrightarrow> reads decode_node_info (encode_node_info info) (info_on_wire info)"
  unfolding decode_node_info_def encode_node_info_def info_ok_def
  by (rule readsI) (simp add: wire_eqs info_on_wire_def)

interpretation winfo: wire encode_node_info decode_node_info "\<lambda>info. info_ok info \<and> info_on_wire info = info"
proof
  show "reads decode_node_info (encode_node_info info) info"
    if "info_ok info \<and> info_on_wire info = info" for info
    using reads_node_info [of info] that by simp
  show "extends decode_node_info"
    unfolding decode_node_info_def by (intro wire_intros leaf_extends)
qed

interpretation wrange: wire encode_range decode_range "\<lambda>_. True"
proof
  show "reads decode_range (encode_range r) r" for r
    unfolding decode_range_def encode_range_def by (rule readsI) (simp add: wire_eqs)
  show "extends decode_range"
    unfolding decode_range_def by (intro wire_intros leaf_extends)
qed

interpretation wmeta: wire encode_metadata decode_metadata "\<lambda>md. md_on_wire md = md"
proof
  show "reads decode_metadata (encode_metadata md) md" if "md_on_wire md = md" for md
    unfolding decode_metadata_def encode_metadata_def
    by (rule readsI, subst that [symmetric]) (simp add: wire_eqs md_on_wire_def)
  show "extends decode_metadata"
    unfolding decode_metadata_def by (intro wire_intros leaf_extends)
qed

definition ttl_ok :: "int \<Rightarrow> bool" where
  "ttl_ok t \<longleftrightarrow> - (2 ^ 63) \<le> t \<and> t < 2 ^ 63"

interpretation wttl: wire encode_seconds decode_seconds ttl_ok
proof
  show "reads decode_seconds (encode_seconds t) t" if "ttl_ok t" for t
    unfolding decode_seconds_def encode_seconds_def using that
    by (intro readsI) (simp add: wire_eqs ttl_ok_def signed_of_int signed_take_bit_int_eq_self)
  show "extends decode_seconds"
    unfolding decode_seconds_def by (intro wire_intros leaf_extends)
qed

context wire
begin

lemma optional_reads:
  "pred_option ok v \<Longrightarrow> reads (decode_optional dec) (encode_optional enc v) v"
  by (rule readsI)
    (cases v; simp add: decode_optional_def encode_optional_def wire_eqs dec_enc [THEN readsD])

lemma optional_extends: "extends (decode_optional dec)"
  unfolding decode_optional_def by (intro wire_intros wflag.dec_extends dec_extends)

end

section \<open>Whole messages\<close>

fun on_wire :: "Message \<Rightarrow> Message" where
  "on_wire (HelloMessage sender name caps) = HelloMessage (info_on_wire sender) name caps"
| "on_wire (HelloAckMessage sender accepted reason) = HelloAckMessage (info_on_wire sender) accepted reason"
| "on_wire (GossipPushMessage sender nodes) = GossipPushMessage sender (map info_on_wire nodes)"
| "on_wire (GetResponseMessage res md data rng) = GetResponseMessage res (map_option md_on_wire md) data rng"
| "on_wire msg = msg"

definition key_ok :: "hasher \<Rightarrow> CacheKey \<Rightarrow> bool" where
  "key_ok H key \<longleftrightarrow> key = CacheKey_new H (ck_data key) \<and> fits32 (ck_data key)"

text \<open>
  A message as the program builds it: keys carry their own hashes, lengths fit their 32-bit fields,
  a time to live is a 64-bit count, and a code outside the enumerators does not pretend to be one.
\<close>

fun msg_ok :: "hasher \<Rightarrow> Message \<Rightarrow> bool" where
  "msg_ok H (HelloMessage sender name caps) =
     (info_ok sender \<and> fits32 name \<and> fits32 caps \<and> list_all fits32 caps)"
| "msg_ok H (HelloAckMessage sender accepted reason) = (info_ok sender \<and> fits32 reason)"
| "msg_ok H (GossipPushMessage sender nodes) = (fits32 nodes \<and> list_all info_ok nodes)"
| "msg_ok H (GetMessage key metadata_only rng) = key_ok H key"
| "msg_ok H (GetResponseMessage res md data rng) =
     (CacheResult_cast (CacheResult_value res) = res \<and> fits32 data)"
| "msg_ok H (PutMessage key data ttl flags) =
     (key_ok H key \<and> fits32 data \<and> pred_option ttl_ok ttl)"
| "msg_ok H (PutResponseMessage code message) =
     (ErrorCode_cast (ErrorCode_value code) = code \<and> fits32 message)"
| "msg_ok H (DeleteMessage key) = key_ok H key"
| "msg_ok H (DeleteResponseMessage code existed) = (ErrorCode_cast (ErrorCode_value code) = code)"
| "msg_ok H (ErrorMessage code message rid) =
     (ErrorCode_cast (ErrorCode_value code) = code \<and> fits32 message)"
| "msg_ok H _ = True"

text \<open>The messages \<^verbatim>\<open>decode\<close> has a case for, and those for which \<^verbatim>\<open>encode\<close> has one.\<close>

fun decodable :: "Message \<Rightarrow> bool" where
  "decodable (HelloMessage _ _ _) = True"
| "decodable (HelloAckMessage _ _ _) = True"
| "decodable (GossipPushMessage _ _) = True"
| "decodable (GetMessage _ _ _) = True"
| "decodable (GetResponseMessage _ _ _ _) = True"
| "decodable (PutMessage _ _ _ _) = True"
| "decodable (PutResponseMessage _ _) = True"
| "decodable (DeleteMessage _) = True"
| "decodable (DeleteResponseMessage _ _) = True"
| "decodable (ErrorMessage _ _ _) = True"
| "decodable _ = False"

fun encodable :: "Message \<Rightarrow> bool" where
  "encodable (CheckMessage _ _) = True"
| "encodable (CheckResponseMessage _ _ _) = True"
| "encodable (GetChunkMessage _ _ _) = True"
| "encodable (GetChunkResponseMessage _ _) = True"
| "encodable msg = decodable msg"

lemma encode_info_on_wire [simp]: "encode_node_info (info_on_wire info) = encode_node_info info"
  by (simp add: encode_node_info_def info_on_wire_def)

lemma encode_md_on_wire [simp]: "encode_metadata (md_on_wire md) = encode_metadata md"
  by (simp add: encode_metadata_def md_on_wire_def)

lemma encode_optional_md_on_wire [simp]:
  "encode_optional encode_metadata (map_option md_on_wire md) = encode_optional encode_metadata md"
  by (cases md) (simp_all add: encode_optional_def)

lemma md_on_wire_idem [simp]: "md_on_wire (md_on_wire md) = md_on_wire md"
  by (simp add: md_on_wire_def)

lemma reads_optional_md:
  "reads (decode_optional decode_metadata) (encode_optional encode_metadata md) (map_option md_on_wire md)"
proof -
  have "reads (decode_optional decode_metadata)
      (encode_optional encode_metadata (map_option md_on_wire md)) (map_option md_on_wire md)"
    by (rule wmeta.optional_reads) (simp add: option.pred_map comp_def option.pred_True)
  then show ?thesis by simp
qed

lemma reads_nodes:
  "list_all info_ok nodes \<Longrightarrow>
   reads (dec_times (length nodes) decode_node_info) (concat (map encode_node_info nodes)) (map info_on_wire nodes)"
  by (rule reads_times) (simp_all add: list_all2_map1 list_all2_map2 list_all_iff list.rel_refl_strong reads_node_info)

lemmas message_eqs = wire_eqs unat_size32 reads_node_info [THEN readsD] reads_optional_md [THEN readsD]
  reads_nodes [THEN readsD] wrange.dec_enc [OF TrueI, THEN readsD] wrange.optional_reads [THEN readsD]
  wttl.optional_reads [THEN readsD] wstring.dec_list [THEN readsD] key_ok_def option.pred_True

text \<open>Every kind consumes its payload, except that \<^verbatim>\<open>DeleteResponse\<close> leaves its last byte in the view.\<close>

fun is_delete_response :: "Message \<Rightarrow> bool" where
  "is_delete_response (DeleteResponseMessage _ _) = True"
| "is_delete_response _ = False"

lemma reads_payload:
  assumes "msg_ok H m" and "decodable m" and "\<not> is_delete_response m"
  shows "reads (decode_payload H (MessageType_value (fst (encode_payload m)))) (snd (encode_payload m)) (on_wire m)"
  using assms
  by (intro readsI, cases m; simp add: decode_payload_def message_eqs list_all_iff)

lemma decode_delete_response:
  "ErrorCode_cast (ErrorCode_value code) = code \<Longrightarrow>
   decode_payload H (MessageType_value MT_DeleteResponse) (encode_u32 (ErrorCode_value code) @ encode_flag existed @ rest)
   = Inr (DeleteResponseMessage code existed, encode_flag existed @ rest)"
  by (simp add: decode_payload_def message_eqs peek_flag_def encode_flag_def)

lemma decodes_payload:
  assumes "msg_ok H m" and "decodable m"
  shows "\<exists>rest. decode_payload H (MessageType_value (fst (encode_payload m))) (snd (encode_payload m)) = Inr (on_wire m, rest)"
proof (cases "is_delete_response m")
  case True
  then obtain code existed where "m = DeleteResponseMessage code existed" by (cases m) auto
  then show ?thesis using decode_delete_response [of code H existed "[]"] assms(1) by simp
next
  case False
  then show ?thesis using reads_all [OF reads_payload [OF assms False]] by blast
qed

lemma extends_peek: "extends peek_flag"
  by (rule extendsI) (auto simp: peek_flag_def split: list.splits)

lemma ck_data_new [simp]: "ck_data (CacheKey_new H key) = key"
  by (simp add: CacheKey_new_def)

lemma key_ok_new [simp]: "key_ok H (CacheKey_new H key) \<longleftrightarrow> fits32 key"
  by (simp add: key_ok_def)

lemma extends_payload: "extends (decode_payload H type)"
  unfolding decode_payload_def
  by (intro wire_intros leaf_extends extends_peek winfo.dec_extends wrange.dec_extends wrange.optional_extends
      wmeta.optional_extends wttl.optional_extends winfo.dec_list_extends wstring.dec_list_extends)

definition header_of :: "u64 \<Rightarrow> Message \<Rightarrow> u32 \<Rightarrow> MessageHeader" where
  "header_of now_ms msg request_id =
     \<lparr>hdr_magic = MAGIC, hdr_version = PROTOCOL_VERSION,
      hdr_type = MessageType_value (fst (encode_payload msg)),
      hdr_length = ucast (vec_size (snd (encode_payload msg))), hdr_request_id = request_id,
      hdr_timestamp = now_ms\<rparr>"

lemma length_encode_header [simp]: "length (encode_header now_ms type len rid) = HEADER_SIZE"
  by (simp add: encode_header_def HEADER_SIZE_def)

lemma parse_encode_header:
  "parse_header (encode_header now_ms type len rid @ rest) =
     Inr \<lparr>hdr_magic = MAGIC, hdr_version = PROTOCOL_VERSION, hdr_type = MessageType_value type,
          hdr_length = len, hdr_request_id = rid, hdr_timestamp = now_ms\<rparr>"
  by (simp add: parse_header_def) (simp add: encode_header_def wire_eqs)

lemma encode_split:
  "encode now_ms m rid = encode_header now_ms (fst (encode_payload m)) (ucast (vec_size (snd (encode_payload m)))) rid
     @ snd (encode_payload m)"
  by (simp add: encode_def Let_def split_def)

lemma parse_encode: "parse_header (encode now_ms m rid @ rest) = Inr (header_of now_ms m rid)"
  by (simp add: encode_split parse_encode_header header_of_def)

lemma decode_after_header:
  "decode H (encode_header now_ms type len rid @ payload) =
     bind_res (decode_payload H (MessageType_value type) payload) (\<lambda>(msg, _).
       Inr (msg, \<lparr>hdr_magic = MAGIC, hdr_version = PROTOCOL_VERSION, hdr_type = MessageType_value type,
          hdr_length = len, hdr_request_id = rid, hdr_timestamp = now_ms\<rparr>))"
  by (simp add: decode_def parse_encode_header)

lemma decode_encode:
  assumes "msg_ok H m" and "decodable m"
  shows "decode H (encode now_ms m rid) = Inr (on_wire m, header_of now_ms m rid)"
  using decodes_payload [OF assms]
  by (auto simp: encode_split decode_after_header header_of_def)

lemma decode_short_header: "length data < HEADER_SIZE \<Longrightarrow> decode H data = Inl (Runtime_error ''Truncated header'')"
  by (simp add: decode_def parse_header_def)

lemma decode_undecodable:
  "\<not> decodable m \<Longrightarrow> decode H (encode now_ms m rid) =
     Inl (Runtime_error (if encodable m then ''Unknown message type'' else ''Truncated u32''))"
  by (cases m) (simp_all add: encode_split decode_after_header decode_after_header [of _ _ _ _ _ "[]", simplified]
      decode_payload_def dec_throw_def dec_bind_def decode_u32_def)

lemma unknown_type_fails:
  "\<not> decodable m \<Longrightarrow> snd (encode_payload m) \<noteq> [] \<Longrightarrow>
   decode_payload H (MessageType_value (fst (encode_payload m))) data = Inl (Runtime_error ''Unknown message type'')"
  by (cases m) (simp_all add: decode_payload_def dec_throw_def)

lemma truncated_delete_response:
  assumes "n < 5"
  shows "\<exists>e. decode_payload H (MessageType_value MT_DeleteResponse) (take n (encode_u32 c @ encode_flag b)) = Inl e"
proof (cases "n < 4")
  case True
  then have "take n (encode_u32 c @ encode_flag b) = take n (encode_u32 c)" by simp
  moreover obtain e where "decode_u32 (take n (encode_u32 c)) = Inl e" using w32.dec_truncated [OF TrueI, of n c] True by auto
  ultimately show ?thesis by (simp add: decode_payload_def dec_bind_def del: take_append)
next
  case False
  then have "take n (encode_u32 c @ encode_flag b) = encode_u32 c @ []" using assms by simp
  then show ?thesis
    by (simp only: decode_payload_def) (simp add: wire_eqs w32.dec_enc [OF TrueI, THEN reads_all] dec_bind_def peek_flag_def)
qed

lemma decode_truncated_payload:
  assumes "msg_ok H m" and "n < length (snd (encode_payload m))"
  shows "\<exists>e. decode_payload H (MessageType_value (fst (encode_payload m))) (take n (snd (encode_payload m))) = Inl e"
proof (cases "decodable m")
  case True
  show ?thesis
  proof (cases "is_delete_response m")
    case True
    then obtain code existed where m: "m = DeleteResponseMessage code existed" by (cases m) auto
    then show ?thesis using truncated_delete_response [of n H "ErrorCode_value code" existed] assms(2) by simp
  next
    case False
    then show ?thesis using reads_truncated [OF reads_payload [OF assms(1) True False] extends_payload assms(2)] by simp
  qed
next
  case False
  then show ?thesis using unknown_type_fails [of m] assms(2) by fastforce
qed

text \<open>
  A frame that was cut short is never taken for a message: decoding any proper prefix of an
  encoded message fails.
\<close>

lemma codec_truncated:
  assumes "msg_ok H m" and "n < length (encode now_ms m rid)"
  shows "\<exists>e. decode H (take n (encode now_ms m rid)) = Inl e"
proof (cases "n < HEADER_SIZE")
  case True
  then show ?thesis using decode_short_header [of "take n (encode now_ms m rid)"] by auto
next
  case False
  then have "n - HEADER_SIZE < length (snd (encode_payload m))" using assms(2) by (simp add: encode_split)
  from decode_truncated_payload [OF assms(1) this] False show ?thesis
    by (auto simp: encode_split decode_after_header)
qed

lemma encode_length:
  "fits32 (snd (encode_payload m)) \<Longrightarrow> length (encode now_ms m rid) = HEADER_SIZE + unat (hdr_length (header_of now_ms m rid))"
  by (simp add: encode_split header_of_def unat_size32)

section \<open>Properties\<close>



text \<open>
  C26. The other fifteen kinds never arrive: the receiver's \<^verbatim>\<open>decode\<close> throws. A kind that \<^verbatim>\<open>encode\<close> writes
  (availability check and chunk read, with their answers) is an unknown type to \<^verbatim>\<open>decode\<close>; the rest are
  sent as an error message with an empty payload.
\<close>

theorem codec_unsupported:
  assumes "\<not> decodable m"
  shows "decode H (encode now_ms m rid) =
     Inl (Runtime_error (if encodable m then ''Unknown message type'' else ''Truncated u32''))"
  by (rule decode_undecodable [OF assms])

theorem codec_unsupported_witness:
  "decode fnv_hasher (encode 7 (HasChunkMessage []) 1) = Inl (Runtime_error ''Truncated u32'')
   \<and> decode fnv_hasher (encode 7 (GetChunkResponseMessage True [1]) 1) = Inl (Runtime_error ''Unknown message type'')"
  using codec_unsupported [of "HasChunkMessage []"] codec_unsupported [of "GetChunkResponseMessage True [1]"]
  by simp

end
