(* ===== verification/Connection.thy ===== *)
theory Connection
  imports Codec
begin

text \<open>
  A TCP connection between two nodes (class \<^verbatim>\<open>Connection\<close> of \<^verbatim>\<open>cluster.cpp\<close>). The stream of the
  networking library is described by what its calls return: \<open>conn_in\<close> lists the byte segments the peer's
  data arrives in, a read of \<open>n\<close> bytes returning at most \<open>n\<close> bytes of the first segment and an empty
  segment standing for a result that is not positive; \<open>conn_writes\<close> lists how many bytes the next writes
  accept, at most the number offered, 0 standing for a failure. \<open>conn_out\<close> holds the bytes accepted so
  far. The receive mutex is a field, because one path of \<^verbatim>\<open>receive\<close> leaves it locked.
\<close>

record Connection =
  conn_connected :: bool
  conn_in :: "byte list list"
  conn_writes :: "nat list"
  conn_out :: "byte list"
  conn_recv_locked :: bool

definition Connection_new :: "byte list list \<Rightarrow> nat list \<Rightarrow> Connection" where
  "Connection_new segments writes =
     \<lparr>conn_connected = True, conn_in = segments, conn_writes = writes, conn_out = [],
      conn_recv_locked = False\<rparr>"

text \<open>The loop around \<^verbatim>\<open>stream_.write\<close>; \<open>data\<close> is the part not yet sent.\<close>

fun send_loop :: "byte list \<Rightarrow> nat list \<Rightarrow> byte list \<Rightarrow> bool \<times> nat list \<times> byte list" where
  "send_loop [] ws out = (True, ws, out)"
| "send_loop (b # data) [] out = (False, [], out)"
| "send_loop (b # data) (w # ws) out =
     (if w = 0 then (False, ws, out)
      else send_loop (drop w (b # data)) ws (out @ take w (b # data)))"

definition Connection_send :: "u64 \<Rightarrow> Message \<Rightarrow> Connection \<Rightarrow> Status \<times> Connection" where
  "Connection_send now_ms msg c =
     (let (sent, ws, out) = send_loop (encode now_ms msg 0) (conn_writes c) (conn_out c);
          c' = c\<lparr>conn_writes := ws, conn_out := out\<rparr>
      in if sent then (Status_ok, c')
         else (Status_error NetworkError ''Failed to send message'', c'\<lparr>conn_connected := False\<rparr>))"

text \<open>The loop around \<^verbatim>\<open>stream_.read\<close>: \<open>need\<close> bytes are missing, \<open>acc\<close> has been read.\<close>

function read_loop :: "nat \<Rightarrow> byte list \<Rightarrow> byte list list \<Rightarrow> byte list option \<times> byte list list" where
  "read_loop need acc segs =
     (if need = 0 then (Some acc, segs)
      else case segs of
        [] \<Rightarrow> (None, [])
      | seg # segs' \<Rightarrow>
          if seg = [] then (None, segs')
          else read_loop (need - length (take need seg)) (acc @ take need seg)
                 (if length seg \<le> need then segs' else drop need seg # segs'))"
  by pat_completeness auto
termination
  by (relation "measure (\<lambda>(need, acc, segs). need)") auto

declare read_loop.simps [simp del]

text \<open>
  \<^verbatim>\<open>receive\<close>: the result is \<open>None\<close> when the call never returns because the mutex is held, otherwise the
  optional message or the exception that escapes, with the new state. \<^verbatim>\<open>parse_header\<close> is called
  outside the \<^verbatim>\<open>try\<close> block and before the mutex is released.
\<close>

definition Connection_receive :: "hasher \<Rightarrow> Connection \<Rightarrow> (Message option result \<times> Connection) option" where
  "Connection_receive H c =
     (if conn_recv_locked c then None
      else case read_loop HEADER_SIZE [] (conn_in c) of
        (None, segs) \<Rightarrow> Some (Inr None, c\<lparr>conn_in := segs, conn_connected := False\<rparr>)
      | (Some header, segs) \<Rightarrow>
         (case parse_header header of
            Inl e \<Rightarrow> Some (Inl e, c\<lparr>conn_in := segs, conn_recv_locked := True\<rparr>)
          | Inr msg_header \<Rightarrow>
              if hdr_magic msg_header \<noteq> MAGIC then Some (Inr None, c\<lparr>conn_in := segs\<rparr>)
              else case read_loop (unat (hdr_length msg_header)) [] segs of
                (None, segs') \<Rightarrow> Some (Inr None, c\<lparr>conn_in := segs', conn_connected := False\<rparr>)
              | (Some body, segs') \<Rightarrow>
                  let c' = c\<lparr>conn_in := segs'\<rparr>
                  in case decode H (header @ body) of
                       Inr (msg, hdr) \<Rightarrow> Some (Inr (Some msg), c')
                     | Inl Undefined_behaviour \<Rightarrow> Some (Inl Undefined_behaviour, c')
                     | Inl _ \<Rightarrow> Some (Inr None, c')))"

definition Connection_close :: "Connection \<Rightarrow> Connection" where
  "Connection_close c = (if conn_connected c then c\<lparr>conn_connected := False\<rparr> else c)"

section \<open>The read loop does not depend on how the bytes are cut\<close>

definition segments_ok :: "byte list list \<Rightarrow> bool" where
  "segments_ok segs \<longleftrightarrow> [] \<notin> set segs"

lemma read_loop_complete:
  "segments_ok segs \<Longrightarrow> need \<le> length (concat segs) \<Longrightarrow>
   \<exists>segs'. read_loop need acc segs = (Some (acc @ take need (concat segs)), segs')
     \<and> concat segs' = drop need (concat segs) \<and> segments_ok segs'"
proof (induction need acc segs rule: read_loop.induct)
  case (1 need acc segs)
  show ?case
  proof (cases "need = 0")
    case True
    then show ?thesis using "1.prems" by (simp add: read_loop.simps)
  next
    case False
    then obtain seg segs' where segs: "segs = seg # segs'" and seg: "seg \<noteq> []"
      using "1.prems" by (cases segs) (auto simp: segments_ok_def)
    let ?rest = "if length seg \<le> need then segs' else drop need seg # segs'"
    have rest: "concat ?rest = drop (length (take need seg)) (concat segs)" "segments_ok ?rest"
      using "1.prems"(1) segs by (auto simp: segments_ok_def)
    have len: "need - length (take need seg) \<le> length (concat ?rest)"
      using "1.prems"(2) unfolding rest(1) length_drop by (intro diff_le_mono)
    obtain segs'' where "read_loop (need - length (take need seg)) (acc @ take need seg) ?rest
          = (Some ((acc @ take need seg) @ take (need - length (take need seg)) (concat ?rest)), segs'')"
        and "concat segs'' = drop (need - length (take need seg)) (concat ?rest)" "segments_ok segs''"
      using "1.IH" [OF False segs seg rest(2) len] by blast
    moreover have "take need seg @ take (need - length (take need seg)) (concat ?rest) = take need (concat segs)"
      and "drop (need - length (take need seg)) (concat ?rest) = drop need (concat segs)"
      using segs by (auto simp: rest(1))
    ultimately show ?thesis
      using False segs seg by (auto simp: read_loop.simps [of need acc "seg # segs'"])
  qed
qed

lemma read_loop_short:
  "segments_ok segs \<Longrightarrow> length (concat segs) < need \<Longrightarrow> fst (read_loop need acc segs) = None"
proof (induction need acc segs rule: read_loop.induct)
  case (1 need acc segs)
  show ?case
  proof (cases segs)
    case Nil
    then show ?thesis using "1.prems" by (simp add: read_loop.simps)
  next
    case (Cons seg segs')
    then have "length seg \<le> need" "seg \<noteq> []" "need \<noteq> 0" using "1.prems" by (auto simp: segments_ok_def)
    then show ?thesis
      using "1.IH" [OF _ Cons] "1.prems" Cons
      by (simp add: read_loop.simps [of need acc "seg # segs'"] segments_ok_def less_diff_conv2)
  qed
qed

section \<open>Sending\<close>

lemma send_loop_prefix:
  "send_loop data ws out = (sent, ws', out') \<Longrightarrow>
   \<exists>p q. data = p @ q \<and> out' = out @ p \<and> (sent \<longleftrightarrow> q = [])"
proof (induction data ws out rule: send_loop.induct)
  case (3 b data w ws out)
  show ?case
  proof (cases "w = 0")
    case True
    then show ?thesis using "3.prems" by auto
  next
    case False
    have "send_loop (drop w (b # data)) ws (out @ take w (b # data)) = (sent, ws', out')"
      using "3.prems" False by simp
    then obtain p q where "drop w (b # data) = p @ q" "out' = (out @ take w (b # data)) @ p" "sent \<longleftrightarrow> q = []"
      using "3.IH" [OF False] by blast
    then have "b # data = (take w (b # data) @ p) @ q" by (metis append_assoc append_take_drop_id)
    then show ?thesis
      using \<open>out' = _\<close> \<open>sent \<longleftrightarrow> q = []\<close> by (metis append_assoc)
  qed
qed auto

lemma Connection_send_cases:
  assumes "Connection_send now_ms m c = (st, c')"
  obtains (Sent) "st = Status_ok" "conn_out c' = conn_out c @ encode now_ms m 0" "conn_connected c' = conn_connected c"
    | (Failed) p q where "st = Status_error NetworkError ''Failed to send message''" "encode now_ms m 0 = p @ q"
        "q \<noteq> []" "conn_out c' = conn_out c @ p" "\<not> conn_connected c'"
proof -
  obtain sent ws out where loop: "send_loop (encode now_ms m 0) (conn_writes c) (conn_out c) = (sent, ws, out)"
    by (cases "send_loop (encode now_ms m 0) (conn_writes c) (conn_out c)") auto
  then obtain p q where pq: "encode now_ms m 0 = p @ q" "out = conn_out c @ p" "sent \<longleftrightarrow> q = []"
    using send_loop_prefix by blast
  show ?thesis
  proof (cases sent)
    case True
    then show ?thesis using loop pq assms by (intro that(1)) (auto simp: Connection_send_def)
  next
    case False
    then show ?thesis using loop pq assms by (intro that(2) [of p q]) (auto simp: Connection_send_def)
  qed
qed

fun send_all :: "u64 \<Rightarrow> Message list \<Rightarrow> Connection \<Rightarrow> bool \<times> Connection" where
  "send_all now_ms [] c = (True, c)"
| "send_all now_ms (m # ms) c =
     (let (st, c') = Connection_send now_ms m c
      in if Status_is_ok st then send_all now_ms ms c' else (False, c'))"

lemma send_all_out:
  "send_all now_ms ms c = (True, c') \<Longrightarrow> conn_out c' = conn_out c @ concat (map (\<lambda>m. encode now_ms m 0) ms)"
proof (induction ms arbitrary: c)
  case (Cons m ms)
  obtain st c1 where send: "Connection_send now_ms m c = (st, c1)" by fastforce
  with Cons.prems have ok: "Status_is_ok st" and all: "send_all now_ms ms c1 = (True, c')"
    by (auto split: if_splits)
  from send ok have "conn_out c1 = conn_out c @ encode now_ms m 0"
    by (cases rule: Connection_send_cases) simp_all
  with Cons.IH [OF all] show ?case by simp
qed simp

section \<open>Receiving\<close>

definition frame_ok :: "hasher \<Rightarrow> Message \<Rightarrow> bool" where
  "frame_ok H m \<longleftrightarrow> msg_ok H m \<and> decodable m \<and> fits32 (snd (encode_payload m))"

lemma receive_header:
  assumes "\<not> conn_recv_locked c" "segments_ok (conn_in c)" "concat (conn_in c) = encode now_ms m rid @ rest"
  obtains segs where
    "read_loop HEADER_SIZE [] (conn_in c) = (Some (take HEADER_SIZE (encode now_ms m rid)), segs)"
    "concat segs = snd (encode_payload m) @ rest" "segments_ok segs"
proof -
  have "HEADER_SIZE \<le> length (concat (conn_in c))" using assms(3) by (simp add: encode_split)
  from read_loop_complete [OF assms(2) this, of "[]"] assms(3) show ?thesis
    by (auto simp: encode_split intro: that)
qed

lemma parse_taken_header: "parse_header (take HEADER_SIZE (encode now_ms m rid)) = Inr (header_of now_ms m rid)"
  using parse_encode_header [where rest = "[]"] by (simp add: encode_split header_of_def)

lemma receive_message:
  assumes "\<not> conn_recv_locked c" "segments_ok (conn_in c)" "frame_ok H m"
    "concat (conn_in c) = encode now_ms m rid @ rest"
  shows "\<exists>segs. Connection_receive H c = Some (Inr (Some (on_wire m)), c\<lparr>conn_in := segs\<rparr>)
       \<and> concat segs = rest \<and> segments_ok segs"
proof -
  obtain segs where header: "read_loop HEADER_SIZE [] (conn_in c) = (Some (take HEADER_SIZE (encode now_ms m rid)), segs)"
      and segs: "concat segs = snd (encode_payload m) @ rest" "segments_ok segs"
    using receive_header [OF assms(1,2,4)] .
  have len: "unat (hdr_length (header_of now_ms m rid)) = length (snd (encode_payload m))"
    using assms(3) by (simp add: header_of_def frame_ok_def unat_size32)
  have magic: "hdr_magic (header_of now_ms m rid) = MAGIC" by (simp add: header_of_def)
  have "length (snd (encode_payload m)) \<le> length (concat segs)" using segs(1) by simp
  from read_loop_complete [OF segs(2) this, of "[]"] obtain segs' where
    body: "read_loop (length (snd (encode_payload m))) [] segs = (Some (snd (encode_payload m)), segs')"
      "concat segs' = rest" "segments_ok segs'"
    by (auto simp: segs(1))
  have "take HEADER_SIZE (encode now_ms m rid) @ snd (encode_payload m) = encode now_ms m rid"
    by (simp add: encode_split)
  then have "decode H (take HEADER_SIZE (encode now_ms m rid) @ snd (encode_payload m))
      = Inr (on_wire m, header_of now_ms m rid)"
    using assms(3) decode_encode by (simp add: frame_ok_def)
  then show ?thesis
    using assms(1) body
    by (intro exI [of _ segs']) (simp add: Connection_receive_def header parse_taken_header magic len)
qed

fun receive_many :: "hasher \<Rightarrow> nat \<Rightarrow> Connection \<Rightarrow> (Message option list \<times> Connection) option" where
  "receive_many H 0 c = Some ([], c)"
| "receive_many H (Suc n) c =
     (case Connection_receive H c of
        Some (Inr r, c') \<Rightarrow> map_option (apfst (Cons r)) (receive_many H n c')
      | _ \<Rightarrow> None)"

lemma receive_many_messages:
  "\<not> conn_recv_locked c \<Longrightarrow> segments_ok (conn_in c) \<Longrightarrow> list_all (frame_ok H) ms \<Longrightarrow>
   concat (conn_in c) = concat (map (\<lambda>m. encode now_ms m rid) ms) @ rest \<Longrightarrow>
   \<exists>segs. receive_many H (length ms) c = Some (map (\<lambda>m. Some (on_wire m)) ms, c\<lparr>conn_in := segs\<rparr>)
     \<and> concat segs = rest"
proof (induction ms arbitrary: c)
  case Nil
  then show ?case by (auto intro!: exI [of _ "conn_in c"])
next
  case (Cons m ms)
  obtain segs where rec: "Connection_receive H c = Some (Inr (Some (on_wire m)), c\<lparr>conn_in := segs\<rparr>)"
    and segs: "concat segs = concat (map (\<lambda>m. encode now_ms m rid) ms) @ rest" "segments_ok segs"
    using receive_message [of c H m now_ms rid] Cons.prems by auto
  from Cons.IH [of "c\<lparr>conn_in := segs\<rparr>"] segs Cons.prems obtain segs' where
    "receive_many H (length ms) (c\<lparr>conn_in := segs\<rparr>) = Some (map (\<lambda>m. Some (on_wire m)) ms, c\<lparr>conn_in := segs'\<rparr>)"
    "concat segs' = rest"
    by auto
  then show ?case by (auto simp: rec)
qed

section \<open>Properties\<close>

text \<open>
  C27. Messages of the ten kinds \<^verbatim>\<open>decode\<close> has a case for arrive complete and in order however TCP cuts the
  bytes: when a node has sent a sequence of such messages, whose fields fit their length fields and
  each of which was reported as sent, and its peer gets the bytes in any non-empty segments, then as
  many calls of \<^verbatim>\<open>receive\<close> return these messages, without the time stamps and expiry that the format
  does not carry, and leave nothing unread.
\<close>

theorem connection_delivers:
  assumes "list_all (frame_ok H) ms" and "send_all now_ms ms (Connection_new ins ws) = (True, a)"
    and "concat segs = conn_out a" and "segments_ok segs"
  shows "\<exists>b. receive_many H (length ms) (Connection_new segs ws') = Some (map (\<lambda>m. Some (on_wire m)) ms, b)
       \<and> concat (conn_in b) = []"
  using receive_many_messages [of "Connection_new segs ws'" H ms now_ms 0 "[]"] assms
    send_all_out [OF assms(2)]
  by (auto simp: Connection_new_def)

theorem connection_delivers_witness:
  "\<exists>b. receive_many fnv_hasher (length [DeleteResponseMessage Ok True, DeleteResponseMessage NotFound False])
         (Connection_new [encode 7 (DeleteResponseMessage Ok True) 0 @ take 3 (encode 7 (DeleteResponseMessage NotFound False) 0),
                          drop 3 (encode 7 (DeleteResponseMessage NotFound False) 0)] [])
       = Some (map (\<lambda>m. Some (on_wire m)) [DeleteResponseMessage Ok True, DeleteResponseMessage NotFound False], b)
     \<and> concat (conn_in b) = []"
proof (rule connection_delivers)
  show "list_all (frame_ok fnv_hasher) [DeleteResponseMessage Ok True, DeleteResponseMessage NotFound False]"
    by (simp add: frame_ok_def ErrorCode_cast_def)
  show "send_all 7 [DeleteResponseMessage Ok True, DeleteResponseMessage NotFound False] (Connection_new [] [100, 100])
      = (True, (Connection_new [] [])\<lparr>conn_out := encode 7 (DeleteResponseMessage Ok True) 0
           @ encode 7 (DeleteResponseMessage NotFound False) 0\<rparr>)"
    by (simp add: Connection_send_def Connection_new_def encode_split encode_header_def encode_u32_def
        encode_u16_def encode_u64_def encode_flag_def upt_rec)
qed (simp_all add: segments_ok_def encode_split HEADER_SIZE_def encode_flag_def)

text \<open>
  A peer that sends a header with a wrong magic number disables the connection for good: the
  exception of \<^verbatim>\<open>parse_header\<close> escapes \<^verbatim>\<open>receive\<close> while the receive mutex is held, so every later
  call of \<^verbatim>\<open>receive\<close> waits forever, although the connection still counts as connected.
\<close>

theorem receive_bad_header:
  assumes "\<not> conn_recv_locked c" and "segments_ok (conn_in c)" and "HEADER_SIZE \<le> length (concat (conn_in c))"
    and "parse_header (take HEADER_SIZE (concat (conn_in c))) = Inl e"
  shows "\<exists>c'. Connection_receive H c = Some (Inl e, c') \<and> Connection_receive H c' = None
       \<and> conn_connected c' = conn_connected c"
proof -
  obtain segs where "read_loop HEADER_SIZE [] (conn_in c) = (Some (take HEADER_SIZE (concat (conn_in c))), segs)"
    using read_loop_complete [OF assms(2,3), of "[]"] by auto
  then show ?thesis
    using assms(1,4) by (simp add: Connection_receive_def)
qed

theorem receive_bad_header_witness:
  "\<exists>c'. Connection_receive fnv_hasher (Connection_new [[0, 0, 0, 0, 0, 0, 0, 0, 0, 0, 0, 0, 0, 0, 0, 0, 0, 0, 0, 0, 0, 0, 0, 0]] []) = Some (Inl (Runtime_error ''Invalid magic number''), c')
     \<and> Connection_receive fnv_hasher c' = None \<and> conn_connected c' = conn_connected (Connection_new [[0, 0, 0, 0, 0, 0, 0, 0, 0, 0, 0, 0, 0, 0, 0, 0, 0, 0, 0, 0, 0, 0, 0, 0]] [])"
  by (rule receive_bad_header)
    (simp_all add: Connection_new_def segments_ok_def HEADER_SIZE_def parse_header_def
      dec_bind_def dec_return_def decode_u32_def decode_u16_def decode_u64_def MAGIC_def)

end
