(* ===== verification/Hash_Ring.thy ===== *)
theory Hash_Ring
  imports Chunks
begin

text \<open>
  The consistent hash ring (class \<^verbatim>\<open>HashRing\<close> of \<^verbatim>\<open>cluster.cpp\<close>). The \<^verbatim>\<open>std::map\<close> from points to nodes is
  the list of its pairs in key order, the \<^verbatim>\<open>std::set\<close> of nodes a sorted list. An iterator is the rest of
  the ring from its position, the end iterator the empty list. Each method holds the mutex
  throughout and is one step.
\<close>

unbundle bit_operations_syntax

section \<open>Ordered maps\<close>

type_synonym ('k, 'v) omap = "('k \<times> 'v) list"

definition omap_ok :: "('k::linorder, 'v) omap \<Rightarrow> bool" where
  "omap_ok m \<longleftrightarrow> sorted_wrt (<) (map fst m)"

fun omap_put :: "'k::linorder \<Rightarrow> 'v \<Rightarrow> ('k, 'v) omap \<Rightarrow> ('k, 'v) omap" where
  "omap_put k v [] = [(k, v)]"
| "omap_put k v ((k', v') # m) =
     (if k < k' then (k, v) # (k', v') # m
      else if k = k' then (k, v) # m
      else (k', v') # omap_put k v m)"

definition omap_erase :: "'k \<Rightarrow> ('k, 'v) omap \<Rightarrow> ('k, 'v) omap" where
  "omap_erase k m = filter (\<lambda>(k', _). k' \<noteq> k) m"

definition omap_lower_bound :: "'k::linorder \<Rightarrow> ('k, 'v) omap \<Rightarrow> ('k, 'v) omap" where
  "omap_lower_bound k m = dropWhile (\<lambda>(k', _). k' < k) m"

section \<open>The ring\<close>

record HashRing =
  hr_virtual_nodes :: u64
  hr_ring :: "(u64, NodeId) omap"
  hr_nodes :: "NodeId list"

definition HashRing_new :: "u64 \<Rightarrow> HashRing" where
  "HashRing_new virtual_nodes = \<lparr>hr_virtual_nodes = virtual_nodes, hr_ring = [], hr_nodes = []\<rparr>"

definition hash_point :: "NodeId \<Rightarrow> u64 \<Rightarrow> u64" where
  "hash_point nid replica =
     (let combined = node_value nid XOR (replica * 0x9E3779B97F4A7C15);
          combined = combined XOR drop_bit 33 combined;
          combined = combined * 0xff51afd7ed558ccd;
          combined = combined XOR drop_bit 33 combined;
          combined = combined * 0xc4ceb9fe1a85ec53
      in combined XOR drop_bit 33 combined)"

definition replicas :: "u64 \<Rightarrow> u64 list" where
  "replicas n = map of_nat [0..<unat n]"

definition HashRing_add_node :: "NodeId \<Rightarrow> HashRing \<Rightarrow> HashRing" where
  "HashRing_add_node nid r =
     (if nid \<in> set (hr_nodes r) then r
      else r\<lparr>hr_nodes := insort nid (hr_nodes r),
             hr_ring := fold (\<lambda>i. omap_put (hash_point nid i) nid) (replicas (hr_virtual_nodes r)) (hr_ring r)\<rparr>)"

definition HashRing_remove_node :: "NodeId \<Rightarrow> HashRing \<Rightarrow> HashRing" where
  "HashRing_remove_node nid r =
     (if nid \<notin> set (hr_nodes r) then r
      else r\<lparr>hr_nodes := remove1 nid (hr_nodes r),
             hr_ring := fold (\<lambda>i. omap_erase (hash_point nid i)) (replicas (hr_virtual_nodes r)) (hr_ring r)\<rparr>)"

text \<open>
  The walk along the ring. It has no bound of its own, so a walk that never ends is \<open>None\<close>. The set
  \<open>seen\<close> holds the nodes of \<open>result\<close>; the ring is not empty when the walk starts.
\<close>

partial_function (option) ring_walk ::
  "u64 \<Rightarrow> u64 \<Rightarrow> (u64, NodeId) omap \<Rightarrow> (u64, NodeId) omap \<Rightarrow> NodeId list \<Rightarrow> NodeId list option" where
  "ring_walk count nodes_size ring it result =
     (if vec_size result < count then
        let it = (if it = [] then ring else it);
            nid = snd (hd it);
            result = (if nid \<in> set result then result else result @ [nid])
        in if nodes_size \<le> vec_size result then Some result
           else ring_walk count nodes_size ring (tl it) result
      else Some result)"

definition get_nodes_at :: "u64 \<Rightarrow> u64 \<Rightarrow> HashRing \<Rightarrow> NodeId list option" where
  "get_nodes_at hash count r =
     (if hr_ring r = [] then Some []
      else let count = min count (vec_size (hr_nodes r));
               count = (if count = 0 then 1 else count)
           in ring_walk count (vec_size (hr_nodes r)) (hr_ring r) (omap_lower_bound hash (hr_ring r)) [])"

definition get_nodes_for_key :: "CacheKey \<Rightarrow> u64 \<Rightarrow> HashRing \<Rightarrow> NodeId list option" where
  "get_nodes_for_key key count r = get_nodes_at (ck_hash key) count r"

definition get_nodes_for_chunk :: "ChunkId \<Rightarrow> u64 \<Rightarrow> HashRing \<Rightarrow> NodeId list option" where
  "get_nodes_for_chunk chunk count r = get_nodes_at (low (chunk_hash chunk)) count r"

definition is_responsible :: "NodeId \<Rightarrow> CacheKey \<Rightarrow> HashRing \<Rightarrow> bool option" where
  "is_responsible node key r =
     map_option (\<lambda>nodes. nodes \<noteq> [] \<and> hd nodes = node) (get_nodes_for_key key 1 r)"

definition HashRing_node_count :: "HashRing \<Rightarrow> u64" where
  "HashRing_node_count r = vec_size (hr_nodes r)"

section \<open>Points of a node are distinct\<close>

lemma xorshift_inverse: "(x XOR drop_bit 33 x) XOR drop_bit 33 (x XOR drop_bit 33 x) = (x :: u64)"
  by (rule bit_word_eqI) (auto simp: bit_simps)

lemma xorshift_inject: "x XOR drop_bit 33 x = y XOR drop_bit 33 y \<longleftrightarrow> x = (y :: u64)"
proof
  assume "x XOR drop_bit 33 x = y XOR drop_bit 33 y"
  then have "(x XOR drop_bit 33 x) XOR drop_bit 33 (x XOR drop_bit 33 x)
      = (y XOR drop_bit 33 y) XOR drop_bit 33 (y XOR drop_bit 33 y)" by simp
  then show "x = y" by (simp only: xorshift_inverse)
qed simp

lemma mult_inject:
  assumes inv: "a * c = (1 :: u64)"
  shows "x * a = y * a \<longleftrightarrow> x = y"
proof
  assume "x * a = y * a"
  then have "x * (a * c) = y * (a * c)" by (simp only: mult.assoc [symmetric])
  then show "x = y" by (simp add: inv)
qed simp

lemma mix_inject:
  "x * 0xff51afd7ed558ccd = y * 0xff51afd7ed558ccd \<longleftrightarrow> x = (y :: u64)"
  "x * 0xc4ceb9fe1a85ec53 = y * 0xc4ceb9fe1a85ec53 \<longleftrightarrow> x = (y :: u64)"
  "x * 0x9E3779B97F4A7C15 = y * 0x9E3779B97F4A7C15 \<longleftrightarrow> x = (y :: u64)"
  by (rule mult_inject [where c = "0x4f74430c22a54005"], simp,
      rule mult_inject [where c = "0x9cb4b2f8129337db"], simp,
      rule mult_inject [where c = "0xf1de83e19937733d"], simp)

lemma hash_point_eq_iff:
  "hash_point a i = hash_point b j \<longleftrightarrow>
   node_value a XOR i * 0x9E3779B97F4A7C15 = node_value b XOR j * 0x9E3779B97F4A7C15"
  by (simp only: hash_point_def Let_def xorshift_inject mix_inject)

lemma hash_point_inject_node: "hash_point a i = hash_point b i \<longleftrightarrow> a = b"
proof -
  have "x XOR z = y XOR z \<longleftrightarrow> x = y" for x y z :: u64
    by (auto simp: bit_eq_iff bit_xor_iff)
  then show ?thesis by (cases a, cases b) (simp only: hash_point_eq_iff NodeId.sel NodeId.inject)
qed

lemma hash_point_inject_replica: "hash_point a i = hash_point a j \<longleftrightarrow> i = j"
proof -
  have "z XOR x = z XOR y \<longleftrightarrow> x = y" for x y z :: u64
    by (auto simp: bit_eq_iff bit_xor_iff)
  then show ?thesis by (simp only: hash_point_eq_iff mix_inject)
qed

section \<open>Laws of ordered maps\<close>

lemma set_omap_put: "fst ` set (omap_put k v m) = insert k (fst ` set m)"
  by (induction k v m rule: omap_put.induct) (simp_all add: insert_commute)

lemma omap_ok_put: "omap_ok m \<Longrightarrow> omap_ok (omap_put k v m)"
proof (induction m)
  case (Cons kv m)
  then show ?case
    using set_omap_put [of k v m] by (cases kv) (auto simp: omap_ok_def)
qed (simp add: omap_ok_def)

lemma map_of_omap_put: "omap_ok m \<Longrightarrow> map_of (omap_put k v m) = (map_of m)(k \<mapsto> v)"
proof (induction m)
  case (Cons kv m)
  have "map_of m k' = None" if "k' \<le> fst kv" for k'
    using Cons.prems that by (auto simp: omap_ok_def map_of_eq_None_iff)
  then show ?case using Cons by (cases kv) (auto simp: omap_ok_def fun_eq_iff)
qed simp

lemma omap_ok_filter: "omap_ok m \<Longrightarrow> omap_ok (filter P m)"
  by (induction m) (auto simp: omap_ok_def)

lemma omap_ok_distinct: "omap_ok m \<Longrightarrow> distinct (map fst m)"
  by (simp add: omap_ok_def strict_sorted_iff)

lemma omap_eqI: "omap_ok m \<Longrightarrow> omap_ok m' \<Longrightarrow> map_of m = map_of m' \<Longrightarrow> m = m'"
  using map_sorted_distinct_set_unique [of fst m m'] map_of_inject_set [of m m']
  by (auto simp: omap_ok_def strict_sorted_iff distinct_map)

lemma omap_ok_empty: "omap_ok []"
  by (simp add: omap_ok_def)

text \<open>The contract the ring relies on, and the lists that keep it.\<close>

locale ordered_map =
  fixes ok :: "'m \<Rightarrow> bool"
    and empty :: 'm
    and put :: "'k::linorder \<Rightarrow> 'v \<Rightarrow> 'm \<Rightarrow> 'm"
    and erase :: "'k \<Rightarrow> 'm \<Rightarrow> 'm"
    and lookup :: "'m \<Rightarrow> 'k \<rightharpoonup> 'v"
  assumes empty_ok: "ok empty" and put_ok: "ok m \<Longrightarrow> ok (put k v m)" and erase_ok: "ok m \<Longrightarrow> ok (erase k m)"
    and lookup_empty: "lookup empty = Map.empty"
    and lookup_put: "ok m \<Longrightarrow> lookup (put k v m) = (lookup m)(k \<mapsto> v)"
    and lookup_erase: "ok m \<Longrightarrow> lookup (erase k m) = (lookup m)(k := None)"
    and extensional: "ok m \<Longrightarrow> ok m' \<Longrightarrow> lookup m = lookup m' \<Longrightarrow> m = m'"
begin

lemma puts:
  "ok m \<Longrightarrow> ok (fold (\<lambda>k. put k v) ks m)
     \<and> lookup (fold (\<lambda>k. put k v) ks m) = (\<lambda>k. if k \<in> set ks then Some v else lookup m k)"
  by (induction ks arbitrary: m) (auto simp: put_ok lookup_put fun_eq_iff)

lemma erases:
  "ok m \<Longrightarrow> ok (fold erase ks m) \<and> lookup (fold erase ks m) = lookup m |` (- set ks)"
  by (induction ks arbitrary: m) (auto simp: erase_ok lookup_erase fun_eq_iff restrict_map_def)

lemma erases_puts:
  assumes "ok m" and "\<And>k. k \<in> set ks \<Longrightarrow> lookup m k = None"
  shows "fold erase ks (fold (\<lambda>k. put k v) ks m) = m"
proof (rule extensional)
  show "ok (fold erase ks (fold (\<lambda>k. put k v) ks m))" using erases puts assms(1) by blast
  show "lookup (fold erase ks (fold (\<lambda>k. put k v) ks m)) = lookup m"
    using erases [of "fold (\<lambda>k. put k v) ks m" ks] puts [OF assms(1), of v ks] assms(2)
    by (auto simp: fun_eq_iff restrict_map_def)
qed (rule assms)

end

interpretation omap: ordered_map omap_ok "[]" omap_put omap_erase map_of
proof
  show "omap_ok (omap_erase k m)" if "omap_ok m" for k and m :: "('a, 'b) omap"
    using that by (simp add: omap_erase_def omap_ok_filter)
  show "map_of (omap_erase k m) = (map_of m)(k := None)" for k and m :: "('a, 'b) omap"
    by (induction m) (auto simp: omap_erase_def fun_eq_iff)
qed (auto simp: omap_ok_empty omap_ok_put map_of_omap_put intro: omap_eqI)

section \<open>The order in which a walk meets the nodes\<close>

text \<open>
  \<open>visit acc xs\<close> appends to \<open>acc\<close> the elements of \<open>xs\<close> not met before; \<open>ring_order h r\<close> is the order in
  which a walk that starts at \<open>h\<close> and goes once round the ring meets the nodes.
\<close>

definition visit :: "'a list \<Rightarrow> 'a list \<Rightarrow> 'a list" where
  "visit acc xs = fold (\<lambda>x acc. if x \<in> set acc then acc else acc @ [x]) xs acc"

definition clockwise :: "u64 \<Rightarrow> (u64, NodeId) omap \<Rightarrow> NodeId list" where
  "clockwise h ring = map snd (filter (\<lambda>(p, _). h \<le> p) ring @ filter (\<lambda>(p, _). p < h) ring)"

definition ring_order :: "u64 \<Rightarrow> HashRing \<Rightarrow> NodeId list" where
  "ring_order h r = visit [] (clockwise h (hr_ring r))"

lemma visit_simps [simp]:
  "visit acc [] = acc"
  "visit acc (x # xs) = visit (if x \<in> set acc then acc else acc @ [x]) xs"
  "visit acc (xs @ ys) = visit (visit acc xs) ys"
  by (simp_all add: visit_def)

lemma visit_extends: "\<exists>ys. visit acc xs = acc @ ys"
proof (induction xs arbitrary: acc)
  case (Cons x xs)
  then show ?case using Cons.IH [of acc] Cons.IH [of "acc @ [x]"] by auto
qed simp

lemma set_visit: "set (visit acc xs) = set acc \<union> set xs"
  by (induction xs arbitrary: acc) auto

lemma distinct_visit: "distinct acc \<Longrightarrow> distinct (visit acc xs)"
  by (induction xs arbitrary: acc) auto

lemma take_visit: "n \<le> length acc \<Longrightarrow> take n (visit acc xs) = take n acc"
  using visit_extends [of acc xs] by auto

lemma length_visit: "length acc \<le> length (visit acc xs)"
  using visit_extends [of acc xs] by auto

lemma visit_filter: "visit (filter P acc) (filter P xs) = filter P (visit acc xs)"
proof (induction xs arbitrary: acc)
  case (Cons x xs)
  then show ?case using Cons.IH [of acc] Cons.IH [of "acc @ [x]"] by auto
qed simp

lemma omap_lower_bound_filter: "omap_ok m \<Longrightarrow> omap_lower_bound h m = filter (\<lambda>(p, _). h \<le> p) m"
proof (induction m)
  case (Cons kv m)
  have "filter (\<lambda>(p, _). h \<le> p) m = m" if "h \<le> fst kv"
    using Cons.prems that by (auto simp: omap_ok_def filter_id_conv)
  then show ?case
    using Cons by (cases kv) (auto simp: omap_lower_bound_def omap_ok_def not_le)
qed (simp add: omap_lower_bound_def)

lemma omap_split: "omap_ok m \<Longrightarrow> m = filter (\<lambda>(p, _). p < h) m @ omap_lower_bound h m"
proof (induction m)
  case (Cons kv m)
  have "filter (\<lambda>(p, _). p < h) m = []" if "h \<le> fst kv"
    using Cons.prems that by (auto simp: omap_ok_def filter_empty_conv)
  then show ?case
    using Cons by (cases kv) (auto simp: omap_lower_bound_def omap_ok_def not_less)
qed (simp add: omap_lower_bound_def)

lemma ring_walk_step:
  "ring_walk count n ring it acc =
     (if vec_size acc < count then
        let it = (if it = [] then ring else it);
            acc = (if snd (hd it) \<in> set acc then acc else acc @ [snd (hd it)])
        in if n \<le> vec_size acc then Some acc else ring_walk count n ring (tl it) acc
      else Some acc)"
  by (subst ring_walk.simps) (simp add: Let_def)

lemma ring_walk_wrap: "ring_walk count n ring [] acc = ring_walk count n ring ring acc"
  by (subst (1 2) ring_walk_step) (simp add: Let_def)

lemma ring_walk_list:
  assumes "length acc < c" and "c \<le> n" and "n < 2 ^ 64"
  shows "ring_walk (of_nat c) (of_nat n) ring (xs @ ys) acc =
    (let acc' = visit acc (map snd xs)
     in if c \<le> length acc' then Some (take c acc') else ring_walk (of_nat c) (of_nat n) ring ys acc')"
  using assms(1)
proof (induction xs arbitrary: acc)
  case Nil
  then show ?case by simp
next
  case (Cons x xs)
  define acc1 where "acc1 = (if snd x \<in> set acc then acc else acc @ [snd x])"
  have len: "length acc1 \<le> c" using Cons.prems by (auto simp: acc1_def)
  have size: "vec_size ys < of_nat m \<longleftrightarrow> length ys < m" "of_nat m \<le> vec_size ys \<longleftrightarrow> m \<le> length ys"
    if "length ys \<le> n" "m \<le> n" for m and ys :: "NodeId list"
    using that assms(3) by (simp_all add: word_less_nat_alt word_le_nat_alt vec_size_def unat_simps)
  have step: "ring_walk (of_nat c) (of_nat n) ring ((x # xs) @ ys) acc =
      (if n \<le> length acc1 then Some acc1 else ring_walk (of_nat c) (of_nat n) ring (xs @ ys) acc1)"
    using Cons.prems assms(2) len by (subst ring_walk_step) (auto simp: acc1_def size Let_def)
  show ?case
  proof (cases "length acc1 = c")
    case True
    then have "ring_walk (of_nat c) (of_nat n) ring ((x # xs) @ ys) acc = Some acc1"
      using assms(2) by (subst step, subst ring_walk_step) (simp add: size)
    then show ?thesis
      using True take_visit [of c acc1 "map snd xs"] length_visit [of acc1 "map snd xs"]
      by (simp add: acc1_def [symmetric] Let_def)
  next
    case False
    then have "length acc1 < c" using len by simp
    with Cons.IH [OF this] assms(2) show ?thesis
      by (subst step) (simp add: acc1_def [symmetric])
  qed
qed

section \<open>The invariant of the ring\<close>

text \<open>
  \<open>points v nid\<close> are the ring positions of a node. The invariant says that the ring maps exactly the
  points of the nodes in \<^verbatim>\<open>nodes_\<close> to them; it needs that no two nodes share a point
  (\<open>points_apart\<close>), since \<^verbatim>\<open>add_node\<close> overwrites and \<^verbatim>\<open>remove_node\<close> erases a shared one.
\<close>

definition points :: "u64 \<Rightarrow> NodeId \<Rightarrow> u64 list" where
  "points v nid = map (hash_point nid) (replicas v)"

definition points_apart :: "u64 \<Rightarrow> NodeId set \<Rightarrow> bool" where
  "points_apart v N \<longleftrightarrow> (\<forall>a\<in>N. \<forall>b\<in>N. a \<noteq> b \<longrightarrow> set (points v a) \<inter> set (points v b) = {})"

definition ring_inv :: "HashRing \<Rightarrow> bool" where
  "ring_inv r \<longleftrightarrow> omap_ok (hr_ring r) \<and> sorted (hr_nodes r) \<and> distinct (hr_nodes r) \<and> fits (hr_nodes r)
     \<and> (\<forall>p nid. map_of (hr_ring r) p = Some nid
          \<longleftrightarrow> nid \<in> set (hr_nodes r) \<and> p \<in> set (points (hr_virtual_nodes r) nid))"

lemma points_apartD:
  "points_apart v N \<Longrightarrow> a \<in> N \<Longrightarrow> b \<in> N \<Longrightarrow> p \<in> set (points v a) \<Longrightarrow> p \<in> set (points v b) \<Longrightarrow> a = b"
  unfolding points_apart_def by blast

lemma ring_inv_lookup:
  "ring_inv r \<Longrightarrow> map_of (hr_ring r) p = Some nid
     \<longleftrightarrow> nid \<in> set (hr_nodes r) \<and> p \<in> set (points (hr_virtual_nodes r) nid)"
  by (simp add: ring_inv_def)

lemma add_node_ring:
  "nid \<notin> set (hr_nodes r) \<Longrightarrow> hr_ring (HashRing_add_node nid r)
     = fold (\<lambda>p. omap_put p nid) (points (hr_virtual_nodes r) nid) (hr_ring r)"
  by (simp add: HashRing_add_node_def points_def fold_map comp_def)

lemma remove_node_ring:
  "nid \<in> set (hr_nodes r) \<Longrightarrow> hr_ring (HashRing_remove_node nid r)
     = fold omap_erase (points (hr_virtual_nodes r) nid) (hr_ring r)"
  by (simp add: HashRing_remove_node_def points_def fold_map comp_def)

lemma ring_nodes [simp]:
  "set (hr_nodes (HashRing_add_node nid r)) = insert nid (set (hr_nodes r))"
  "hr_virtual_nodes (HashRing_add_node nid r) = hr_virtual_nodes r"
  "hr_virtual_nodes (HashRing_remove_node nid r) = hr_virtual_nodes r"
  by (auto simp: HashRing_add_node_def HashRing_remove_node_def set_insort_key)

lemma remove_node_set [simp]:
  "ring_inv r \<Longrightarrow> set (hr_nodes (HashRing_remove_node nid r)) = set (hr_nodes r) - {nid}"
  by (auto simp: HashRing_remove_node_def ring_inv_def)

lemma ring_inv_new: "ring_inv (HashRing_new v)"
  by (simp add: ring_inv_def HashRing_new_def omap_ok_empty)

lemma ring_inv_add:
  assumes "ring_inv r" and "points_apart (hr_virtual_nodes r) (insert nid (set (hr_nodes r)))"
    and "length (hr_nodes r) + 1 < 2 ^ 64"
  shows "ring_inv (HashRing_add_node nid r)"
proof (cases "nid \<in> set (hr_nodes r)")
  case True
  then show ?thesis using assms by (simp add: HashRing_add_node_def)
next
  case False
  have ok: "omap_ok (hr_ring r)" using assms(1) by (simp add: ring_inv_def)
  have ring: "map_of (hr_ring (HashRing_add_node nid r)) p
      = (if p \<in> set (points (hr_virtual_nodes r) nid) then Some nid else map_of (hr_ring r) p)" for p
    using omap.puts [OF ok] by (simp add: add_node_ring [OF False])
  have old: "map_of (hr_ring r) p = Some n \<longleftrightarrow> n \<in> set (hr_nodes r) \<and> p \<in> set (points (hr_virtual_nodes r) n)" for p n
    using assms(1) by (simp add: ring_inv_def)
  have apart: "p \<notin> set (points (hr_virtual_nodes r) nid)"
    if "n \<in> set (hr_nodes r)" "p \<in> set (points (hr_virtual_nodes r) n)" for p n
    using points_apartD [OF assms(2), of n nid p] that False by auto
  have "map_of (hr_ring (HashRing_add_node nid r)) p = Some n
      \<longleftrightarrow> n \<in> set (hr_nodes (HashRing_add_node nid r)) \<and> p \<in> set (points (hr_virtual_nodes r) n)" for p n
    using apart [of n p] by (auto simp: ring old)
  moreover have "omap_ok (hr_ring (HashRing_add_node nid r))"
    using omap.puts [OF ok] by (simp add: add_node_ring [OF False])
  moreover have "sorted (hr_nodes (HashRing_add_node nid r))" "distinct (hr_nodes (HashRing_add_node nid r))"
      "fits (hr_nodes (HashRing_add_node nid r))"
    using assms(1,3) False by (auto simp: HashRing_add_node_def ring_inv_def sorted_insort distinct_insort)
  ultimately show ?thesis by (simp add: ring_inv_def)
qed

lemma ring_inv_remove:
  assumes "ring_inv r" and "points_apart (hr_virtual_nodes r) (set (hr_nodes r))"
  shows "ring_inv (HashRing_remove_node nid r)"
proof (cases "nid \<in> set (hr_nodes r)")
  case False
  then show ?thesis using assms by (simp add: HashRing_remove_node_def)
next
  case True
  have ok: "omap_ok (hr_ring r)" using assms(1) by (simp add: ring_inv_def)
  have "map_of (hr_ring (HashRing_remove_node nid r)) = map_of (hr_ring r) |` (- set (points (hr_virtual_nodes r) nid))"
    and "omap_ok (hr_ring (HashRing_remove_node nid r))"
    using omap.erases [OF ok] by (simp_all add: remove_node_ring [OF True])
  then show ?thesis
    using assms True unfolding ring_inv_def points_apart_def
    by (auto simp: HashRing_remove_node_def sorted_remove1 restrict_map_def length_remove1)
qed

lemma remove_add:
  assumes "ring_inv r" and "points_apart (hr_virtual_nodes r) (insert nid (set (hr_nodes r)))"
    and "nid \<notin> set (hr_nodes r)"
  shows "HashRing_remove_node nid (HashRing_add_node nid r) = r"
proof -
  have "map_of (hr_ring r) p = None" if "p \<in> set (points (hr_virtual_nodes r) nid)" for p
    using assms that by (cases "map_of (hr_ring r) p") (auto simp: ring_inv_def points_apart_def)
  then have "hr_ring (HashRing_remove_node nid (HashRing_add_node nid r)) = hr_ring r"
    using assms by (simp add: remove_node_ring add_node_ring omap.erases_puts ring_inv_def)
  moreover have "hr_nodes (HashRing_remove_node nid (HashRing_add_node nid r)) = hr_nodes r"
    using assms by (simp add: HashRing_remove_node_def HashRing_add_node_def remove1_insort_key set_insort_key)
  ultimately show ?thesis
    by (simp add: HashRing.equality)
qed

lemma option_eqI: "(\<And>x. a = Some x \<longleftrightarrow> b = Some x) \<Longrightarrow> a = b"
  by (cases a; cases b) auto

lemma map_of_filter_snd:
  "distinct (map fst m) \<Longrightarrow> map_of (filter (\<lambda>(_, v). P v) m) k
     = (case map_of m k of None \<Rightarrow> None | Some v \<Rightarrow> if P v then Some v else None)"
  by (induction m) (auto simp: map_of_eq_None_iff split: option.splits)

lemma remove_node_filter:
  assumes "ring_inv r" and "points_apart (hr_virtual_nodes r) (set (hr_nodes r))"
  shows "hr_ring (HashRing_remove_node nid r) = filter (\<lambda>(_, n). n \<noteq> nid) (hr_ring r)"
proof (rule omap.extensional)
  have ok: "omap_ok (hr_ring r)" using assms(1) by (simp add: ring_inv_def)
  show "omap_ok (hr_ring (HashRing_remove_node nid r))" "omap_ok (filter (\<lambda>(_, n). n \<noteq> nid) (hr_ring r))"
    using ring_inv_remove [OF assms] omap_ok_filter [OF ok] by (simp_all add: ring_inv_def)
  show "map_of (hr_ring (HashRing_remove_node nid r)) = map_of (filter (\<lambda>(_, n). n \<noteq> nid) (hr_ring r))"
  proof (rule ext, rule option_eqI)
    fix p n
    have "map_of (filter (\<lambda>(_, n). n \<noteq> nid) (hr_ring r)) p = Some n
        \<longleftrightarrow> map_of (hr_ring r) p = Some n \<and> n \<noteq> nid"
      using map_of_filter_snd [OF omap_ok_distinct [OF ok], of "\<lambda>n. n \<noteq> nid" p] by (auto split: option.splits)
    then show "map_of (hr_ring (HashRing_remove_node nid r)) p = Some n
        \<longleftrightarrow> map_of (filter (\<lambda>(_, n). n \<noteq> nid) (hr_ring r)) p = Some n"
      using assms(1) by (auto simp: ring_inv_lookup [OF ring_inv_remove [OF assms]] ring_inv_lookup)
  qed
qed

section \<open>Reachable rings\<close>

datatype ring_op = AddNode NodeId | RemoveNode NodeId

fun ring_op_node :: "ring_op \<Rightarrow> NodeId" where
  "ring_op_node (AddNode nid) = nid"
| "ring_op_node (RemoveNode nid) = nid"

fun ring_step :: "ring_op \<Rightarrow> HashRing \<Rightarrow> HashRing" where
  "ring_step (AddNode nid) r = HashRing_add_node nid r"
| "ring_step (RemoveNode nid) r = HashRing_remove_node nid r"

definition ring_run :: "u64 \<Rightarrow> ring_op list \<Rightarrow> HashRing" where
  "ring_run v ops = fold ring_step ops (HashRing_new v)"

text \<open>A ring built by fewer than 2^64 operations on nodes that share no point.\<close>

definition ring_reach :: "u64 \<Rightarrow> ring_op list \<Rightarrow> bool" where
  "ring_reach v ops \<longleftrightarrow> v \<noteq> 0 \<and> fits ops \<and> points_apart v (ring_op_node ` set ops)"

lemma points_apart_mono: "points_apart v N \<Longrightarrow> M \<subseteq> N \<Longrightarrow> points_apart v M"
  unfolding points_apart_def by blast

lemma length_nodes_step: "length (hr_nodes (ring_step op r)) \<le> Suc (length (hr_nodes r))"
  by (cases op) (auto simp: HashRing_add_node_def HashRing_remove_node_def length_remove1)

lemma ring_step_inv:
  assumes "ring_inv r" "points_apart (hr_virtual_nodes r) N" "set (hr_nodes r) \<subseteq> N" "ring_op_node op \<in> N"
    "length (hr_nodes r) + 1 < 2 ^ 64"
  shows "ring_inv (ring_step op r) \<and> set (hr_nodes (ring_step op r)) \<subseteq> N
     \<and> hr_virtual_nodes (ring_step op r) = hr_virtual_nodes r"
proof (cases op)
  case (AddNode nid)
  then have "points_apart (hr_virtual_nodes r) (insert nid (set (hr_nodes r)))"
    using assms points_apart_mono [of _ N] by simp
  then show ?thesis using ring_inv_add assms AddNode by simp
next
  case (RemoveNode nid)
  then show ?thesis
    using ring_inv_remove [OF assms(1) points_apart_mono [OF assms(2,3)], of nid] assms(1,3) by auto
qed

lemma ring_fold_inv:
  "ring_inv r \<Longrightarrow> points_apart (hr_virtual_nodes r) N \<Longrightarrow> set (hr_nodes r) \<subseteq> N \<Longrightarrow>
   ring_op_node ` set ops \<subseteq> N \<Longrightarrow> length (hr_nodes r) + length ops < 2 ^ 64 \<Longrightarrow>
   ring_inv (fold ring_step ops r) \<and> set (hr_nodes (fold ring_step ops r)) \<subseteq> N
     \<and> hr_virtual_nodes (fold ring_step ops r) = hr_virtual_nodes r"
proof (induction ops arbitrary: r)
  case (Cons op ops)
  have step: "ring_inv (ring_step op r) \<and> set (hr_nodes (ring_step op r)) \<subseteq> N
     \<and> hr_virtual_nodes (ring_step op r) = hr_virtual_nodes r"
    using Cons.prems by (intro ring_step_inv) auto
  moreover have "length (hr_nodes (ring_step op r)) + length ops < 2 ^ 64"
    using Cons.prems(5) length_nodes_step [of op r] by simp
  ultimately show ?case using Cons.IH [of "ring_step op r"] Cons.prems by simp
qed simp

lemma ring_run_inv:
  assumes "ring_reach v ops"
  shows "ring_inv (ring_run v ops)" "set (hr_nodes (ring_run v ops)) \<subseteq> ring_op_node ` set ops"
    "hr_virtual_nodes (ring_run v ops) = v" "points_apart v (set (hr_nodes (ring_run v ops)))"
  using ring_fold_inv [of "HashRing_new v" "ring_op_node ` set ops" ops] assms ring_inv_new [of v]
    points_apart_mono [of v "ring_op_node ` set ops"]
  by (auto simp: ring_run_def ring_reach_def HashRing_new_def)

lemma ring_entry_nodes:
  assumes "ring_inv r" and "hr_virtual_nodes r \<noteq> 0"
  shows "snd ` set (hr_ring r) = set (hr_nodes r)"
proof -
  have ne: "points (hr_virtual_nodes r) nid \<noteq> []" for nid
    using assms(2) by (simp add: points_def replicas_def unat_eq_zero)
  have "nid \<in> snd ` set (hr_ring r) \<longleftrightarrow> (\<exists>p. map_of (hr_ring r) p = Some nid)" for nid
    using assms(1) omap_ok_distinct by (force simp: ring_inv_def image_iff)
  then show ?thesis
    using ne by (auto simp: ring_inv_lookup [OF assms(1)]) (meson list.set_sel(1))
qed

lemma ring_order_props:
  assumes "ring_inv r" and "hr_virtual_nodes r \<noteq> 0"
  shows "distinct (ring_order h r)" "set (ring_order h r) = set (hr_nodes r)"
    "length (ring_order h r) = length (hr_nodes r)"
proof -
  show dist: "distinct (ring_order h r)" by (simp add: ring_order_def distinct_visit)
  have "{x \<in> set (hr_ring r). h \<le> fst x} \<union> {x \<in> set (hr_ring r). fst x < h} = set (hr_ring r)"
    by auto
  then have "set (clockwise h (hr_ring r)) = snd ` set (hr_ring r)"
    by (simp add: clockwise_def split_def flip: image_Un)
  then show "set (ring_order h r) = set (hr_nodes r)"
    using ring_entry_nodes [OF assms] by (simp add: ring_order_def set_visit)
  with dist show "length (ring_order h r) = length (hr_nodes r)"
    using assms(1) by (metis distinct_card ring_inv_def)
qed

lemma get_nodes_walk:
  assumes "ring_inv r" and "hr_virtual_nodes r \<noteq> 0" and "0 < c" and "c \<le> length (hr_nodes r)"
  shows "ring_walk (of_nat c) (vec_size (hr_nodes r)) (hr_ring r) (omap_lower_bound h (hr_ring r)) []
     = Some (take c (ring_order h r))"
proof -
  have ok: "omap_ok (hr_ring r)" and n: "length (hr_nodes r) < 2 ^ 64"
    using assms(1) by (simp_all add: ring_inv_def)
  let ?w = "ring_walk (of_nat c) (of_nat (length (hr_nodes r))) (hr_ring r)"
  let ?before = "filter (\<lambda>(p, _). p < h) (hr_ring r)"
  define after where "after = omap_lower_bound h (hr_ring r)"
  define seen where "seen = visit [] (map snd after)"
  have order: "ring_order h r = visit seen (map snd ?before)"
    by (simp add: ring_order_def clockwise_def seen_def after_def omap_lower_bound_filter [OF ok])
  have "?w (after @ []) [] = (if c \<le> length seen then Some (take c seen) else ?w [] seen)"
    using assms(3,4) n by (subst ring_walk_list) (simp_all add: seen_def)
  moreover have "?w [] seen = Some (take c (ring_order h r))" if "length seen < c"
  proof -
    have "?w (hr_ring r) seen = ?w (?before @ after) seen" using omap_split [OF ok, of h] by (simp add: after_def)
    also have "\<dots> = Some (take c (ring_order h r))"
      using that assms(3,4) n ring_order_props(3) [OF assms(1,2), of h]
      by (subst ring_walk_list) (simp_all add: order)
    finally show ?thesis by (simp add: ring_walk_wrap)
  qed
  ultimately show ?thesis
    using take_visit [of c seen "map snd ?before"] by (auto simp: vec_size_def after_def [symmetric] order not_le)
qed

lemma get_nodes_order:
  assumes "ring_inv r" and "hr_virtual_nodes r \<noteq> 0"
  shows "get_nodes_at h count r = Some (take (max 1 (min (unat count) (length (hr_nodes r)))) (ring_order h r))"
proof (cases "hr_ring r = []")
  case True
  then show ?thesis by (simp add: get_nodes_at_def ring_order_def clockwise_def)
next
  case False
  then have pos: "hr_nodes r \<noteq> []"
    using ring_entry_nodes [OF assms] by auto
  let ?c = "max 1 (min (unat count) (length (hr_nodes r)))"
  have c: "0 < ?c" "?c \<le> length (hr_nodes r)" using pos by (auto simp: max_def Suc_le_eq)
  have size: "unat (vec_size (hr_nodes r)) = length (hr_nodes r)"
    using assms(1) by (simp add: ring_inv_def unat_vec_size)
  have "(if min count (vec_size (hr_nodes r)) = 0 then 1 else min count (vec_size (hr_nodes r))) = of_nat ?c"
    using size pos
    by (auto simp: word_eq_unat max_def min_def word_le_nat_alt Suc_le_eq simp flip: vec_size_def)
  then show ?thesis
    using get_nodes_walk [OF assms c, of h] False by (simp add: get_nodes_at_def Let_def)
qed

lemma ring_order_remove:
  assumes "ring_inv r" and "points_apart (hr_virtual_nodes r) (set (hr_nodes r))"
  shows "ring_order h (HashRing_remove_node nid r) = filter (\<lambda>n. n \<noteq> nid) (ring_order h r)"
proof -
  have "clockwise h (filter (\<lambda>(_, n). n \<noteq> nid) m) = filter (\<lambda>n. n \<noteq> nid) (clockwise h m)" for m
    by (simp add: clockwise_def filter_map comp_def split_def conj_commute)
  then show ?thesis
    using visit_filter [of "\<lambda>n. n \<noteq> nid" "[]" "clockwise h (hr_ring r)"]
    by (simp add: ring_order_def remove_node_filter [OF assms])
qed

lemma ring_order_add:
  assumes "ring_inv r" and "points_apart (hr_virtual_nodes r) (insert nid (set (hr_nodes r)))"
    and "nid \<notin> set (hr_nodes r)" and "length (hr_nodes r) + 1 < 2 ^ 64"
  shows "filter (\<lambda>n. n \<noteq> nid) (ring_order h (HashRing_add_node nid r)) = ring_order h r"
proof -
  have "ring_inv (HashRing_add_node nid r)" using assms ring_inv_add by blast
  from ring_order_remove [OF this, of h nid] assms(2) show ?thesis
    by (simp add: remove_add [OF assms(1-3)])
qed

text \<open>
  When some nodes have lost all their points to others, a request for more nodes than the ring still
  shows walks forever. The owners are the nodes that occur in the ring.
\<close>

definition ring_owners :: "HashRing \<Rightarrow> NodeId set" where
  "ring_owners r = snd ` set (hr_ring r)"

lemma ring_walk_diverges:
  assumes "ring_walk count n ring it acc = Some res"
  shows "\<not> (ring \<noteq> [] \<and> distinct acc \<and> set acc \<subseteq> snd ` set ring \<and> set it \<subseteq> set ring
      \<and> card (snd ` set ring) < unat count \<and> card (snd ` set ring) < unat n)"
proof (rule ring_walk.raw_induct [OF _ assms, where P = "\<lambda>count n ring it acc res. \<not> (ring \<noteq> []
    \<and> distinct acc \<and> set acc \<subseteq> snd ` set ring \<and> set it \<subseteq> set ring
    \<and> card (snd ` set ring) < unat count \<and> card (snd ` set ring) < unat n)"], rule notI)
  fix walk and count n :: u64 and ring it :: "(u64, NodeId) omap" and acc res :: "NodeId list"
  assume IH: "\<And>count n ring it acc res. walk count n ring it acc = Some res \<Longrightarrow> \<not> (ring \<noteq> []
      \<and> distinct acc \<and> set acc \<subseteq> snd ` set ring \<and> set it \<subseteq> set ring
      \<and> card (snd ` set ring) < unat count \<and> card (snd ` set ring) < unat n)"
    and step: "(if vec_size acc < count then
        let it = (if it = [] then ring else it); nid = snd (hd it);
            acc = (if nid \<in> set acc then acc else acc @ [nid])
        in if n \<le> vec_size acc then Some acc else walk count n ring (tl it) acc
      else Some acc) = Some res"
    and pre: "ring \<noteq> [] \<and> distinct acc \<and> set acc \<subseteq> snd ` set ring \<and> set it \<subseteq> set ring
      \<and> card (snd ` set ring) < unat count \<and> card (snd ` set ring) < unat n"
  have few: "vec_size xs < count \<and> vec_size xs < n" if "distinct xs" "set xs \<subseteq> snd ` set ring" for xs
  proof -
    have "length xs \<le> card (snd ` set ring)" using that by (metis card_mono distinct_card finite_imageI finite_set)
    then have "length xs < unat count" "length xs < unat n" using pre by simp_all
    then show ?thesis by (simp add: word_less_nat_alt vec_size_def unat_of_nat le_less_trans [OF mod_less_eq_dividend])
  qed
  define it' where "it' = (if it = [] then ring else it)"
  define acc' where "acc' = (if snd (hd it') \<in> set acc then acc else acc @ [snd (hd it')])"
  have it': "it' \<noteq> []" "set it' \<subseteq> set ring" using pre by (auto simp: it'_def)
  then have "hd it' \<in> set ring" and tl: "set (tl it') \<subseteq> set ring" by (cases it'; auto)+
  then have acc': "distinct acc'" "set acc' \<subseteq> snd ` set ring" using pre by (auto simp: acc'_def)
  have "walk count n ring (tl it') acc' = Some res"
    using step few [of acc] few [OF acc'] pre by (simp add: it'_def [symmetric] acc'_def [symmetric] Let_def not_le split: if_splits)
  from IH [OF this] pre tl acc' show False by blast
qed

lemma get_nodes_diverges:
  assumes "hr_ring r \<noteq> []" and "card (ring_owners r) < unat count" and "card (ring_owners r) < unat (vec_size (hr_nodes r))"
  shows "get_nodes_at h count r = None"
proof -
  let ?c = "min count (vec_size (hr_nodes r))"
  have c: "card (ring_owners r) < unat ?c" using assms(2,3) by (simp add: min_def)
  then have ne: "?c \<noteq> 0" by (metis not_less_zero unat_0)
  have lb: "set (omap_lower_bound h (hr_ring r)) \<subseteq> set (hr_ring r)"
    by (auto simp: omap_lower_bound_def dest: set_dropWhileD)
  have "ring_walk ?c (vec_size (hr_nodes r)) (hr_ring r) (omap_lower_bound h (hr_ring r)) [] \<noteq> Some res" for res
    using ring_walk_diverges [of ?c "vec_size (hr_nodes r)" "hr_ring r" "omap_lower_bound h (hr_ring r)" "[]" res] assms(1,3) c lb
    by (auto simp: ring_owners_def)
  then have "ring_walk ?c (vec_size (hr_nodes r)) (hr_ring r) (omap_lower_bound h (hr_ring r)) [] = None"
    by (metis option.exhaust)
  then show ?thesis using assms(1) ne by (simp add: get_nodes_at_def Let_def)
qed

text \<open>Two ids that differ by the multiplier of \<^verbatim>\<open>hash_point\<close> swap their first two points.\<close>

lemma twin_points:
  "hash_point (NodeId (a XOR 0x9E3779B97F4A7C15)) 0 = hash_point (NodeId a) 1"
  "hash_point (NodeId (a XOR 0x9E3779B97F4A7C15)) 1 = hash_point (NodeId a) 0"
  by (simp_all add: hash_point_eq_iff xor.assoc)

lemma replicas_two: "replicas 2 = [0, 1]"
  by (simp add: replicas_def upt_rec)

lemma twin_ring_diverges:
  "get_nodes_at h 2 (ring_run 2 [AddNode (NodeId a), AddNode (NodeId (a XOR 0x9E3779B97F4A7C15))]) = None"
proof -
  let ?b = "NodeId (a XOR 0x9E3779B97F4A7C15)" and ?p = "hash_point (NodeId a) 0" and ?q = "hash_point (NodeId a) 1"
  define r where "r = ring_run 2 [AddNode (NodeId a), AddNode ?b]"
  have ab: "a \<noteq> a XOR 0x9E3779B97F4A7C15"
  proof
    assume "a = a XOR 0x9E3779B97F4A7C15"
    then have "a XOR a = a XOR (a XOR 0x9E3779B97F4A7C15)" by (rule arg_cong)
    then show False by (simp only: xor.assoc [symmetric] xor_self_eq xor.left_neutral) simp
  qed
  have pq: "?p \<noteq> ?q" by (simp add: hash_point_inject_replica)
  have r: "hr_ring r = (if ?p < ?q then [(?p, ?b), (?q, ?b)] else [(?q, ?b), (?p, ?b)])" "hr_nodes r = insort ?b [NodeId a]"
    using ab pq by (auto simp: r_def ring_run_def HashRing_add_node_def HashRing_new_def replicas_two twin_points)
  then have "hr_ring r \<noteq> []" "ring_owners r = {?b}" "vec_size (hr_nodes r) = 2"
    by (auto simp: ring_owners_def vec_size_def)
  then show ?thesis using get_nodes_diverges [of r 2 h] by (simp add: r_def)
qed

section \<open>Properties\<close>

text \<open>
  C28. \<^verbatim>\<open>get_nodes\<close> returns on every ring built from nodes that share no point, and its result is the beginning of the ring order:
  the distinct nodes in the order in which their points follow the hash clockwise. It has the
  requested number of nodes, at most all and at least one; \<^verbatim>\<open>is_responsible\<close> holds of the first.
\<close>

theorem ring_get_nodes_exact:
  assumes "ring_reach v ops" and "r = ring_run v ops"
  shows "get_nodes_at h count r = Some (take (max 1 (min (unat count) (length (hr_nodes r)))) (ring_order h r))
       \<and> distinct (ring_order h r) \<and> set (ring_order h r) = set (hr_nodes r)
       \<and> is_responsible nid key r = Some (hr_nodes r \<noteq> [] \<and> hd (ring_order (ck_hash key) r) = nid)"
proof -
  have inv: "ring_inv r" "hr_virtual_nodes r \<noteq> 0"
    using ring_run_inv [OF assms(1)] assms by (simp_all add: ring_reach_def)
  have ne: "ring_order h r = [] \<longleftrightarrow> hr_nodes r = []" for h
    using ring_order_props(3) [OF inv, of h] by (metis length_0_conv)
  show ?thesis
    using get_nodes_order [OF inv] ring_order_props(1,2) [OF inv]
    by (auto simp: is_responsible_def get_nodes_for_key_def ne)
qed

lemma two_nodes_reach: "ring_reach 1 [AddNode (NodeId 5), AddNode (NodeId 9)]"
  by (simp add: ring_reach_def points_apart_def points_def replicas_def hash_point_inject_node)

theorem ring_get_nodes_exact_witness:
  "get_nodes_at 7 2 (ring_run 1 [AddNode (NodeId 5), AddNode (NodeId 9)])
     = Some (take (max 1 (min 2 (length (hr_nodes (ring_run 1 [AddNode (NodeId 5), AddNode (NodeId 9)])))))
          (ring_order 7 (ring_run 1 [AddNode (NodeId 5), AddNode (NodeId 9)])))"
  using ring_get_nodes_exact [OF two_nodes_reach refl, of 7 2] by simp

text \<open>
  C29. Consistent hashing, on a ring of nodes no two of which share a point: when a node leaves, every key keeps its list of nodes except that the node
  is struck out, and when a node joins whose points are not taken, it is inserted somewhere and nothing else changes. So a
  key changes its primary node only from the node that left or to the node that joined.
\<close>

theorem ring_minimal_disruption:
  assumes "ring_reach v ops" and "r = ring_run v ops"
  shows "ring_order h (HashRing_remove_node nid r) = filter (\<lambda>n. n \<noteq> nid) (ring_order h r)
       \<and> (ring_reach v (ops @ [AddNode nid]) \<longrightarrow> nid \<notin> set (hr_nodes r) \<longrightarrow>
            filter (\<lambda>n. n \<noteq> nid) (ring_order h (HashRing_add_node nid r)) = ring_order h r)"
proof (intro conjI impI)
  note inv = ring_run_inv [OF assms(1)]
  show "ring_order h (HashRing_remove_node nid r) = filter (\<lambda>n. n \<noteq> nid) (ring_order h r)"
    using ring_order_remove inv assms(2) by simp
  assume new: "ring_reach v (ops @ [AddNode nid])" "nid \<notin> set (hr_nodes r)"
  have "points_apart v (insert nid (set (hr_nodes r)))"
    using new(1) inv(2) assms(2) points_apart_mono [of v "insert nid (ring_op_node ` set ops)" "insert nid (set (hr_nodes r))"]
    by (auto simp: ring_reach_def)
  moreover have "length (hr_nodes r) + 1 < 2 ^ 64"
  proof -
    have "length (hr_nodes r) = card (set (hr_nodes r))"
      using inv(1) assms(2) by (simp add: ring_inv_def distinct_card)
    also have "\<dots> \<le> card (ring_op_node ` set ops)" using inv(2) assms(2) by (simp add: card_mono)
    also have "\<dots> \<le> length ops" using card_image_le [of "set ops" ring_op_node] card_length [of ops] by simp
    finally show ?thesis using new(1) by (simp add: ring_reach_def)
  qed
  ultimately show "filter (\<lambda>n. n \<noteq> nid) (ring_order h (HashRing_add_node nid r)) = ring_order h r"
    using ring_order_add [of r nid h] inv assms(2) new(2) by simp
qed

theorem ring_minimal_disruption_witness:
  "ring_order 7 (HashRing_remove_node (NodeId 5) (ring_run 1 [AddNode (NodeId 5), AddNode (NodeId 9)]))
     = filter (\<lambda>n. n \<noteq> NodeId 5) (ring_order 7 (ring_run 1 [AddNode (NodeId 5), AddNode (NodeId 9)]))"
  using ring_minimal_disruption [OF two_nodes_reach refl, of 7 "NodeId 5"] by simp

text \<open>
  The points of the ring are well mixed in the sense that matters for \<^verbatim>\<open>add_node\<close>: the replicas of one
  node have different points, two nodes have different points for the same replica, and two points
  coincide exactly when the seeds they are computed from coincide.
\<close>

theorem hash_point_collisions:
  "(hash_point a i = hash_point b j \<longleftrightarrow>
      node_value a XOR i * 0x9E3779B97F4A7C15 = node_value b XOR j * 0x9E3779B97F4A7C15)
   \<and> (hash_point a i = hash_point b i \<longleftrightarrow> a = b) \<and> (hash_point a i = hash_point a j \<longleftrightarrow> i = j)"
  by (simp only: hash_point_eq_iff [of a i b j] hash_point_inject_node hash_point_inject_replica)

text \<open>
  C30. A request for nodes never returns, with the shared lock of the ring held, when it asks for more
  nodes than still own a point and the ring lists more nodes than own one. This happens: with two
  virtual nodes, two ids that differ by the multiplier of \<^verbatim>\<open>hash_point\<close> have the same two points, the
  node added second takes both from the first, and every request for two nodes diverges.
\<close>

theorem ring_walk_never_returns:
  "(hr_ring r \<noteq> [] \<longrightarrow> card (ring_owners r) < unat count \<longrightarrow> card (ring_owners r) < unat (vec_size (hr_nodes r)) \<longrightarrow>
      get_nodes_at h count r = None)
   \<and> get_nodes_at h 2 (ring_run 2 [AddNode (NodeId a), AddNode (NodeId (a XOR 0x9E3779B97F4A7C15))]) = None"
  using get_nodes_diverges twin_ring_diverges by blast

theorem ring_walk_never_returns_witness:
  "get_nodes_at 7 2 (ring_run 2 [AddNode (NodeId 5), AddNode (NodeId (5 XOR 0x9E3779B97F4A7C15))]) = None
   \<and> get_nodes_at 7 3 \<lparr>hr_virtual_nodes = 2, hr_ring = [(1, NodeId 9)], hr_nodes = [NodeId 5, NodeId 9]\<rparr> = None"
  using ring_walk_never_returns [of "\<lparr>hr_virtual_nodes = 2, hr_ring = [(1, NodeId 9)], hr_nodes = [NodeId 5, NodeId 9]\<rparr>" 3 7 5]
  by (simp add: ring_owners_def vec_size_def)

end
