(* ===== verification/Sparse_Cache.thy ===== *)
theory Sparse_Cache
  imports Types Binary64
begin

text \<open>
  Values written piece by piece (\<^verbatim>\<open>sparse_cache.hpp\<close>). The hash map of entries is an association list with
  distinct keys; each method runs under the mutex and is one step. \<open>Undefined_behaviour\<close> is the copy past
  the end of the buffer that a wrapped \<^verbatim>\<open>offset + len\<close> lets through.
\<close>

record SparseEntry =
  se_total_size :: u64
  se_data :: "byte list"
  se_written :: "bool list"
  se_finalized :: bool

definition SparseEntry_new :: "u64 \<Rightarrow> SparseEntry" where
  "SparseEntry_new sz =
     \<lparr>se_total_size = sz, se_data = replicate (unat sz) 0, se_written = replicate (unat sz) False,
      se_finalized = False\<rparr>"

definition overwrite :: "'a list \<Rightarrow> nat \<Rightarrow> 'a list \<Rightarrow> 'a list" where
  "overwrite xs offset ys = take offset xs @ ys @ drop (offset + length ys) xs"

definition SparseEntry_write_range :: "u64 \<Rightarrow> byte list \<Rightarrow> SparseEntry \<Rightarrow> (bool \<times> SparseEntry) result" where
  "SparseEntry_write_range offset buf e =
     (let len = vec_size buf
      in if offset + len > se_total_size e then Inr (False, e)
         else if unat offset + length buf > length (se_data e) then Inl Undefined_behaviour
         else Inr (True, e\<lparr>se_data := overwrite (se_data e) (unat offset) buf,
                           se_written := overwrite (se_written e) (unat offset) (replicate (length buf) True)\<rparr>))"

definition SparseEntry_is_complete :: "SparseEntry \<Rightarrow> bool" where
  "SparseEntry_is_complete e = list_all (\<lambda>w. w) (se_written e)"

definition SparseEntry_completion_percent :: "SparseEntry \<Rightarrow> double" where
  "SparseEntry_completion_percent e =
     (if se_total_size e = 0 then 100
      else let count = vec_size (filter (\<lambda>w. w) (se_written e))
           in fl (fl (double_of_u64 count / double_of_u64 (se_total_size e)) * 100))"

section \<open>The cache of entries\<close>

type_synonym SparseCache = "(string \<times> SparseEntry) list"

definition SparseCache_create :: "string \<Rightarrow> u64 \<Rightarrow> SparseCache \<Rightarrow> bool \<times> SparseCache" where
  "SparseCache_create key total_size c =
     (if map_of c key \<noteq> None then (False, c)
      else (True, AList.update key (SparseEntry_new total_size) c))"

definition SparseCache_write_range ::
    "string \<Rightarrow> u64 \<Rightarrow> byte list \<Rightarrow> SparseCache \<Rightarrow> (bool \<times> SparseCache) result" where
  "SparseCache_write_range key offset data c =
     (case map_of c key of
        None \<Rightarrow> Inr (False, c)
      | Some e \<Rightarrow> bind_res (SparseEntry_write_range offset data e) (\<lambda>(ok, e').
          Inr (ok, AList.update key e' c)))"

text \<open>The output buffer is only assigned on success; the result carries it there.\<close>

datatype finalize_result = Finalized "byte list" | FinalizeNotFound | FinalizeIncomplete

definition SparseCache_finalize :: "string \<Rightarrow> SparseCache \<Rightarrow> finalize_result \<times> SparseCache" where
  "SparseCache_finalize key c =
     (case map_of c key of
        None \<Rightarrow> (FinalizeNotFound, c)
      | Some e \<Rightarrow>
          if \<not> SparseEntry_is_complete e then (FinalizeIncomplete, c)
          else (Finalized (se_data e), AList.delete key c))"

definition SparseCache_exists :: "string \<Rightarrow> SparseCache \<Rightarrow> bool" where
  "SparseCache_exists key c = (map_of c key \<noteq> None)"

definition SparseCache_get_total_size :: "string \<Rightarrow> SparseCache \<Rightarrow> u64" where
  "SparseCache_get_total_size key c = (case map_of c key of None \<Rightarrow> 0 | Some e \<Rightarrow> se_total_size e)"

definition SparseCache_get_completion :: "string \<Rightarrow> SparseCache \<Rightarrow> double" where
  "SparseCache_get_completion key c =
     (case map_of c key of None \<Rightarrow> 0 | Some e \<Rightarrow> SparseEntry_completion_percent e)"

definition SparseCache_remove :: "string \<Rightarrow> SparseCache \<Rightarrow> bool \<times> SparseCache" where
  "SparseCache_remove key c = (map_of c key \<noteq> None, AList.delete key c)"

definition SparseCache_count :: "SparseCache \<Rightarrow> u64" where
  "SparseCache_count c = vec_size c"

section \<open>An entry as a partial sequence of bytes\<close>

definition entry_ok :: "SparseEntry \<Rightarrow> bool" where
  "entry_ok e \<longleftrightarrow> length (se_data e) = unat (se_total_size e) \<and> length (se_written e) = unat (se_total_size e)"

definition entry_bytes :: "SparseEntry \<Rightarrow> nat \<rightharpoonup> byte" where
  "entry_bytes e i = (if i < length (se_data e) \<and> se_written e ! i then Some (se_data e ! i) else None)"

definition piece_at :: "nat \<Rightarrow> byte list \<Rightarrow> nat \<rightharpoonup> byte" where
  "piece_at offset buf i = (if offset \<le> i \<and> i < offset + length buf then Some (buf ! (i - offset)) else None)"

lemma overwrite_simps [simp]:
  "offset + length ys \<le> length xs \<Longrightarrow> length (overwrite xs offset ys) = length xs"
  "offset + length ys \<le> length xs \<Longrightarrow> i < length xs \<Longrightarrow>
     overwrite xs offset ys ! i = (if offset \<le> i \<and> i < offset + length ys then ys ! (i - offset) else xs ! i)"
  by (auto simp: overwrite_def nth_append min_def)

lemma entry_ok_new [simp]:
  "entry_ok (SparseEntry_new sz)" "entry_bytes (SparseEntry_new sz) = Map.empty"
  "se_total_size (SparseEntry_new sz) = sz"
  by (auto simp: entry_ok_def entry_bytes_def SparseEntry_new_def fun_eq_iff)

lemma write_range_bytes:
  assumes "entry_ok e" and "SparseEntry_write_range offset buf e = Inr (True, e')"
  shows "entry_ok e' \<and> se_total_size e' = se_total_size e
     \<and> unat offset + length buf \<le> unat (se_total_size e)
     \<and> entry_bytes e' = entry_bytes e ++ piece_at (unat offset) buf"
proof -
  have fits: "unat offset + length buf \<le> unat (se_total_size e)"
    and e': "e' = e\<lparr>se_data := overwrite (se_data e) (unat offset) buf,
        se_written := overwrite (se_written e) (unat offset) (replicate (length buf) True)\<rparr>"
    using assms by (auto simp: SparseEntry_write_range_def Let_def entry_ok_def split: if_splits)
  have "entry_bytes e' i = (entry_bytes e ++ piece_at (unat offset) buf) i" for i
    using fits assms(1) by (auto simp: e' entry_ok_def entry_bytes_def piece_at_def map_add_def)
  then show ?thesis
    using fits assms(1) by (simp add: e' entry_ok_def fun_eq_iff)
qed

lemma write_range_refused:
  "SparseEntry_write_range offset buf e = Inr (False, e') \<Longrightarrow> e' = e"
  by (auto simp: SparseEntry_write_range_def Let_def split: if_splits)

lemma complete_iff:
  "entry_ok e \<Longrightarrow> SparseEntry_is_complete e \<longleftrightarrow> dom (entry_bytes e) = {..<unat (se_total_size e)}"
  by (auto simp: SparseEntry_is_complete_def entry_ok_def entry_bytes_def list_all_length dom_def)

lemma data_of_bytes:
  "entry_ok e \<Longrightarrow> SparseEntry_is_complete e \<Longrightarrow> map Some (se_data e) = map (entry_bytes e) [0..<unat (se_total_size e)]"
  by (rule nth_equalityI)
    (auto simp: SparseEntry_is_complete_def entry_ok_def entry_bytes_def list_all_length simp del: upt_Suc)

section \<open>Assembling a value from pieces\<close>

fun write_pieces :: "string \<Rightarrow> (u64 \<times> byte list) list \<Rightarrow> SparseCache \<Rightarrow> SparseCache option" where
  "write_pieces key [] c = Some c"
| "write_pieces key ((offset, buf) # ps) c =
     (case SparseCache_write_range key offset buf c of
        Inr (True, c') \<Rightarrow> write_pieces key ps c'
      | _ \<Rightarrow> None)"

definition overlay :: "(u64 \<times> byte list) list \<Rightarrow> nat \<rightharpoonup> byte" where
  "overlay ps = fold (\<lambda>(offset, buf) m. m ++ piece_at (unat offset) buf) ps Map.empty"

lemma write_pieces_bytes:
  "map_of c key = Some e \<Longrightarrow> entry_ok e \<Longrightarrow> write_pieces key ps c = Some c' \<Longrightarrow>
   \<exists>e'. map_of c' key = Some e' \<and> entry_ok e' \<and> se_total_size e' = se_total_size e
     \<and> entry_bytes e' = fold (\<lambda>(offset, buf) m. m ++ piece_at (unat offset) buf) ps (entry_bytes e)
     \<and> (\<forall>k. k \<noteq> key \<longrightarrow> map_of c' k = map_of c k)"
proof (induction ps arbitrary: c e)
  case (Cons p ps)
  obtain offset buf where p: "p = (offset, buf)" by (cases p)
  with Cons.prems obtain e1 where
    w: "SparseEntry_write_range offset buf e = Inr (True, e1)"
    and rest: "write_pieces key ps (AList.update key e1 c) = Some c'"
    by (auto simp: SparseCache_write_range_def bind_res_def split: sum.splits bool.splits)
  from write_range_bytes [OF Cons.prems(2) w] Cons.IH [OF _ _ rest, of e1] show ?case
    by (auto simp: p)
qed auto

section \<open>Properties\<close>

text \<open>
  C31. A value written in pieces is assembled correctly: when a new entry is created and a sequence of
  pieces is accepted, \<^verbatim>\<open>finalize\<close> succeeds exactly when the pieces cover every byte, and then the value
  has at each position the byte of the last piece written there; the entry is gone afterwards.
  Otherwise it answers that the entry is incomplete and keeps it. Other keys are not touched.
\<close>

theorem sparse_assembles:
  assumes "SparseCache_create key sz c = (True, c0)" and "write_pieces key ps c0 = Some c1"
    and "SparseCache_finalize key c1 = (res, c2)"
  shows "(if dom (overlay ps) = {..<unat sz}
          then (\<exists>v. res = Finalized v \<and> map Some v = map (overlay ps) [0..<unat sz] \<and> \<not> SparseCache_exists key c2)
          else res = FinalizeIncomplete \<and> c2 = c1)
       \<and> (\<forall>k. k \<noteq> key \<longrightarrow> map_of c2 k = map_of c k)"
proof -
  have c0: "map_of c0 = (map_of c)(key \<mapsto> SparseEntry_new sz)"
    using assms(1) by (auto simp: SparseCache_create_def split: if_splits)
  obtain e where e: "map_of c1 key = Some e" "entry_ok e" "se_total_size e = sz" "entry_bytes e = overlay ps"
    and other: "\<forall>k. k \<noteq> key \<longrightarrow> map_of c1 k = map_of c k"
    using write_pieces_bytes [OF _ entry_ok_new(1) assms(2), of sz] c0
    by (auto simp: overlay_def)
  then show ?thesis
    using assms(3) complete_iff [OF e(2)] data_of_bytes [OF e(2)]
    by (auto simp: SparseCache_finalize_def SparseCache_exists_def split: if_splits)
qed

theorem sparse_assembles_witness:
  "\<exists>v c2. SparseCache_finalize ''k'' [(''k'', \<lparr>se_total_size = 3, se_data = [5, 6, 8], se_written = [True, True, True],
       se_finalized = False\<rparr>)] = (Finalized v, c2)
     \<and> map Some v = map (overlay [(1, [7, 8]), (0, [5, 6])]) [0..<unat (3 :: u64)]"
proof -
  let ?c1 = "[(''k'', \<lparr>se_total_size = 3, se_data = [5, 6, 8], se_written = [True, True, True], se_finalized = False\<rparr>)]"
  let ?ps = "[(1 :: u64, [7, 8 :: byte]), (0, [5, 6])]"
  obtain res c2 where fin: "SparseCache_finalize ''k'' ?c1 = (res, c2)" by fastforce
  have create: "SparseCache_create ''k'' 3 [] = (True, [(''k'', SparseEntry_new 3)])"
    by (simp add: SparseCache_create_def)
  have "SparseEntry_new 3 = \<lparr>se_total_size = 3, se_data = [0, 0, 0], se_written = [False, False, False], se_finalized = False\<rparr>"
    by (simp add: SparseEntry_new_def) (simp add: numeral_3_eq_3)
  then have pieces: "write_pieces ''k'' ?ps [(''k'', SparseEntry_new 3)] = Some ?c1"
    by (simp add: SparseCache_write_range_def SparseEntry_write_range_def vec_size_Cons overwrite_def)
  have cover: "dom (overlay ?ps) = {..<unat (3 :: u64)}"
    by (auto simp: overlay_def piece_at_def dom_def map_add_def split: if_splits)
  show ?thesis
    using sparse_assembles [OF create pieces fin, THEN conjunct1] fin unfolding if_P [OF cover] by blast
qed

end
