(* ===== verification/Config.thy ===== *)
theory Config
  imports Types Binary64
begin

text \<open>
  The configuration (\<^verbatim>\<open>config.hpp\<close>, \<^verbatim>\<open>config.cpp\<close>): the structures with their defaults, the search-based
  reader of JSON text, \<^verbatim>\<open>load_json\<close> and \<^verbatim>\<open>validate\<close>. Durations are their counts. A conversion between
  integer types is the reduction of the target type.
\<close>

section \<open>Strings\<close>

definition is_digit :: "char \<Rightarrow> bool" where
  "is_digit c = is_base_digit 10 c"

text \<open>\<^verbatim>\<open>s.find(pat, pos)\<close>; \<open>None\<close> is \<^verbatim>\<open>npos\<close>.\<close>

definition str_find :: "string \<Rightarrow> string \<Rightarrow> nat \<Rightarrow> nat option" where
  "str_find s pat pos = List.find (\<lambda>i. take (length pat) (drop i s) = pat) [pos..<Suc (length s)]"

definition substr :: "string \<Rightarrow> nat \<Rightarrow> nat \<Rightarrow> string" where
  "substr s pos n = take n (drop pos s)"

definition decimal :: "string \<Rightarrow> nat" where
  "decimal ds = digits_value 10 (map (\<lambda>c. the (digit_val c)) ds)"

fun split_sign :: "string \<Rightarrow> int \<times> string" where
  "split_sign (c # s) = (if c = CHR ''-'' then (- 1, s) else if c = CHR ''+'' then (1, s) else (1, c # s))"
| "split_sign [] = (1, [])"

definition stoll :: "string \<Rightarrow> int result" where
  "stoll s =
     (let (sign, rest) = split_sign (dropWhile is_space s);
          ds = takeWhile is_digit rest;
          v = sign * int (decimal ds)
      in if ds = [] then Inl Invalid_argument
         else if v < - (2 ^ 63) \<or> 2 ^ 63 \<le> v then Inl Out_of_range
         else Inr v)"

text \<open>\<^verbatim>\<open>std::stod\<close> on a decimal number without exponent.\<close>

definition stod :: "string \<Rightarrow> double result" where
  "stod s =
     (let (sign, rest) = split_sign (dropWhile is_space s);
          whole = takeWhile is_digit rest;
          rest' = dropWhile is_digit rest;
          frac = (if rest' \<noteq> [] \<and> hd rest' = CHR ''.'' then takeWhile is_digit (tl rest') else [])
      in if whole = [] \<and> frac = [] then Inl Invalid_argument
         else Inr (fl (of_int sign * of_nat (decimal (whole @ frac)) / 10 ^ length frac)))"

section \<open>Structures\<close>

record MemoryCacheConfig =
  mem_max_size :: u64
  mem_arc_ghost_size :: u64
  mem_high_watermark :: double
  mem_low_watermark :: double

record DiskCacheConfig =
  disk_path :: string
  disk_max_size :: u64
  disk_block_size :: u64
  disk_use_direct_io :: bool
  disk_use_fallocate :: bool
  disk_write_buffer_size :: u64
  disk_high_watermark :: double
  disk_low_watermark :: double

record NetworkConfig =
  net_bind_address :: string
  net_cluster_port :: u16
  net_http_port :: u16
  net_sdk_port :: u16
  net_unix_socket_path :: string
  net_shm_path :: string
  net_shm_size :: u64
  net_max_connections :: u64
  net_connect_timeout :: int
  net_read_timeout :: int
  net_write_timeout :: int
  net_recv_buffer_size :: u64
  net_send_buffer_size :: u64

record ClusterConfig =
  cl_cluster_name :: string
  cl_seed_nodes :: "string list"
  cl_gossip_interval :: int
  cl_failure_detection_timeout :: int
  cl_gossip_fanout :: u64
  cl_replication_factor :: u64
  cl_prefer_local :: bool
  cl_virtual_nodes :: u64

record PoolConfig =
  pool_memory_contribution :: u64
  pool_disk_contribution :: u64
  pool_accept_remote_reads :: bool
  pool_accept_remote_writes :: bool

record PerformanceConfig =
  perf_io_threads :: u64
  perf_worker_threads :: u64
  perf_max_concurrent_disk_ops :: u64
  perf_max_concurrent_network_ops :: u64
  perf_prefetch_chunks :: u64
  perf_enable_metrics :: bool
  perf_metrics_interval :: int

record Config =
  cfg_node_name :: string
  cfg_memory :: MemoryCacheConfig
  cfg_disk :: DiskCacheConfig
  cfg_network :: NetworkConfig
  cfg_cluster :: ClusterConfig
  cfg_pool :: PoolConfig
  cfg_perf :: PerformanceConfig

definition MemoryCacheConfig_new :: MemoryCacheConfig where
  "MemoryCacheConfig_new = \<lparr>mem_max_size = 1024 * 1024 * 1024, mem_arc_ghost_size = 0,
     mem_high_watermark = fl (95 / 100), mem_low_watermark = fl (85 / 100)\<rparr>"

definition DiskCacheConfig_new :: DiskCacheConfig where
  "DiskCacheConfig_new = \<lparr>disk_path = ''/var/cache/elcache'', disk_max_size = 100 * 1024 * 1024 * 1024,
     disk_block_size = 4096, disk_use_direct_io = True, disk_use_fallocate = True,
     disk_write_buffer_size = 64 * 1024 * 1024, disk_high_watermark = fl (90 / 100),
     disk_low_watermark = fl (80 / 100)\<rparr>"

definition NetworkConfig_new :: NetworkConfig where
  "NetworkConfig_new = \<lparr>net_bind_address = ''0.0.0.0'', net_cluster_port = 7890, net_http_port = 8080,
     net_sdk_port = 7891, net_unix_socket_path = ''/var/run/elcache/elcache.sock'',
     net_shm_path = ''/elcache_shm'', net_shm_size = 256 * 1024 * 1024, net_max_connections = 10000,
     net_connect_timeout = 5000, net_read_timeout = 30000, net_write_timeout = 30000,
     net_recv_buffer_size = 256 * 1024, net_send_buffer_size = 256 * 1024\<rparr>"

definition ClusterConfig_new :: ClusterConfig where
  "ClusterConfig_new = \<lparr>cl_cluster_name = ''elcache'', cl_seed_nodes = [], cl_gossip_interval = 1000,
     cl_failure_detection_timeout = 10000, cl_gossip_fanout = 3, cl_replication_factor = 2,
     cl_prefer_local = True, cl_virtual_nodes = 150\<rparr>"

definition PoolConfig_new :: PoolConfig where
  "PoolConfig_new = \<lparr>pool_memory_contribution = 0, pool_disk_contribution = 0,
     pool_accept_remote_reads = True, pool_accept_remote_writes = True\<rparr>"

definition PerformanceConfig_new :: PerformanceConfig where
  "PerformanceConfig_new = \<lparr>perf_io_threads = 0, perf_worker_threads = 0, perf_max_concurrent_disk_ops = 64,
     perf_max_concurrent_network_ops = 256, perf_prefetch_chunks = 2, perf_enable_metrics = True,
     perf_metrics_interval = 60\<rparr>"

definition Config_new :: Config where
  "Config_new = \<lparr>cfg_node_name = '''', cfg_memory = MemoryCacheConfig_new, cfg_disk = DiskCacheConfig_new,
     cfg_network = NetworkConfig_new, cfg_cluster = ClusterConfig_new, cfg_pool = PoolConfig_new,
     cfg_perf = PerformanceConfig_new\<rparr>"

section \<open>The JSON reader\<close>

type_synonym SimpleJson = string

definition quoted :: "string \<Rightarrow> string" where
  "quoted key = CHR 0x22 # key @ [CHR 0x22]"

text \<open>The position of the colon after the key, where every reader of a value starts.\<close>

definition find_colon :: "SimpleJson \<Rightarrow> string \<Rightarrow> nat option" where
  "find_colon json key = Option.bind (str_find json (quoted key) 0) (str_find json '':'')"

definition get_string :: "SimpleJson \<Rightarrow> string \<Rightarrow> string \<Rightarrow> string" where
  "get_string json key dflt =
     (case Option.bind (find_colon json key) (str_find json [CHR 0x22]) of
        None \<Rightarrow> dflt
      | Some pos \<Rightarrow>
          (case str_find json [CHR 0x22] (pos + 1) of
             None \<Rightarrow> dflt
           | Some end \<Rightarrow> substr json (pos + 1) (end - pos - 1)))"

definition get_int :: "SimpleJson \<Rightarrow> string \<Rightarrow> int \<Rightarrow> int result" where
  "get_int json key dflt =
     (case find_colon json key of
        None \<Rightarrow> Inr dflt
      | Some pos \<Rightarrow>
          let num = takeWhile (\<lambda>c. is_digit c \<or> c = CHR ''-'') (dropWhile is_space (drop (pos + 1) json))
          in if num = [] then Inr dflt else stoll num)"

definition get_double :: "SimpleJson \<Rightarrow> string \<Rightarrow> double \<Rightarrow> double result" where
  "get_double json key dflt =
     (case find_colon json key of
        None \<Rightarrow> Inr dflt
      | Some pos \<Rightarrow>
          let num = takeWhile (\<lambda>c. is_digit c \<or> c = CHR ''-'' \<or> c = CHR ''.'')
                      (dropWhile is_space (drop (pos + 1) json))
          in if num = [] then Inr dflt else stod num)"

definition get_bool :: "SimpleJson \<Rightarrow> string \<Rightarrow> bool \<Rightarrow> bool" where
  "get_bool json key dflt =
     (case find_colon json key of
        None \<Rightarrow> dflt
      | Some pos \<Rightarrow>
          if str_find json ''true'' pos \<noteq> None then True
          else if str_find json ''false'' pos \<noteq> None then False
          else dflt)"

lemma str_find_bound: "str_find s pat pos = Some i \<Longrightarrow> pos \<le> i \<and> i \<le> length s"
  by (auto simp: str_find_def find_Some_iff simp del: upt_Suc)

function string_array_loop :: "string \<Rightarrow> nat \<Rightarrow> string list" where
  "string_array_loop arr start =
     (case str_find arr [CHR 0x22] start of
        None \<Rightarrow> []
      | Some s \<Rightarrow>
          (case str_find arr [CHR 0x22] (s + 1) of
             None \<Rightarrow> []
           | Some str_end \<Rightarrow> substr arr (s + 1) (str_end - s - 1) # string_array_loop arr (str_end + 1)))"
  by pat_completeness auto
termination
  by (relation "measure (\<lambda>(arr, start). Suc (length arr) - start)")
    (auto dest!: str_find_bound)

declare string_array_loop.simps [simp del]

definition get_string_array :: "SimpleJson \<Rightarrow> string \<Rightarrow> string list" where
  "get_string_array json key =
     (case Option.bind (str_find json (quoted key) 0) (str_find json ''['') of
        None \<Rightarrow> []
      | Some pos \<Rightarrow>
          (case str_find json '']'' pos of
             None \<Rightarrow> []
           | Some end \<Rightarrow> string_array_loop (substr json (pos + 1) (end - pos - 1)) 0))"

text \<open>The number of characters up to the brace that closes the object, from depth \<open>depth\<close>.\<close>

fun object_length :: "nat \<Rightarrow> string \<Rightarrow> nat" where
  "object_length depth [] = 0"
| "object_length depth (c # s) =
     (if depth = 0 then 0
      else Suc (object_length (if c = CHR ''{'' then depth + 1 else if c = CHR ''}'' then depth - 1 else depth) s))"

definition get_object :: "SimpleJson \<Rightarrow> string \<Rightarrow> SimpleJson" where
  "get_object json key =
     (case Option.bind (str_find json (quoted key) 0) (str_find json ''{'') of
        None \<Rightarrow> ''{}''
      | Some pos \<Rightarrow> substr json pos (Suc (object_length 1 (drop (pos + 1) json))))"

section \<open>Loading\<close>

definition u64_to_int :: "u64 \<Rightarrow> int" where
  "u64_to_int w = sint w"

definition load_memory :: "SimpleJson \<Rightarrow> MemoryCacheConfig \<Rightarrow> MemoryCacheConfig result" where
  "load_memory mem c =
     bind_res (get_int mem ''max_size'' (u64_to_int (mem_max_size c))) (\<lambda>max_size.
     bind_res (get_int mem ''arc_ghost_size'' (u64_to_int (mem_arc_ghost_size c))) (\<lambda>ghost.
     bind_res (get_double mem ''high_watermark'' (fl (95 / 100))) (\<lambda>high.
     bind_res (get_double mem ''low_watermark'' (fl (85 / 100))) (\<lambda>low.
       Inr \<lparr>mem_max_size = word_of_int max_size, mem_arc_ghost_size = word_of_int ghost,
            mem_high_watermark = high, mem_low_watermark = low\<rparr>))))"

definition load_disk :: "SimpleJson \<Rightarrow> DiskCacheConfig \<Rightarrow> DiskCacheConfig result" where
  "load_disk disk c =
     (let path = get_string disk ''path'' '''';
          c = (if path \<noteq> [] then c\<lparr>disk_path := path\<rparr> else c)
      in bind_res (get_int disk ''max_size'' (u64_to_int (disk_max_size c))) (\<lambda>max_size.
         bind_res (get_double disk ''high_watermark'' (fl (90 / 100))) (\<lambda>high.
         bind_res (get_double disk ''low_watermark'' (fl (80 / 100))) (\<lambda>low.
           Inr (c\<lparr>disk_max_size := word_of_int max_size,
                  disk_use_direct_io := get_bool disk ''use_direct_io'' True,
                  disk_use_fallocate := get_bool disk ''use_fallocate'' True,
                  disk_high_watermark := high, disk_low_watermark := low\<rparr>)))))"

definition load_network :: "SimpleJson \<Rightarrow> NetworkConfig \<Rightarrow> NetworkConfig result" where
  "load_network net c =
     bind_res (get_int net ''cluster_port'' 7890) (\<lambda>cluster_port.
     bind_res (get_int net ''http_port'' 8080) (\<lambda>http_port.
     bind_res (get_int net ''sdk_port'' 7891) (\<lambda>sdk_port.
     bind_res (get_int net ''shm_size'' (256 * 1024 * 1024)) (\<lambda>shm_size.
     bind_res (get_int net ''max_connections'' 10000) (\<lambda>max_connections.
       Inr (c\<lparr>net_bind_address := get_string net ''bind_address'' ''0.0.0.0'',
              net_cluster_port := word_of_int cluster_port, net_http_port := word_of_int http_port,
              net_sdk_port := word_of_int sdk_port,
              net_unix_socket_path := get_string net ''unix_socket_path'' ''/var/run/elcache/elcache.sock'',
              net_shm_path := get_string net ''shm_path'' ''/elcache_shm'',
              net_shm_size := word_of_int shm_size, net_max_connections := word_of_int max_connections\<rparr>))))))"

definition load_cluster :: "SimpleJson \<Rightarrow> ClusterConfig result" where
  "load_cluster cluster =
     bind_res (get_int cluster ''gossip_interval_ms'' 1000) (\<lambda>gossip_interval.
     bind_res (get_int cluster ''failure_detection_timeout_ms'' 10000) (\<lambda>failure_timeout.
     bind_res (get_int cluster ''gossip_fanout'' 3) (\<lambda>fanout.
     bind_res (get_int cluster ''replication_factor'' 2) (\<lambda>replication.
     bind_res (get_int cluster ''virtual_nodes'' 150) (\<lambda>virtual_nodes.
       Inr \<lparr>cl_cluster_name = get_string cluster ''cluster_name'' ''elcache'',
            cl_seed_nodes = get_string_array cluster ''seed_nodes'',
            cl_gossip_interval = gossip_interval, cl_failure_detection_timeout = failure_timeout,
            cl_gossip_fanout = word_of_int fanout, cl_replication_factor = word_of_int replication,
            cl_prefer_local = get_bool cluster ''prefer_local'' True,
            cl_virtual_nodes = word_of_int virtual_nodes\<rparr>)))))"

definition load_pool :: "SimpleJson \<Rightarrow> PoolConfig result" where
  "load_pool pool =
     bind_res (get_int pool ''memory_contribution'' 0) (\<lambda>memory.
     bind_res (get_int pool ''disk_contribution'' 0) (\<lambda>disk.
       Inr \<lparr>pool_memory_contribution = word_of_int memory, pool_disk_contribution = word_of_int disk,
            pool_accept_remote_reads = get_bool pool ''accept_remote_reads'' True,
            pool_accept_remote_writes = get_bool pool ''accept_remote_writes'' True\<rparr>))"

definition load_performance :: "SimpleJson \<Rightarrow> PerformanceConfig \<Rightarrow> PerformanceConfig result" where
  "load_performance perf c =
     bind_res (get_int perf ''io_threads'' 0) (\<lambda>io_threads.
     bind_res (get_int perf ''worker_threads'' 0) (\<lambda>worker_threads.
     bind_res (get_int perf ''max_concurrent_disk_ops'' 64) (\<lambda>disk_ops.
     bind_res (get_int perf ''max_concurrent_network_ops'' 256) (\<lambda>network_ops.
     bind_res (get_int perf ''prefetch_chunks'' 2) (\<lambda>prefetch.
       Inr (c\<lparr>perf_io_threads := word_of_int io_threads, perf_worker_threads := word_of_int worker_threads,
              perf_max_concurrent_disk_ops := word_of_int disk_ops,
              perf_max_concurrent_network_ops := word_of_int network_ops,
              perf_prefetch_chunks := word_of_int prefetch,
              perf_enable_metrics := get_bool perf ''enable_metrics'' True\<rparr>))))))"

definition load_json :: "string \<Rightarrow> Config result" where
  "load_json json =
     (let c = Config_new
      in bind_res (load_memory (get_object json ''memory'') (cfg_memory c)) (\<lambda>memory.
         bind_res (load_disk (get_object json ''disk'') (cfg_disk c)) (\<lambda>disk.
         bind_res (load_network (get_object json ''network'') (cfg_network c)) (\<lambda>network.
         bind_res (load_cluster (get_object json ''cluster'')) (\<lambda>cluster.
         bind_res (load_pool (get_object json ''pool'')) (\<lambda>pool.
         bind_res (load_performance (get_object json ''performance'') (cfg_perf c)) (\<lambda>perf.
           Inr \<lparr>cfg_node_name = get_string json ''node_name'' '''', cfg_memory = memory, cfg_disk = disk,
                cfg_network = network, cfg_cluster = cluster, cfg_pool = pool, cfg_perf = perf\<rparr>)))))))"

definition Config_validate :: "Config \<Rightarrow> Status" where
  "Config_validate c =
     (if mem_max_size (cfg_memory c) = 0 \<and> disk_max_size (cfg_disk c) = 0 then
        Status_error InvalidArgument ''At least one of memory or disk cache must be enabled''
      else if mem_high_watermark (cfg_memory c) \<le> mem_low_watermark (cfg_memory c) then
        Status_error InvalidArgument ''Memory high_watermark must be greater than low_watermark''
      else if disk_high_watermark (cfg_disk c) \<le> disk_low_watermark (cfg_disk c) then
        Status_error InvalidArgument ''Disk high_watermark must be greater than low_watermark''
      else if net_http_port (cfg_network c) = net_cluster_port (cfg_network c)
           \<or> net_http_port (cfg_network c) = net_sdk_port (cfg_network c)
           \<or> net_cluster_port (cfg_network c) = net_sdk_port (cfg_network c) then
        Status_error InvalidArgument ''Network ports must be unique''
      else if cl_replication_factor (cfg_cluster c) = 0 then
        Status_error InvalidArgument ''Replication factor must be at least 1''
      else Status_ok)"

section \<open>Reading a number back\<close>

lemma str_find_first:
  assumes "take (length pat) (drop i s) = pat" and "pos \<le> i" and "i \<le> length s"
    and "\<And>j. pos \<le> j \<Longrightarrow> j < i \<Longrightarrow> take (length pat) (drop j s) \<noteq> pat"
  shows "str_find s pat pos = Some i"
  unfolding str_find_def find_Some_iff
  using assms by (intro exI [of _ "i - pos"]) (auto simp del: upt_Suc)

lemma find_colon_at:
  assumes json: "json = pre @ quoted key @ '':'' @ rest" and "CHR '':'' \<notin> set key"
    and first: "\<And>i. i < length pre \<Longrightarrow> take (length (quoted key)) (drop i json) \<noteq> quoted key"
  shows "find_colon json key = Some (length pre + length (quoted key))"
proof -
  have "str_find json (quoted key) 0 = Some (length pre)"
    using first by (intro str_find_first) (simp_all add: json)
  moreover have "str_find json '':'' (length pre) = Some (length pre + length (quoted key))"
  proof (rule str_find_first)
    fix j assume j: "length pre \<le> j" "j < length pre + length (quoted key)"
    then have "drop j json = drop (j - length pre) (quoted key) @ '':'' @ rest" by (simp add: json)
    moreover have "drop (j - length pre) (quoted key) \<noteq> []" using j by simp
    moreover have "CHR '':'' \<notin> set (drop (j - length pre) (quoted key))"
      using assms(2) set_drop_subset [of "j - length pre" "quoted key"] by (auto simp: quoted_def)
    ultimately show "take (length '':'') (drop j json) \<noteq> '':''"
      by (cases "drop (j - length pre) (quoted key)") auto
  qed (simp_all add: json)
  ultimately show ?thesis by (simp add: find_colon_def)
qed

lemma is_digit_to_base: "list_all is_digit (to_base 10 n)"
  by (auto simp: list_all_iff to_base_def is_digit_def intro!: is_base_digit_digit_char dest: base_digits_bound [rotated])

lemma decimal_to_base: "decimal (to_base 10 n) = n"
proof -
  have "map (\<lambda>c. the (digit_val c)) (to_base 10 n) = base_digits 10 n"
    unfolding to_base_def map_map
    by (rule map_idI) (auto simp: digit_val_digit_char dest: base_digits_bound [rotated])
  then show ?thesis by (simp add: decimal_def digits_value_base_digits)
qed

lemma digit_not_sign: "is_digit c \<Longrightarrow> c \<noteq> CHR ''-'' \<and> c \<noteq> CHR ''+'' \<and> \<not> is_space c"
  using base_digit_not_special [of 10 c] by (simp add: is_digit_def)

lemma to_base_Cons: "\<exists>c s. to_base 10 n = c # s \<and> is_digit c"
  using is_digit_to_base [of n] by (cases "to_base 10 n") (auto simp: to_base_def)

lemma stoll_to_base: "n < 2 ^ 63 \<Longrightarrow> stoll (to_base 10 n) = Inr (int n)"
proof -
  assume n: "n < 2 ^ 63"
  obtain c s where cs: "to_base 10 n = c # s" "is_digit c" using to_base_Cons by blast
  have tw: "takeWhile is_digit s = s"
    using is_digit_to_base [of n] cs by (simp add: takeWhile_eq_all_conv list_all_iff)
  show ?thesis
    using n cs digit_not_sign [OF cs(2)] decimal_to_base [of n] by (simp add: stoll_def Let_def tw)
qed

section \<open>Properties\<close>

text \<open>
  A number in the text \<^verbatim>\<open>to_json\<close> writes is read back: when the first occurrence of a quoted key is
  followed by a colon, a blank and the decimal digits of a number below 2^63, \<^verbatim>\<open>get_int\<close> returns
  that number, whatever comes before and after.
\<close>

theorem get_int_reads_number:
  assumes "json = pre @ quoted key @ '': '' @ to_base 10 n @ rest" and "n < 2 ^ 63"
    and "CHR '':'' \<notin> set key" and "rest \<noteq> [] \<Longrightarrow> \<not> is_digit (hd rest) \<and> hd rest \<noteq> CHR ''-''"
    and "\<And>i. i < length pre \<Longrightarrow> take (length (quoted key)) (drop i json) \<noteq> quoted key"
  shows "get_int json key d = Inr (int n)"
proof -
  have pos: "find_colon json key = Some (length pre + length (quoted key))"
    using find_colon_at [of json pre key "'' '' @ to_base 10 n @ rest"] assms by simp
  obtain c s where cs: "to_base 10 n = c # s" "is_digit c" using to_base_Cons by blast
  have "dropWhile is_space ('' '' @ to_base 10 n @ rest) = to_base 10 n @ rest"
    using digit_not_sign [OF cs(2)] by (simp add: cs(1) is_space_def)
  moreover have "takeWhile (\<lambda>c. is_digit c \<or> c = CHR ''-'') (to_base 10 n @ rest) = to_base 10 n"
    using is_digit_to_base [of n] assms(4) by (cases rest) (auto simp: list_all_iff takeWhile_append2)
  moreover have "drop (length pre + length (quoted key) + 1) json = '' '' @ to_base 10 n @ rest"
    by (simp add: assms(1))
  ultimately show ?thesis
    using stoll_to_base [OF assms(2)] cs(1) by (simp add: get_int_def pos)
qed

theorem get_int_reads_number_witness:
  "get_int (''{'' @ quoted ''max_size'' @ '': '' @ to_base 10 4096 @ ''}'') ''max_size'' 0 = Inr (int 4096)"
  by (rule get_int_reads_number [where pre = "''{''" and rest = "''}''"])
    (simp_all add: quoted_def is_digit_def is_base_digit_def digit_val_def)

text \<open>
  Flags are not read back: \<^verbatim>\<open>get_bool\<close> searches the word \<^verbatim>\<open>true\<close> in everything that follows the key,
  so direct I/O switched off is read as switched on when a later flag of the object is on.
\<close>

theorem false_flag_read_as_true:
  "load_json (''{'' @ quoted ''disk'' @ '': {'' @ quoted ''use_direct_io'' @ '': false, ''
      @ quoted ''use_fallocate'' @ '': true}}'') = Inr Config_new
   \<and> disk_use_direct_io (cfg_disk Config_new)"
  by code_simp

text \<open>
  \<^verbatim>\<open>validate\<close> accepts exactly the configurations that enable some cache, keep both pairs of
  watermarks in order, use three different ports and ask for at least one copy; everything else is
  refused as an invalid argument. The defaults are accepted.
\<close>

theorem validate_exact:
  "(Status_is_ok (Config_validate c) \<longleftrightarrow>
      \<not> (mem_max_size (cfg_memory c) = 0 \<and> disk_max_size (cfg_disk c) = 0)
      \<and> mem_low_watermark (cfg_memory c) < mem_high_watermark (cfg_memory c)
      \<and> disk_low_watermark (cfg_disk c) < disk_high_watermark (cfg_disk c)
      \<and> distinct [net_http_port (cfg_network c), net_cluster_port (cfg_network c), net_sdk_port (cfg_network c)]
      \<and> cl_replication_factor (cfg_cluster c) \<noteq> 0)
   \<and> st_code (Config_validate c) \<in> {Ok, InvalidArgument} \<and> Status_is_ok (Config_validate Config_new)"
proof -
  have "Status_is_ok (Config_validate Config_new)" by code_simp
  then show ?thesis by (auto simp: Config_validate_def Status_error_def Status_ok_def Status_is_ok_def)
qed

end
