(* ===== verification/Disk_Store.thy ===== *)
theory Disk_Store
  imports Config Sparse_Cache
begin

text \<open>
  Files on disk (class \<^verbatim>\<open>DiskStore\<close> of \<^verbatim>\<open>disk_cache.cpp\<close>). A path is the list of its components. The file
  system is the list of its files with their contents, the list of its directories, and a script
  of what the next system calls do: succeed in full, transfer at most some number of bytes, or fail
  with an error text. An empty script means that every call succeeds in full. Running out of memory,
  permissions and links are not modelled.
\<close>

type_synonym path = "string list"

datatype io_outcome = Io_full | Io_short nat | Io_fail string

record FileSystem =
  fs_files :: "(path \<times> byte list) list"
  fs_dirs :: "path list"
  fs_script :: "io_outcome list"

definition next_io :: "FileSystem \<Rightarrow> io_outcome \<times> FileSystem" where
  "next_io fs = (case fs_script fs of [] \<Rightarrow> (Io_full, fs) | e # es \<Rightarrow> (e, fs\<lparr>fs_script := es\<rparr>))"

text \<open>How many of \<open>n\<close> bytes a transfer moves; \<open>None\<close> is the result -1.\<close>

fun transfer :: "io_outcome \<Rightarrow> nat \<Rightarrow> nat option" where
  "transfer Io_full n = Some n"
| "transfer (Io_short k) n = Some (min k n)"
| "transfer (Io_fail e) n = None"

fun io_ok :: "io_outcome \<Rightarrow> bool" where
  "io_ok (Io_fail e) = False"
| "io_ok _ = True"

fun io_error :: "io_outcome \<Rightarrow> string" where
  "io_error (Io_fail e) = e"
| "io_error _ = []"

record DiskStore =
  ds_config :: DiskCacheConfig
  ds_root :: path
  ds_initialized :: bool
  ds_fs :: FileSystem

definition DiskStore_new :: "DiskCacheConfig \<Rightarrow> path \<Rightarrow> FileSystem \<Rightarrow> DiskStore" where
  "DiskStore_new config base fs =
     \<lparr>ds_config = config, ds_root = base, ds_initialized = False, ds_fs = fs\<rparr>"

section \<open>Directories\<close>

definition path_exists :: "FileSystem \<Rightarrow> path \<Rightarrow> bool" where
  "path_exists fs p = (p \<in> set (fs_dirs fs) \<or> map_of (fs_files fs) p \<noteq> None)"

definition prefixes_of :: "path \<Rightarrow> path list" where
  "prefixes_of p = map (\<lambda>n. take n p) [0..<Suc (length p)]"

text \<open>
  \<^verbatim>\<open>std::filesystem::exists\<close> throws when the call fails; \<^verbatim>\<open>create_directories\<close> reports its error.
\<close>

definition ensure_directory :: "path \<Rightarrow> DiskStore \<Rightarrow> Status result \<times> DiskStore" where
  "ensure_directory p s =
     (let (e1, fs1) = next_io (ds_fs s)
      in if \<not> io_ok e1 then (Inl (Runtime_error (io_error e1)), s\<lparr>ds_fs := fs1\<rparr>)
         else if path_exists fs1 p then (Inr Status_ok, s\<lparr>ds_fs := fs1\<rparr>)
         else
           let (e2, fs2) = next_io fs1
           in if io_ok e2 \<and> list_all (\<lambda>q. map_of (fs_files fs2) q = None) (prefixes_of p) then
                (Inr Status_ok, s\<lparr>ds_fs := fs2\<lparr>fs_dirs := filter (\<lambda>q. q \<notin> set (fs_dirs fs2)) (prefixes_of p) @ fs_dirs fs2\<rparr>\<rparr>)
              else (Inr (Status_error DiskError (''Failed to create directory: '' @ io_error e2)), s\<lparr>ds_fs := fs2\<rparr>))"

fun ensure_directories :: "path list \<Rightarrow> DiskStore \<Rightarrow> Status result \<times> DiskStore" where
  "ensure_directories [] s = (Inr Status_ok, s)"
| "ensure_directories (p # ps) s =
     (case ensure_directory p s of
        (Inl e, s') \<Rightarrow> (Inl e, s')
      | (Inr st, s') \<Rightarrow> if \<not> Status_is_ok st then (Inr st, s') else ensure_directories ps s')"

definition chunks_subdir :: "path \<Rightarrow> string \<Rightarrow> path" where
  "chunks_subdir base dir = base @ [''chunks'', dir]"

definition DiskStore_init :: "DiskStore \<Rightarrow> Status result \<times> DiskStore" where
  "DiskStore_init s =
     (let base = ds_root s
      in case ensure_directories
           (base # map (\<lambda>i. chunks_subdir base (pad_left 2 (to_base 16 i))) [0..<256] @ [base @ [''descriptors'']]) s of
           (Inr st, s') \<Rightarrow> (Inr st, if Status_is_ok st then s'\<lparr>ds_initialized := True\<rparr> else s')
         | (Inl e, s') \<Rightarrow> (Inl e, s'))"

section \<open>Reading\<close>

text \<open>The \<^verbatim>\<open>pread\<close> loop: \<open>need\<close> bytes are missing, \<open>rest\<close> is the file from the current position.\<close>

function pread_loop :: "nat \<Rightarrow> byte list \<Rightarrow> byte list \<Rightarrow> FileSystem \<Rightarrow> byte list \<times> FileSystem" where
  "pread_loop need acc rest fs =
     (if need = 0 then (acc, fs)
      else
        let (e, fs') = next_io fs
        in case transfer e (min need (length rest)) of
             None \<Rightarrow> (acc, fs')
           | Some n \<Rightarrow> if n = 0 then (acc, fs')
                       else pread_loop (need - n) (acc @ take n rest) (drop n rest) fs')"
  by pat_completeness auto
termination
  by (relation "measure (\<lambda>(need, acc, rest, fs). need)") auto

declare pread_loop.simps [simp del]

definition read_file :: "path \<Rightarrow> u64 \<Rightarrow> u64 \<Rightarrow> DiskStore \<Rightarrow> byte list \<times> DiskStore" where
  "read_file p offset len s =
     (let (e1, fs1) = next_io (ds_fs s)
      in case map_of (fs_files fs1) p of
           None \<Rightarrow> ([], s\<lparr>ds_fs := fs1\<rparr>)
         | Some content \<Rightarrow>
             if \<not> io_ok e1 then ([], s\<lparr>ds_fs := fs1\<rparr>)
             else
               let (len, fs2) =
                     (if len = 0 then
                        let (e2, fs2) = next_io fs1
                        in (if io_ok e2 then vec_size content - offset else len, fs2)
                      else (len, fs1));
                   (buffer, fs3) = pread_loop (unat len) [] (drop (unat offset) content) fs2
               in (buffer, s\<lparr>ds_fs := fs3\<rparr>))"

section \<open>Writing\<close>

text \<open>
  The \<^verbatim>\<open>pwrite\<close> loop: \<open>written\<close> bytes are done, \<open>data\<close> is left, \<open>content\<close> is the file. The result tells
  the error text of a failed write.
\<close>

function pwrite_loop ::
    "nat \<Rightarrow> byte list \<Rightarrow> byte list \<Rightarrow> FileSystem \<Rightarrow> string option \<times> byte list \<times> FileSystem" where
  "pwrite_loop written data content fs =
     (if data = [] then (None, content, fs)
      else
        let (e, fs') = next_io fs
        in case transfer e (length data) of
             None \<Rightarrow> (Some (io_error e), content, fs')
           | Some n \<Rightarrow>
               if n = 0 then (None, content, fs')
               else pwrite_loop (written + n) (drop n data) (overwrite content written (take n data)) fs')"
  by pat_completeness auto
termination
  by (relation "measure (\<lambda>(written, data, content, fs). length data)") auto

declare pwrite_loop.simps [simp del]

definition set_file :: "path \<Rightarrow> byte list \<Rightarrow> FileSystem \<Rightarrow> FileSystem" where
  "set_file p content fs = fs\<lparr>fs_files := AList.update p content (fs_files fs)\<rparr>"

text \<open>
  Opening truncates the file; \<^verbatim>\<open>fallocate\<close> extends it with zero bytes when it succeeds and its result is
  ignored. \<^verbatim>\<open>fchmod\<close> and \<^verbatim>\<open>fsync\<close> do not change the contents.
\<close>

definition write_file :: "path \<Rightarrow> byte list \<Rightarrow> bool \<Rightarrow> DiskStore \<Rightarrow> Status \<times> DiskStore" where
  "write_file p data sync s =
     (let (e1, fs1) = next_io (ds_fs s)
      in if \<not> io_ok e1 \<or> butlast p \<notin> set (fs_dirs fs1) then
           (Status_error DiskError (''Failed to open file for writing: '' @ io_error e1), s\<lparr>ds_fs := fs1\<rparr>)
         else
           let (content, fs2) =
                 (if disk_use_fallocate (ds_config s) \<and> data \<noteq> [] then
                    let (e2, fs2) = next_io fs1
                    in (if io_ok e2 then replicate (length data) 0 else [], fs2)
                  else ([], fs1));
               (err, content', fs3) = pwrite_loop 0 data content fs2;
               s' = s\<lparr>ds_fs := set_file p content' fs3\<rparr>
           in case err of
                Some msg \<Rightarrow> (Status_error DiskError (''Write failed: '' @ msg), s')
              | None \<Rightarrow> (Status_ok, s'))"

section \<open>Deleting and queries\<close>

text \<open>\<^verbatim>\<open>std::filesystem::remove\<close> throws when the call fails and answers whether there was a file.\<close>

definition delete_file :: "path \<Rightarrow> DiskStore \<Rightarrow> Status result \<times> DiskStore" where
  "delete_file p s =
     (let (e, fs1) = next_io (ds_fs s)
      in if \<not> io_ok e then (Inl (Runtime_error (io_error e)), s\<lparr>ds_fs := fs1\<rparr>)
         else if map_of (fs_files fs1) p = None then
           (Inr (Status_error DiskError ''Failed to delete file''), s\<lparr>ds_fs := fs1\<rparr>)
         else (Inr Status_ok, s\<lparr>ds_fs := fs1\<lparr>fs_files := AList.delete p (fs_files fs1)\<rparr>\<rparr>))"

definition file_exists :: "path \<Rightarrow> DiskStore \<Rightarrow> bool result \<times> DiskStore" where
  "file_exists p s =
     (let (e, fs1) = next_io (ds_fs s)
      in (if io_ok e then Inr (path_exists fs1 p) else Inl (Runtime_error (io_error e)), s\<lparr>ds_fs := fs1\<rparr>))"

definition file_size :: "path \<Rightarrow> DiskStore \<Rightarrow> u64 \<times> DiskStore" where
  "file_size p s =
     (let (e, fs1) = next_io (ds_fs s)
      in (case map_of (fs_files fs1) p of
            None \<Rightarrow> 0
          | Some content \<Rightarrow> if io_ok e then vec_size content else 0, s\<lparr>ds_fs := fs1\<rparr>))"

section \<open>A reliable file system\<close>

text \<open>With no failures to come, the operations read and write exactly what they should.\<close>

definition reliable :: "DiskStore \<Rightarrow> bool" where
  "reliable s = (fs_script (ds_fs s) = [])"

abbreviation file_at :: "DiskStore \<Rightarrow> path \<rightharpoonup> byte list" where
  "file_at s \<equiv> map_of (fs_files (ds_fs s))"

abbreviation dirs_of :: "DiskStore \<Rightarrow> path set" where
  "dirs_of s \<equiv> set (fs_dirs (ds_fs s))"

lemma next_io_reliable [simp]: "fs_script fs = [] \<Longrightarrow> next_io fs = (Io_full, fs)"
  by (simp add: next_io_def)

lemma pread_loop_reliable:
  assumes "fs_script fs = []" and "need \<le> length rest"
  shows "pread_loop need acc rest fs = (acc @ take need rest, fs)"
  using assms by (simp add: pread_loop.simps [of need acc rest] pread_loop.simps [of 0] Let_def min_absorb1)

lemma read_file_reliable:
  assumes "reliable s" and "\<And>c. file_at s p = Some c \<Longrightarrow> fits c"
  shows "read_file p 0 0 s = ((case file_at s p of None \<Rightarrow> [] | Some c \<Rightarrow> c), s)"
  using assms
  by (auto simp: reliable_def read_file_def pread_loop_reliable unat_vec_size split: option.splits)

lemma pwrite_loop_reliable:
  assumes "fs_script fs = []" and "length content \<le> length data"
  shows "pwrite_loop 0 data content fs = (None, if data = [] then content else data, fs)"
  using assms by (simp add: pwrite_loop.simps [of 0 data] pwrite_loop.simps [of _ "[]"] Let_def overwrite_def)

definition with_file :: "path \<Rightarrow> byte list \<Rightarrow> DiskStore \<Rightarrow> DiskStore" where
  "with_file p data s = s\<lparr>ds_fs := set_file p data (ds_fs s)\<rparr>"

lemma with_file_simps [simp]:
  "file_at (with_file p data s) = (file_at s)(p \<mapsto> data)" "dirs_of (with_file p data s) = dirs_of s"
  "reliable (with_file p data s) = reliable s" "ds_root (with_file p data s) = ds_root s"
  "ds_config (with_file p data s) = ds_config s"
  by (simp_all add: with_file_def set_file_def reliable_def)

lemma write_file_reliable:
  assumes "reliable s"
  shows "butlast p \<in> dirs_of s \<Longrightarrow> write_file p data sync s = (Status_ok, with_file p data s)"
    and "butlast p \<notin> dirs_of s \<Longrightarrow> \<exists>msg. write_file p data sync s = (Status_error DiskError msg, s)"
  using assms
  by (auto simp: reliable_def write_file_def pwrite_loop_reliable with_file_def Let_def split: if_splits)

lemma delete_file_reliable:
  assumes "reliable s"
  obtains st s' where "delete_file p s = (Inr st, s')" "reliable s'" "file_at s' = (file_at s)(p := None)"
    "dirs_of s' = dirs_of s" "ds_root s' = ds_root s" "ds_config s' = ds_config s"
proof (cases "file_at s p")
  case None
  then have "(file_at s)(p := None) = file_at s" by auto
  then show thesis using assms None that [of _ s] by (simp add: reliable_def delete_file_def)
next
  case (Some c)
  then show thesis
    using assms that [of Status_ok "s\<lparr>ds_fs := (ds_fs s)\<lparr>fs_files := AList.delete p (fs_files (ds_fs s))\<rparr>\<rparr>"]
    by (simp add: reliable_def delete_file_def)
qed

text \<open>What no operation on files changes, whatever the system calls do.\<close>

lemma store_frame [simp]:
  "ds_root (snd (read_file p a b s)) = ds_root s" "ds_root (snd (write_file p d y s)) = ds_root s"
  "ds_root (snd (delete_file p s)) = ds_root s" "ds_root (snd (file_exists p s)) = ds_root s"
  by (simp_all add: read_file_def write_file_def delete_file_def file_exists_def Let_def split: prod.splits option.splits)

text \<open>The directories \<^verbatim>\<open>init\<close> makes.\<close>

lemma ensure_directory_reliable:
  assumes "reliable s" and "\<forall>q\<in>set (prefixes_of p). file_at s q = None"
  obtains s' where "ensure_directory p s = (Inr Status_ok, s')" "reliable s'" "fs_files (ds_fs s') = fs_files (ds_fs s)"
    "dirs_of s \<subseteq> dirs_of s'" "p \<in> dirs_of s'" "ds_root s' = ds_root s"
proof (cases "path_exists (ds_fs s) p")
  case True
  have "p \<in> set (prefixes_of p)" by (auto simp: prefixes_of_def)
  then have "p \<in> dirs_of s" using True assms(2) by (auto simp: path_exists_def)
  then show thesis using assms(1) True that [of s] by (simp add: reliable_def ensure_directory_def)
next
  case False
  have "p \<in> set (prefixes_of p)" by (auto simp: prefixes_of_def)
  then show thesis
    using assms False
      that [of "s\<lparr>ds_fs := (ds_fs s)\<lparr>fs_dirs := filter (\<lambda>q. q \<notin> dirs_of s) (prefixes_of p) @ fs_dirs (ds_fs s)\<rparr>\<rparr>"]
    by (auto simp: reliable_def ensure_directory_def list_all_iff)
qed

lemma ensure_directories_reliable:
  assumes "reliable s" and "\<forall>p\<in>set ps. \<forall>q\<in>set (prefixes_of p). file_at s q = None"
  shows "\<exists>s'. ensure_directories ps s = (Inr Status_ok, s') \<and> reliable s' \<and> fs_files (ds_fs s') = fs_files (ds_fs s)
    \<and> dirs_of s \<subseteq> dirs_of s' \<and> set ps \<subseteq> dirs_of s' \<and> ds_root s' = ds_root s"
  using assms
proof (induction ps arbitrary: s)
  case (Cons p ps)
  obtain s1 where s1: "ensure_directory p s = (Inr Status_ok, s1)" "reliable s1" "fs_files (ds_fs s1) = fs_files (ds_fs s)"
    "dirs_of s \<subseteq> dirs_of s1" "p \<in> dirs_of s1" "ds_root s1 = ds_root s"
    using ensure_directory_reliable [OF Cons.prems(1), of p] Cons.prems(2) by auto
  obtain s2 where "ensure_directories ps s1 = (Inr Status_ok, s2) \<and> reliable s2 \<and> fs_files (ds_fs s2) = fs_files (ds_fs s1)
    \<and> dirs_of s1 \<subseteq> dirs_of s2 \<and> set ps \<subseteq> dirs_of s2 \<and> ds_root s2 = ds_root s1"
    using Cons.IH [OF s1(2)] Cons.prems(2) s1(3) by auto
  then show ?case using s1 by auto
qed simp

end
