(* ===== verification/Disk_Cache.thy ===== *)
theory Disk_Cache
  imports Memory_Cache Disk_Store
begin

text \<open>
  The disk cache: class \<^verbatim>\<open>DiskCache\<close> of \<^verbatim>\<open>include/elcache/disk_cache.hpp\<close> and \<^verbatim>\<open>src/cache/disk_cache.cpp\<close>.
  Chunks and descriptors are files of the store; descriptors are also kept in memory, which is where
  they are read. The steady clock is the field \<open>dc_clock\<close>, the sequence of its readings, with the
  number of readings taken; system time is the argument \<open>now\<close>. Operations that delete files may throw.
\<close>

section \<open>State\<close>

record AccessEntry =
  ae_id :: ChunkId
  ae_last_access :: int
  ae_size :: u64

record DiskCache =
  dc_config :: DiskCacheConfig
  dc_store :: DiskStore
  dc_descriptors :: "(CacheKey \<times> ValueDescriptor) list"
  dc_chunk_paths :: "(ChunkId \<times> path) list"
  dc_access_order :: "AccessEntry list"
  dc_hits :: u64
  dc_misses :: u64
  dc_bytes_read :: u64
  dc_bytes_written :: u64
  dc_evictions :: u64
  dc_current_size :: u64
  dc_clock :: "nat \<Rightarrow> int"
  dc_ticks :: nat

definition DiskCache_new :: "DiskCacheConfig \<Rightarrow> path \<Rightarrow> FileSystem \<Rightarrow> (nat \<Rightarrow> int) \<Rightarrow> DiskCache" where
  "DiskCache_new config base fs clock =
     \<lparr>dc_config = config, dc_store = DiskStore_new config base fs, dc_descriptors = [], dc_chunk_paths = [],
      dc_access_order = [], dc_hits = 0, dc_misses = 0, dc_bytes_read = 0, dc_bytes_written = 0,
      dc_evictions = 0, dc_current_size = 0, dc_clock = clock, dc_ticks = 0\<rparr>"

text \<open>
  Insertion into \<^verbatim>\<open>std::set<AccessEntry>\<close>, ordered by time alone: an entry with a time that is already
  there is not inserted.
\<close>

fun access_insert :: "AccessEntry \<Rightarrow> AccessEntry list \<Rightarrow> AccessEntry list" where
  "access_insert e [] = [e]"
| "access_insert e (x # xs) =
     (if ae_last_access e < ae_last_access x then e # x # xs
      else if ae_last_access x < ae_last_access e then x # access_insert e xs
      else x # xs)"

section \<open>Paths\<close>

definition chunk_path :: "path \<Rightarrow> ChunkId \<Rightarrow> path" where
  "chunk_path base i =
     (let hex = Hash128_to_hex (chunk_hash i) in base @ [''chunks'', take 2 hex, hex @ ''.chunk''])"

definition descriptor_path :: "path \<Rightarrow> CacheKey \<Rightarrow> path" where
  "descriptor_path base key = base @ [''descriptors'', Hash128_to_hex (ck_hash128 key) @ ''.desc'']"

abbreviation dc_base :: "DiskCache \<Rightarrow> path" where
  "dc_base dc \<equiv> ds_root (dc_store dc)"

section \<open>Chunk operations\<close>

definition DiskCache_get_chunk :: "ChunkId \<Rightarrow> DiskCache \<Rightarrow> SharedChunk \<times> DiskCache" where
  "DiskCache_get_chunk i dc =
     (let (data, s) = read_file (chunk_path (dc_base dc) i) 0 0 (dc_store dc)
      in (if data = [] then None else Some data, dc\<lparr>dc_store := s\<rparr>))"

text \<open>The bookkeeping for a chunk file, in \<^verbatim>\<open>put_chunk\<close> and in \<^verbatim>\<open>load_index\<close>.\<close>

definition index_chunk :: "ChunkId \<Rightarrow> path \<Rightarrow> u64 \<Rightarrow> DiskCache \<Rightarrow> DiskCache" where
  "index_chunk i p sz dc =
     dc\<lparr>dc_chunk_paths := AList.update i p (dc_chunk_paths dc),
        dc_current_size := dc_current_size dc + sz,
        dc_access_order := access_insert \<lparr>ae_id = i, ae_last_access = dc_clock dc (dc_ticks dc), ae_size = sz\<rparr>
                             (dc_access_order dc),
        dc_ticks := Suc (dc_ticks dc)\<rparr>"

definition DiskCache_put_chunk :: "hasher \<Rightarrow> SharedChunk \<Rightarrow> DiskCache \<Rightarrow> Status \<times> DiskCache" where
  "DiskCache_put_chunk H chunk dc =
     (case chunk of
        None \<Rightarrow> (Status_error InvalidArgument [], dc)
      | Some c \<Rightarrow>
          let p = chunk_path (dc_base dc) (Chunk_id H c);
              (st, s) = write_file p c False (dc_store dc);
              dc1 = dc\<lparr>dc_store := s\<rparr>
          in (st, if Status_is_ok st then index_chunk (Chunk_id H c) p (vec_size c) dc1 else dc1))"

text \<open>The loop that takes the first entry of a chunk out of the access order.\<close>

fun access_remove :: "ChunkId \<Rightarrow> AccessEntry list \<Rightarrow> u64 \<times> AccessEntry list" where
  "access_remove i [] = (0, [])"
| "access_remove i (e # es) =
     (if ae_id e = i then (ae_size e, es) else (case access_remove i es of (n, es') \<Rightarrow> (n, e # es')))"

definition DiskCache_remove_chunk :: "ChunkId \<Rightarrow> DiskCache \<Rightarrow> Status result \<times> DiskCache" where
  "DiskCache_remove_chunk i dc =
     (let dc1 = (if map_of (dc_chunk_paths dc) i \<noteq> None then
                   let (n, order) = access_remove i (dc_access_order dc)
                   in dc\<lparr>dc_current_size := dc_current_size dc - n, dc_access_order := order,
                        dc_chunk_paths := AList.delete i (dc_chunk_paths dc)\<rparr>
                 else dc);
          (st, s) = delete_file (chunk_path (dc_base dc) i) (dc_store dc1)
      in (st, dc1\<lparr>dc_store := s\<rparr>))"

definition DiskCache_has_chunk :: "DiskCache \<Rightarrow> ChunkId \<Rightarrow> bool" where
  "DiskCache_has_chunk dc i = (map_of (dc_chunk_paths dc) i \<noteq> None)"

fun DiskCache_get_chunks :: "ChunkId list \<Rightarrow> DiskCache \<Rightarrow> SharedChunk list \<times> DiskCache" where
  "DiskCache_get_chunks [] dc = ([], dc)"
| "DiskCache_get_chunks (i # ids) dc =
     (case DiskCache_get_chunk i dc of (c, dc1) \<Rightarrow>
        case DiskCache_get_chunks ids dc1 of (cs, dc2) \<Rightarrow> (c # cs, dc2))"

section \<open>Descriptors\<close>

definition DiskCache_get_descriptor :: "DiskCache \<Rightarrow> CacheKey \<Rightarrow> ValueDescriptor option" where
  "DiskCache_get_descriptor dc key = map_of (dc_descriptors dc) key"

text \<open>The bytes of an integer as they lie in the memory of a little-endian machine.\<close>

definition le_bytes :: "nat \<Rightarrow> u64 \<Rightarrow> byte list" where
  "le_bytes n w = map (\<lambda>k. ucast (drop_bit (8 * k) w)) [0..<n]"

definition descriptor_bytes :: "ValueDescriptor \<Rightarrow> byte list" where
  "descriptor_bytes desc =
     le_bytes 4 (CacheKey_size (vd_key desc)) @ bytes_of (ck_data (vd_key desc))
     @ le_bytes 8 (vd_total_size desc) @ le_bytes 8 (vec_size (vd_chunks desc))
     @ concat (map (\<lambda>i. le_bytes 8 (low (chunk_hash i)) @ le_bytes 8 (high (chunk_hash i))) (vd_chunks desc))"

definition DiskCache_put_descriptor :: "ValueDescriptor \<Rightarrow> DiskCache \<Rightarrow> Status \<times> DiskCache" where
  "DiskCache_put_descriptor desc dc =
     (let (st, s) = write_file (descriptor_path (dc_base dc) (vd_key desc)) (descriptor_bytes desc) True (dc_store dc);
          dc1 = dc\<lparr>dc_store := s\<rparr>
      in (st, if Status_is_ok st then dc1\<lparr>dc_descriptors := AList.update (vd_key desc) desc (dc_descriptors dc1)\<rparr>
              else dc1))"

definition DiskCache_remove_descriptor :: "CacheKey \<Rightarrow> DiskCache \<Rightarrow> Status result \<times> DiskCache" where
  "DiskCache_remove_descriptor key dc =
     (let (st, s) = delete_file (descriptor_path (dc_base dc) key) (dc_store dc)
      in (st, dc\<lparr>dc_descriptors := AList.delete key (dc_descriptors dc), dc_store := s\<rparr>))"

section \<open>Eviction\<close>

function evict_loop :: "u64 \<Rightarrow> u64 \<Rightarrow> u64 \<Rightarrow> DiskCache \<Rightarrow> u64 result \<times> DiskCache" where
  "evict_loop target bytes_needed evicted dc =
     (if target < dc_current_size dc \<or> evicted < bytes_needed then
        (case dc_access_order dc of
           [] \<Rightarrow> (Inr evicted, dc)
         | e # es \<Rightarrow>
             (case delete_file (chunk_path (dc_base dc) (ae_id e)) (dc_store dc) of
                (r, s) \<Rightarrow>
                  let dc1 = dc\<lparr>dc_access_order := es, dc_chunk_paths := AList.delete (ae_id e) (dc_chunk_paths dc),
                               dc_current_size := dc_current_size dc - ae_size e,
                               dc_evictions := dc_evictions dc + 1, dc_store := s\<rparr>
                  in (case r of
                        Inl ex \<Rightarrow> (Inl ex, dc1)
                      | Inr st \<Rightarrow> evict_loop target bytes_needed (evicted + ae_size e) dc1)))
      else (Inr evicted, dc))"
  by pat_completeness auto
termination
  by (relation "measure (\<lambda>(t, b, n, dc). length (dc_access_order dc))") auto

declare evict_loop.simps [simp del]

definition evict_target :: "DiskCacheConfig \<Rightarrow> u64" where
  "evict_target config = u64_of_double (fl (double_of_u64 (disk_max_size config) * disk_low_watermark config))"

definition DiskCache_evict :: "u64 \<Rightarrow> DiskCache \<Rightarrow> u64 result \<times> DiskCache" where
  "DiskCache_evict bytes_needed dc = evict_loop (evict_target (dc_config dc)) bytes_needed 0 dc"

section \<open>Cache operations\<close>

fun disk_assemble_loop :: "u64 \<Rightarrow> u64 \<Rightarrow> u64 \<Rightarrow> u64 \<Rightarrow> SharedChunk list \<Rightarrow> byte list" where
  "disk_assemble_loop start_chunk i current remaining [] = []"
| "disk_assemble_loop start_chunk i current remaining (c # cs) =
     (if remaining = 0 then []
      else case c of
          None \<Rightarrow> disk_assemble_loop start_chunk (i + 1) current remaining cs
        | Some d \<Rightarrow>
            let chunk_start = (start_chunk + i) * CHUNK_SIZE;
                offset_in_chunk = (if chunk_start < current then current - chunk_start else 0);
                to_copy = min remaining (vec_size d - offset_in_chunk)
            in Chunk_read d offset_in_chunk to_copy
               @ disk_assemble_loop start_chunk (i + 1) (current + to_copy) (remaining - to_copy) cs)"

definition disk_assemble :: "Range \<Rightarrow> SharedChunk list \<Rightarrow> byte list" where
  "disk_assemble rng chunks = disk_assemble_loop (r_offset rng div CHUNK_SIZE) 0 (r_offset rng) (r_length rng) chunks"

definition DiskCache_read :: "ValueDescriptor \<Rightarrow> Range \<Rightarrow> ReadOptions \<Rightarrow> DiskCache \<Rightarrow> ReadResult \<times> DiskCache" where
  "DiskCache_read desc rng opts dc =
     (let (chunks, all_found, dc1) =
            fetch_loop DiskCache_get_chunk (ro_allow_partial opts) (vd_chunks desc) (chunks_for_range desc rng) dc
      in if chunks = [] \<or> (\<not> all_found \<and> \<not> ro_allow_partial opts) then
           (ReadResult_new, dc1\<lparr>dc_misses := dc_misses dc1 + 1\<rparr>)
         else
           let data = disk_assemble rng chunks;
               full = (all_found \<and> vec_size data = r_length rng);
               dc2 = (if full then dc1\<lparr>dc_hits := dc_hits dc1 + 1\<rparr> else dc1)
           in (\<lparr>rr_result = (if full then Hit else PartialHit), rr_data = data,
                rr_actual_range = \<lparr>r_offset = r_offset rng, r_length = vec_size data\<rparr>,
                rr_metadata = Some (vd_metadata desc)\<rparr>,
               dc2\<lparr>dc_bytes_read := dc_bytes_read dc2 + vec_size data\<rparr>))"

definition DiskCache_get :: "Timestamp \<Rightarrow> CacheKey \<Rightarrow> ReadOptions \<Rightarrow> DiskCache \<Rightarrow> ReadResult \<times> DiskCache" where
  "DiskCache_get now key opts dc =
     (case DiskCache_get_descriptor dc key of
        None \<Rightarrow> (ReadResult_new, dc\<lparr>dc_misses := dc_misses dc + 1\<rparr>)
      | Some desc \<Rightarrow>
          if CacheMetadata_is_expired now (vd_metadata desc) then
            (ReadResult_new\<lparr>rr_result := Expired\<rparr>, dc\<lparr>dc_misses := dc_misses dc + 1\<rparr>)
          else
            let rng = (case ro_range opts of Some r \<Rightarrow> r | None \<Rightarrow> \<lparr>r_offset = 0, r_length = vd_total_size desc\<rparr>)
            in if vd_total_size desc \<le> r_offset rng then
                 (ReadResult_new\<lparr>rr_result := Hit, rr_actual_range := \<lparr>r_offset = r_offset rng, r_length = 0\<rparr>,
                                 rr_metadata := Some (vd_metadata desc)\<rparr>, dc)
               else
                 let effective_length = min (r_length rng) (vd_total_size desc - r_offset rng)
                 in DiskCache_read desc (rng\<lparr>r_length := effective_length\<rparr>) opts dc)"

text \<open>The part of \<^verbatim>\<open>put\<close> after the space check.\<close>

definition DiskCache_store_value ::
    "hasher \<Rightarrow> Timestamp \<Rightarrow> CacheKey \<Rightarrow> byte list \<Rightarrow> WriteOptions \<Rightarrow> DiskCache \<Rightarrow> Status \<times> DiskCache" where
  "DiskCache_store_value H now key v opts dc =
     (case put_chunks_loop (DiskCache_put_chunk H) H (split_value v) dc of
        (Inl st, dc1) \<Rightarrow> (st, dc1)
      | (Inr ids, dc1) \<Rightarrow>
          (case DiskCache_put_descriptor
                  \<lparr>vd_key = key, vd_total_size = vec_size v, vd_chunks = ids,
                   vd_metadata = new_metadata now opts v (vec_size ids)\<rparr> dc1 of
             (st, dc2) \<Rightarrow>
               if \<not> Status_is_ok st then (st, dc2)
               else (Status_ok, dc2\<lparr>dc_bytes_written := dc_bytes_written dc2 + vec_size v\<rparr>)))"

definition needs_eviction :: "u64 \<Rightarrow> DiskCache \<Rightarrow> bool" where
  "needs_eviction needed dc =
     (fl (double_of_u64 (disk_max_size (dc_config dc)) * disk_high_watermark (dc_config dc))
      < double_of_u64 (dc_current_size dc + needed))"

definition DiskCache_put ::
    "hasher \<Rightarrow> Timestamp \<Rightarrow> CacheKey \<Rightarrow> byte list \<Rightarrow> WriteOptions \<Rightarrow> DiskCache \<Rightarrow> Status result \<times> DiskCache" where
  "DiskCache_put H now key v opts dc =
     (if MAX_KEY_SIZE < CacheKey_size key then (Inr (Status_error KeyTooLarge []), dc)
      else
        let (r, dc1) = (if needs_eviction (vec_size v) dc then DiskCache_evict (vec_size v) dc else (Inr 0, dc))
        in case r of
             Inl ex \<Rightarrow> (Inl ex, dc1)
           | Inr n \<Rightarrow> (case DiskCache_store_value H now key v opts dc1 of (st, dc2) \<Rightarrow> (Inr st, dc2)))"

fun remove_chunks_loop :: "ChunkId list \<Rightarrow> DiskCache \<Rightarrow> unit result \<times> DiskCache" where
  "remove_chunks_loop [] dc = (Inr (), dc)"
| "remove_chunks_loop (i # ids) dc =
     (case DiskCache_remove_chunk i dc of
        (Inl ex, dc1) \<Rightarrow> (Inl ex, dc1)
      | (Inr st, dc1) \<Rightarrow> remove_chunks_loop ids dc1)"

definition DiskCache_remove :: "CacheKey \<Rightarrow> DeleteOptions \<Rightarrow> DiskCache \<Rightarrow> Status result \<times> DiskCache" where
  "DiskCache_remove key opts dc =
     (case DiskCache_get_descriptor dc key of
        None \<Rightarrow> (Inr (Status_error NotFound []), dc)
      | Some desc \<Rightarrow>
          (case remove_chunks_loop (vd_chunks desc) dc of
             (Inl ex, dc1) \<Rightarrow> (Inl ex, dc1)
           | (Inr _, dc1) \<Rightarrow>
               (case DiskCache_remove_descriptor key dc1 of
                  (Inl ex, dc2) \<Rightarrow> (Inl ex, dc2)
                | (Inr _, dc2) \<Rightarrow> (Inr Status_ok, dc2))))"

text \<open>\<^verbatim>\<open>check\<close> asks the index in memory, not the files; \<open>None\<close> is the outcome that it does not return.\<close>

definition DiskCache_check :: "CacheKey \<Rightarrow> Range option \<Rightarrow> DiskCache \<Rightarrow> AvailabilityResult option" where
  "DiskCache_check key range_opt dc =
     (case DiskCache_get_descriptor dc key of
        None \<Rightarrow> Some AvailabilityResult_new
      | Some desc \<Rightarrow>
          let check_range = (case range_opt of Some r \<Rightarrow> r | None \<Rightarrow> \<lparr>r_offset = 0, r_length = vd_total_size desc\<rparr>);
              partial = mark_loop (DiskCache_has_chunk dc) (vd_chunks desc) (chunks_for_range desc check_range)
                          (PartialValue_new desc)
          in map_option (\<lambda>missing. \<lparr>av_exists = True, av_metadata = Some (vd_metadata desc),
                                   av_available_ranges = available_ranges partial, av_missing_ranges = missing\<rparr>)
               (missing_ranges partial check_range))"

definition DiskCache_metadata :: "CacheKey \<Rightarrow> DiskCache \<Rightarrow> CacheMetadata option" where
  "DiskCache_metadata key dc = map_option vd_metadata (DiskCache_get_descriptor dc key)"

definition DiskCache_stats :: "DiskCache \<Rightarrow> CacheStats" where
  "DiskCache_stats dc = CacheStats_new
     \<lparr>cs_hits := dc_hits dc, cs_misses := dc_misses dc, cs_bytes_read := dc_bytes_read dc,
      cs_bytes_written := dc_bytes_written dc, cs_evictions := dc_evictions dc,
      cs_size_bytes := dc_current_size dc, cs_capacity_bytes := disk_max_size (dc_config dc),
      cs_entry_count := vec_size (dc_descriptors dc)\<rparr>"

section \<open>Start and stop\<close>

text \<open>
  \<^verbatim>\<open>load_index\<close>. The entries of a directory come in the order of the file system's lists. The name of a
  file is cut at its last dot into stem and extension; a leading dot does not count.
\<close>

definition path_stem :: "string \<Rightarrow> string" where
  "path_stem name =
     (let pre = dropWhile (\<lambda>c. c \<noteq> CHR ''.'') (rev name) in if length pre \<le> 1 then name else rev (tl pre))"

definition path_extension :: "string \<Rightarrow> string" where
  "path_extension name = drop (length (path_stem name)) name"

definition entries_in :: "FileSystem \<Rightarrow> path \<Rightarrow> string list" where
  "entries_in fs dir =
     map last (filter (\<lambda>p. p \<noteq> [] \<and> butlast p = dir) (map fst (fs_files fs) @ fs_dirs fs))"

definition directory_iterator :: "path \<Rightarrow> DiskStore \<Rightarrow> string list result \<times> DiskStore" where
  "directory_iterator dir s =
     (let (e, fs) = next_io (ds_fs s)
      in (if io_ok e then Inr (entries_in fs dir) else Inl (Runtime_error (io_error e)), s\<lparr>ds_fs := fs\<rparr>))"

fun scan_descriptors :: "path \<Rightarrow> string list \<Rightarrow> DiskStore \<Rightarrow> DiskStore" where
  "scan_descriptors dir [] s = s"
| "scan_descriptors dir (name # names) s =
     scan_descriptors dir names
       (if path_extension name = ''.desc'' then snd (read_file (dir @ [name]) 0 0 s) else s)"

text \<open>
  One file of a chunk directory; \<^verbatim>\<open>from_hex\<close> and \<^verbatim>\<open>file_size\<close> may throw. The index mutex, which an exception of
  \<^verbatim>\<open>file_size\<close> leaves locked, is not part of the state.
\<close>

definition load_chunk_file :: "path \<Rightarrow> string \<Rightarrow> DiskCache \<Rightarrow> unit result \<times> DiskCache" where
  "load_chunk_file dir name dc =
     (if path_extension name \<noteq> ''.chunk'' then (Inr (), dc)
      else case Hash128_from_hex (path_stem name) of
          Inl ex \<Rightarrow> (Inl ex, dc)
        | Inr hash \<Rightarrow>
            let p = dir @ [name];
                (e, fs) = next_io (ds_fs (dc_store dc));
                dc1 = dc\<lparr>dc_store := (dc_store dc)\<lparr>ds_fs := fs\<rparr>\<rparr>
            in (case map_of (fs_files fs) p of
                  Some content \<Rightarrow>
                    if io_ok e then (Inr (), index_chunk (ChunkId hash) p (vec_size content) dc1)
                    else (Inl (Runtime_error (io_error e)),
                          dc1\<lparr>dc_chunk_paths := AList.update (ChunkId hash) p (dc_chunk_paths dc1)\<rparr>)
                | None \<Rightarrow> (Inl (Runtime_error (io_error e)),
                          dc1\<lparr>dc_chunk_paths := AList.update (ChunkId hash) p (dc_chunk_paths dc1)\<rparr>)))"

fun load_chunk_files :: "path \<Rightarrow> string list \<Rightarrow> DiskCache \<Rightarrow> unit result \<times> DiskCache" where
  "load_chunk_files dir [] dc = (Inr (), dc)"
| "load_chunk_files dir (name # names) dc =
     (case load_chunk_file dir name dc of
        (Inl ex, dc1) \<Rightarrow> (Inl ex, dc1)
      | (Inr _, dc1) \<Rightarrow> load_chunk_files dir names dc1)"

fun load_chunk_dirs :: "path \<Rightarrow> string list \<Rightarrow> DiskCache \<Rightarrow> unit result \<times> DiskCache" where
  "load_chunk_dirs dir [] dc = (Inr (), dc)"
| "load_chunk_dirs dir (sub # subs) dc =
     (if dir @ [sub] \<notin> set (fs_dirs (ds_fs (dc_store dc))) then load_chunk_dirs dir subs dc
      else case directory_iterator (dir @ [sub]) (dc_store dc) of
          (Inl ex, s) \<Rightarrow> (Inl ex, dc\<lparr>dc_store := s\<rparr>)
        | (Inr names, s) \<Rightarrow>
            (case load_chunk_files (dir @ [sub]) names (dc\<lparr>dc_store := s\<rparr>) of
               (Inl ex, dc1) \<Rightarrow> (Inl ex, dc1)
             | (Inr _, dc1) \<Rightarrow> load_chunk_dirs dir subs dc1))"

definition load_chunks :: "DiskCache \<Rightarrow> Status result \<times> DiskCache" where
  "load_chunks dc =
     (let dir = dc_base dc @ [''chunks'']
      in case file_exists dir (dc_store dc) of
           (Inl ex, s) \<Rightarrow> (Inl ex, dc\<lparr>dc_store := s\<rparr>)
         | (Inr False, s) \<Rightarrow> (Inr Status_ok, dc\<lparr>dc_store := s\<rparr>)
         | (Inr True, s) \<Rightarrow>
             (case directory_iterator dir s of
                (Inl ex, s1) \<Rightarrow> (Inl ex, dc\<lparr>dc_store := s1\<rparr>)
              | (Inr subs, s1) \<Rightarrow>
                  (case load_chunk_dirs dir subs (dc\<lparr>dc_store := s1\<rparr>) of
                     (Inl ex, dc1) \<Rightarrow> (Inl ex, dc1)
                   | (Inr _, dc1) \<Rightarrow> (Inr Status_ok, dc1))))"

definition load_index :: "DiskCache \<Rightarrow> Status result \<times> DiskCache" where
  "load_index dc =
     (let dir = dc_base dc @ [''descriptors'']
      in case file_exists dir (dc_store dc) of
           (Inl ex, s) \<Rightarrow> (Inl ex, dc\<lparr>dc_store := s\<rparr>)
         | (Inr False, s) \<Rightarrow> (Inr Status_ok, dc\<lparr>dc_store := s\<rparr>)
         | (Inr True, s) \<Rightarrow>
             (case directory_iterator dir s of
                (Inl ex, s1) \<Rightarrow> (Inl ex, dc\<lparr>dc_store := s1\<rparr>)
              | (Inr names, s1) \<Rightarrow> load_chunks (dc\<lparr>dc_store := scan_descriptors dir names s1\<rparr>)))"

definition save_index :: "DiskCache \<Rightarrow> Status \<times> DiskCache" where
  "save_index dc = (Status_ok, dc)"

definition DiskCache_start :: "DiskCache \<Rightarrow> Status result \<times> DiskCache" where
  "DiskCache_start dc =
     (case DiskStore_init (dc_store dc) of
        (Inl ex, s) \<Rightarrow> (Inl ex, dc\<lparr>dc_store := s\<rparr>)
      | (Inr st, s) \<Rightarrow>
          if \<not> Status_is_ok st then (Inr st, dc\<lparr>dc_store := s\<rparr>) else load_index (dc\<lparr>dc_store := s\<rparr>))"

definition DiskCache_stop :: "DiskCache \<Rightarrow> DiskCache" where
  "DiskCache_stop dc = snd (save_index dc)"

section \<open>Files and chunks\<close>

lemma chunk_path_inject [simp]: "chunk_path base i = chunk_path base j \<longleftrightarrow> i = j"
  by (auto simp: chunk_path_def Let_def dest: injD [OF Hash128_to_hex_inj] intro: ChunkId.expand)

lemma chunk_path_not_descriptor [simp]:
  "chunk_path base i \<noteq> descriptor_path base k" "descriptor_path base k \<noteq> chunk_path base i"
  by (auto simp: chunk_path_def descriptor_path_def Let_def)

lemma butlast_paths:
  "butlast (chunk_path base i) = chunks_subdir base (take 2 (Hash128_to_hex (chunk_hash i)))"
  "butlast (descriptor_path base k) = base @ [''descriptors'']"
  by (simp_all add: chunk_path_def descriptor_path_def chunks_subdir_def Let_def butlast_append)

definition store_chunk :: "DiskStore \<Rightarrow> ChunkId \<rightharpoonup> Chunk" where
  "store_chunk s i = (case file_at s (chunk_path (ds_root s) i) of
     Some c \<Rightarrow> if c = [] then None else Some c | None \<Rightarrow> None)"

abbreviation dc_chunk_at :: "DiskCache \<Rightarrow> ChunkId \<rightharpoonup> Chunk" where
  "dc_chunk_at dc \<equiv> store_chunk (dc_store dc)"

definition dc_chunks_ok :: "DiskCache \<Rightarrow> bool" where
  "dc_chunks_ok dc =
     (reliable (dc_store dc) \<and> (\<forall>i c. file_at (dc_store dc) (chunk_path (dc_base dc) i) = Some c \<longrightarrow> fits c))"

lemma DiskCache_get_chunk_ok:
  assumes "dc_chunks_ok dc"
  shows "DiskCache_get_chunk i dc = (dc_chunk_at dc i, dc)"
  using assms read_file_reliable [of "dc_store dc" "chunk_path (dc_base dc) i"]
  by (auto simp: DiskCache_get_chunk_def dc_chunks_ok_def store_chunk_def split: option.splits)

interpretation disk_chunks: chunk_store dc_chunks_ok dc_chunk_at DiskCache_get_chunk
  by unfold_locales (simp_all add: DiskCache_get_chunk_ok)

lemma fetch_keeps:
  assumes "dc_chunks_ok dc" and "fetch_loop DiskCache_get_chunk ap ids idxs dc = (cs, all_found, dc')"
  shows "dc' = dc"
  using assms(2)
  by (induction idxs arbitrary: cs all_found)
    (auto simp: DiskCache_get_chunk_ok [OF assms(1)] split: if_splits option.splits prod.splits)

text \<open>The assembly loop of the disk cache agrees with the one of the memory cache when no chunk is missing.\<close>

lemma disk_assemble_all:
  assumes "None \<notin> set cs"
  shows "disk_assemble rng cs = assemble_value cs rng"
proof -
  have "disk_assemble_loop st i cur rem cs = assemble_loop st i cur rem cs" for st i cur rem
    using assms by (induction cs arbitrary: i cur rem) (auto simp: Let_def split: option.splits)
  then show ?thesis by (simp add: disk_assemble_def assemble_value_def)
qed

section \<open>Representation of a map of values\<close>

definition DC_rep :: "hasher \<Rightarrow> Chunk set \<Rightarrow> DiskCache \<Rightarrow> cache_map \<Rightarrow> bool" where
  "DC_rep H S dc A =
     (dc_chunks_ok dc \<and> chunks_sound H S (dc_chunk_at dc) \<and> map_of (dc_descriptors dc) = descriptors_of H A
      \<and> distinct (map fst (dc_descriptors dc)) \<and> (\<forall>k v md. A k = Some (v, md) \<longrightarrow> value_ok S v))"

lemma DC_rep_frame:
  assumes "DC_rep H S dc A" and "dc_descriptors dc' = dc_descriptors dc" and "dc_store dc' = dc_store dc"
  shows "DC_rep H S dc' A"
  using assms by (simp add: DC_rep_def dc_chunks_ok_def)

lemma DiskCache_read_stored:
  assumes "DC_rep H S dc A" and "collision_free H S" and "value_ok S v"
    and "unat off + unat len \<le> length v"
    and "DiskCache_read (mk_descriptor H key v md) \<lparr>r_offset = off, r_length = len\<rparr> opts dc = (res, dc')"
  shows "DC_rep H S dc' A" and "dc_store dc' = dc_store dc"
    and "range_read_ok H (dc_chunk_at dc) v md opts off len res"
proof -
  let ?d = "mk_descriptor H key v md" and ?q = "\<lparr>r_offset = off, r_length = len\<rparr>"
  have cs: "chunks_sound H S (dc_chunk_at dc)" and inv: "dc_chunks_ok dc" using assms(1) by (simp_all add: DC_rep_def)
  obtain chunks af dc1 where
    fl: "fetch_loop DiskCache_get_chunk (ro_allow_partial opts) (vd_chunks ?d) (chunks_for_range ?d ?q) dc = (chunks, af, dc1)"
    by (metis surj_pair)
  have md: "vd_metadata ?d = md" by (simp add: mk_descriptor_def)
  have all: "disk_assemble ?q (map (\<lambda>j. Some (chunk_of v j)) (needed_chunks (unat off) (unat len))) = subspan v (unat off) (unat len)"
    if "len \<noteq> 0"
    using assemble_value_all [OF value_ok_fits [OF assms(3)] assms(4) that]
    by (subst disk_assemble_all) auto
  note r = disk_chunks.range_read [where asm = "disk_assemble ?q", OF inv cs assms(2-4) fl all]
  have dc1: "dc1 = dc" using fetch_keeps [OF inv fl] .
  show "DC_rep H S dc' A" "dc_store dc' = dc_store dc"
    using assms(1,5) by (auto simp: DiskCache_read_def fl dc1 Let_def intro: DC_rep_frame split: if_splits)
  have "res = read_answer opts ?q md chunks af (disk_assemble ?q chunks)"
    using assms(5) by (auto simp: DiskCache_read_def fl Let_def read_answer_def md split: if_splits)
  then show "range_read_ok H (dc_chunk_at dc) v md opts off len res" using r(3) by simp
qed

lemma DiskCache_get_stored:
  assumes "DC_rep H S dc A" and "collision_free H S" and "A key = Some (v, md)"
    and "\<not> CacheMetadata_is_expired now md" and "DiskCache_get now key opts dc = (res, dc')"
  shows "DC_rep H S dc' A" and "dc_store dc' = dc_store dc" and "read_ok opts v md res"
    and "requested_bytes opts v \<noteq> [] \<Longrightarrow> rr_result res = Hit \<longleftrightarrow> all_present H (dc_chunk_at dc) v (requested_range opts v)"
proof -
  let ?r = "requested_range opts v" and ?d = "mk_descriptor H key v md"
  have ok: "value_ok S v" using assms(1,3) by (auto simp: DC_rep_def)
  note f = value_ok_fits [OF ok]
  have d: "DiskCache_get_descriptor dc key = Some ?d"
    using assms(1,3) by (simp add: DC_rep_def DiskCache_get_descriptor_def descriptors_of_def)
  have dd: "vd_total_size ?d = vec_size v" "vd_metadata ?d = md" by (simp_all add: mk_descriptor_def)
  have rng: "(case ro_range opts of Some r \<Rightarrow> r | None \<Rightarrow> \<lparr>r_offset = 0, r_length = vec_size v\<rparr>) = ?r"
    by (simp add: requested_range_def)
  note get = assms(5) [unfolded DiskCache_get_def d option.case dd rng if_not_P [OF assms(4)] Let_def]
  have "DC_rep H S dc' A \<and> dc_store dc' = dc_store dc \<and> read_ok opts v md res \<and>
      (requested_bytes opts v \<noteq> [] \<longrightarrow> (rr_result res = Hit \<longleftrightarrow> all_present H (dc_chunk_at dc) v ?r))"
  proof (cases "vec_size v \<le> r_offset ?r")
    case True
    then show ?thesis
      using assms(1) get True read_ok_beyond(1) [OF f True] read_ok_beyond(2) [OF f True, of md]
      by (auto simp: ReadResult_new_def)
  next
    case False
    let ?len = "min (r_length ?r) (vec_size v - r_offset ?r)"
    have "DiskCache_read ?d \<lparr>r_offset = r_offset ?r, r_length = ?len\<rparr> opts dc = (res, dc')"
      using get False by (cases ?r) simp
    note s = DiskCache_read_stored [OF assms(1,2) ok clamp_facts(2) [OF f False] this]
    show ?thesis using s(1,2) read_ok_clamped [OF f False s(3)] by blast
  qed
  then show "DC_rep H S dc' A" and "dc_store dc' = dc_store dc" and "read_ok opts v md res"
    and "requested_bytes opts v \<noteq> [] \<Longrightarrow> rr_result res = Hit \<longleftrightarrow> all_present H (dc_chunk_at dc) v ?r"
    by blast+
qed

lemma DiskCache_get_absent:
  assumes "DC_rep H S dc A" and "DiskCache_get now key opts dc = (res, dc')"
  shows "A key = None \<Longrightarrow> res = ReadResult_new \<and> DC_rep H S dc' A"
    and "A key = Some (v, md) \<Longrightarrow> CacheMetadata_is_expired now md \<Longrightarrow>
         res = ReadResult_new\<lparr>rr_result := Expired\<rparr> \<and> DC_rep H S dc' A"
proof -
  have d: "DiskCache_get_descriptor dc key = map_option (\<lambda>(v, md). mk_descriptor H key v md) (A key)"
    using assms(1) by (simp add: DC_rep_def DiskCache_get_descriptor_def descriptors_of_def)
  show "A key = None \<Longrightarrow> res = ReadResult_new \<and> DC_rep H S dc' A"
    and "A key = Some (v, md) \<Longrightarrow> CacheMetadata_is_expired now md \<Longrightarrow>
         res = ReadResult_new\<lparr>rr_result := Expired\<rparr> \<and> DC_rep H S dc' A"
    using assms d by (auto simp: DiskCache_get_def mk_descriptor_def intro: DC_rep_frame)
qed

section \<open>Removing\<close>

text \<open>\<open>dc_shrinks dc dc'\<close>: nothing happened but the loss of files.\<close>

definition dc_shrinks :: "DiskCache \<Rightarrow> DiskCache \<Rightarrow> bool" where
  "dc_shrinks dc dc' =
     (dc_descriptors dc' = dc_descriptors dc \<and> reliable (dc_store dc') \<and> dc_base dc' = dc_base dc
      \<and> dirs_of (dc_store dc') = dirs_of (dc_store dc) \<and> file_at (dc_store dc') \<subseteq>\<^sub>m file_at (dc_store dc))"

lemma dc_shrinks_refl: "reliable (dc_store dc) \<Longrightarrow> dc_shrinks dc dc"
  by (simp add: dc_shrinks_def)

lemma dc_shrinks_trans: "dc_shrinks a b \<Longrightarrow> dc_shrinks b c \<Longrightarrow> dc_shrinks a c"
  by (auto simp: dc_shrinks_def intro: map_le_trans)

lemma dc_shrinks_rep:
  assumes "DC_rep H S dc A" and "dc_shrinks dc dc'"
  shows "DC_rep H S dc' A"
proof -
  have le: "file_at (dc_store dc) p = Some c" if "file_at (dc_store dc') p = Some c" for p c
    using that assms(2) unfolding dc_shrinks_def map_le_def by (metis domI)
  then have "dc_chunks_ok dc'" using assms by (auto simp: DC_rep_def dc_chunks_ok_def dc_shrinks_def)
  moreover have "dc_chunk_at dc' \<subseteq>\<^sub>m dc_chunk_at dc"
    using le assms(2) by (auto simp: map_le_def store_chunk_def dc_shrinks_def split: option.splits if_splits)
  ultimately show ?thesis
    using assms chunks_sound_le by (auto simp: DC_rep_def dc_shrinks_def)
qed

lemma delete_shrinks:
  assumes "reliable (dc_store dc)" and "dc_descriptors dc' = dc_descriptors dc"
    and "delete_file p (dc_store dc) = (r, dc_store dc')"
  shows "(\<exists>st. r = Inr st) \<and> dc_shrinks dc dc'"
proof -
  obtain st s' where "delete_file p (dc_store dc) = (Inr st, s')" "reliable s'"
    "file_at s' = (file_at (dc_store dc))(p := None)" "dirs_of s' = dirs_of (dc_store dc)" "ds_root s' = dc_base dc"
    using delete_file_reliable [OF assms(1)] by metis
  then show ?thesis using assms by (auto simp: dc_shrinks_def map_le_def)
qed

lemma remove_chunk_shrinks:
  assumes "reliable (dc_store dc)"
  shows "\<exists>st dc'. DiskCache_remove_chunk i dc = (Inr st, dc') \<and> dc_shrinks dc dc'"
proof -
  obtain r dc' where r: "DiskCache_remove_chunk i dc = (r, dc')" by fastforce
  then have "dc_descriptors dc' = dc_descriptors dc" "delete_file (chunk_path (dc_base dc) i) (dc_store dc) = (r, dc_store dc')"
    by (auto simp: DiskCache_remove_chunk_def Let_def split: if_splits prod.splits)
  then show ?thesis using delete_shrinks [OF assms] r by blast
qed

lemma remove_chunks_shrinks:
  assumes "reliable (dc_store dc)"
  shows "\<exists>dc'. remove_chunks_loop ids dc = (Inr (), dc') \<and> dc_shrinks dc dc'"
  using assms
proof (induction ids arbitrary: dc)
  case (Cons i ids)
  obtain st dc1 where d: "DiskCache_remove_chunk i dc = (Inr st, dc1)" "dc_shrinks dc dc1"
    using remove_chunk_shrinks [OF Cons.prems] by blast
  then have "reliable (dc_store dc1)" by (simp add: dc_shrinks_def)
  from Cons.IH [OF this] show ?case using d dc_shrinks_trans by auto
qed (simp add: dc_shrinks_refl)

lemma evict_shrinks:
  assumes "reliable (dc_store dc)"
  shows "\<exists>n dc'. evict_loop target needed evicted dc = (Inr n, dc') \<and> dc_shrinks dc dc'"
  using assms
proof (induction "length (dc_access_order dc)" arbitrary: dc evicted)
  case 0
  then show ?case by (simp add: evict_loop.simps [of target needed evicted dc] dc_shrinks_refl)
next
  case (Suc n)
  then obtain e es where o: "dc_access_order dc = e # es" by (cases "dc_access_order dc") auto
  obtain r s where del: "delete_file (chunk_path (dc_base dc) (ae_id e)) (dc_store dc) = (r, s)" by fastforce
  let ?dc = "dc\<lparr>dc_access_order := es, dc_chunk_paths := AList.delete (ae_id e) (dc_chunk_paths dc),
      dc_current_size := dc_current_size dc - ae_size e, dc_evictions := dc_evictions dc + 1, dc_store := s\<rparr>"
  have sh: "(\<exists>st. r = Inr st) \<and> dc_shrinks dc ?dc"
    using del by (intro delete_shrinks [OF Suc.prems]) simp_all
  then obtain st where st: "r = Inr st" and sh: "dc_shrinks dc ?dc" by blast
  then have "reliable (dc_store ?dc)" by (simp add: dc_shrinks_def)
  then obtain n dc' where "evict_loop target needed (evicted + ae_size e) ?dc = (Inr n, dc')" "dc_shrinks ?dc dc'"
    using Suc.hyps(1) [of ?dc "evicted + ae_size e"] Suc.hyps(2) o by auto
  moreover have "evict_loop target needed evicted dc =
      (if target < dc_current_size dc \<or> evicted < needed then evict_loop target needed (evicted + ae_size e) ?dc else (Inr evicted, dc))"
    by (simp add: evict_loop.simps [of target needed evicted dc] o del st)
  ultimately show ?case using dc_shrinks_trans [OF sh] dc_shrinks_refl [OF Suc.prems] by simp
qed

lemma DiskCache_remove_ok:
  assumes "DC_rep H S dc A" and "DiskCache_remove key opts dc = (r, dc')"
  shows "DC_rep H S dc' (A(key := None))" and "\<exists>st. r = Inr st \<and> (Status_is_ok st \<longleftrightarrow> A key \<noteq> None)"
proof -
  have d: "DiskCache_get_descriptor dc key = map_option (\<lambda>(v, md). mk_descriptor H key v md) (A key)"
    using assms(1) by (simp add: DC_rep_def DiskCache_get_descriptor_def descriptors_of_def)
  have rel: "reliable (dc_store dc)" using assms(1) by (simp add: DC_rep_def dc_chunks_ok_def)
  have "DC_rep H S dc' (A(key := None)) \<and> (\<exists>st. r = Inr st \<and> (Status_is_ok st \<longleftrightarrow> A key \<noteq> None))"
  proof (cases "A key")
    case None
    then have "A(key := None) = A" by auto
    then show ?thesis using assms d None by (auto simp: DiskCache_remove_def)
  next
    case (Some x)
    let ?desc = "mk_descriptor H key (fst x) (snd x)"
    obtain dc1 where rm: "remove_chunks_loop (vd_chunks ?desc) dc = (Inr (), dc1)" "dc_shrinks dc dc1"
      using remove_chunks_shrinks [OF rel] by blast
    have rep: "DC_rep H S dc1 A" using dc_shrinks_rep [OF assms(1) rm(2)] .
    have rel1: "reliable (dc_store dc1)" using rm(2) by (simp add: dc_shrinks_def)
    obtain r2 s2 where del: "delete_file (descriptor_path (dc_base dc1) key) (dc_store dc1) = (r2, s2)" by fastforce
    have sh: "(\<exists>st. r2 = Inr st) \<and> dc_shrinks dc1 (dc1\<lparr>dc_store := s2\<rparr>)"
      using del by (intro delete_shrinks [OF rel1]) simp_all
    have "DC_rep H S (dc1\<lparr>dc_store := s2\<rparr>) A" using dc_shrinks_rep [OF rep] sh by blast
    then have "DC_rep H S (dc1\<lparr>dc_descriptors := AList.delete key (dc_descriptors dc1), dc_store := s2\<rparr>) (A(key := None))"
      by (auto simp: DC_rep_def dc_chunks_ok_def)
    then show ?thesis
      using assms(2) d Some rm(1) del sh
      by (auto simp: DiskCache_remove_def DiskCache_remove_descriptor_def case_prod_unfold)
  qed
  then show "DC_rep H S dc' (A(key := None))" "\<exists>st. r = Inr st \<and> (Status_is_ok st \<longleftrightarrow> A key \<noteq> None)" by blast+
qed

section \<open>Storing\<close>

lemma store_chunk_with_file [simp]:
  "ds_root s = base \<Longrightarrow> store_chunk (with_file (chunk_path base i) d s) = (store_chunk s)(i := if d = [] then None else Some d)"
  "ds_root s = base \<Longrightarrow> store_chunk (with_file (descriptor_path base k) d s) = store_chunk s"
  by (auto simp: store_chunk_def fun_eq_iff)

text \<open>All directories are there: this is what \<^verbatim>\<open>start\<close> achieves.\<close>

definition dirs_ready :: "DiskStore \<Rightarrow> bool" where
  "dirs_ready s \<longleftrightarrow>
     (\<forall>i. butlast (chunk_path (ds_root s) i) \<in> dirs_of s) \<and> ds_root s @ [''descriptors''] \<in> dirs_of s"

lemma dirs_ready_cong:
  "ds_root s' = ds_root s \<Longrightarrow> dirs_of s' = dirs_of s \<Longrightarrow> dirs_ready s' = dirs_ready s"
  by (simp add: dirs_ready_def)

lemma index_chunk_frame [simp]:
  "dc_store (index_chunk i p n dc) = dc_store dc" "dc_descriptors (index_chunk i p n dc) = dc_descriptors dc"
  by (simp_all add: index_chunk_def)

lemma DC_rep_write:
  assumes "DC_rep H S dc A" and "dc_descriptors dc' = dc_descriptors dc" and "d \<in> S" and "fits d"
    and "dc_store dc' = with_file (chunk_path (dc_base dc) (Chunk_id H d)) d (dc_store dc)"
  shows "DC_rep H S dc' A"
proof -
  have "chunks_sound H S (dc_chunk_at dc')"
    using assms(1,3,5) by (auto simp: DC_rep_def chunks_sound_def)
  moreover have "dc_chunks_ok dc'" using assms(1,4,5) by (auto simp: DC_rep_def dc_chunks_ok_def)
  ultimately show ?thesis using assms(1,2) by (simp add: DC_rep_def)
qed

lemma DiskCache_put_chunk_ok:
  assumes "DC_rep H S dc A" and "d \<in> S" and "fits d" and "DiskCache_put_chunk H (Some d) dc = (st, dc')"
  shows "DC_rep H S dc' A" and "dc_base dc' = dc_base dc" and "dirs_of (dc_store dc') = dirs_of (dc_store dc)"
    and "dirs_ready (dc_store dc) \<Longrightarrow> st = Status_ok
       \<and> dc_chunk_at dc' = (dc_chunk_at dc)(Chunk_id H d := if d = [] then None else Some d)"
proof -
  let ?p = "chunk_path (dc_base dc) (Chunk_id H d)"
  have rel: "reliable (dc_store dc)" using assms(1) by (simp add: DC_rep_def dc_chunks_ok_def)
  have "DC_rep H S dc' A \<and> dc_base dc' = dc_base dc \<and> dirs_of (dc_store dc') = dirs_of (dc_store dc)
     \<and> (dirs_ready (dc_store dc) \<longrightarrow> st = Status_ok
       \<and> dc_chunk_at dc' = (dc_chunk_at dc)(Chunk_id H d := if d = [] then None else Some d))"
  proof (cases "butlast ?p \<in> dirs_of (dc_store dc)")
    case True
    then have "st = Status_ok" "dc_store dc' = with_file ?p d (dc_store dc)" "dc_descriptors dc' = dc_descriptors dc"
      using assms(4) write_file_reliable(1) [OF rel] by (auto simp: DiskCache_put_chunk_def Let_def)
    then show ?thesis using DC_rep_write [OF assms(1) _ assms(2,3), of dc'] by simp
  next
    case False
    then obtain msg where "st = Status_error DiskError msg" "dc' = dc"
      using assms(4) write_file_reliable(2) [OF rel False, of d False] by (auto simp: DiskCache_put_chunk_def Let_def)
    then show ?thesis using assms(1) False by (auto simp: dirs_ready_def)
  qed
  then show "DC_rep H S dc' A" and "dc_base dc' = dc_base dc" and "dirs_of (dc_store dc') = dirs_of (dc_store dc)"
    and "dirs_ready (dc_store dc) \<Longrightarrow> st = Status_ok
       \<and> dc_chunk_at dc' = (dc_chunk_at dc)(Chunk_id H d := if d = [] then None else Some d)" by blast+
qed

lemma disk_put_chunks_ok:
  assumes "DC_rep H S dc A" and "collision_free H S" and "set cs \<subseteq> S" and "\<forall>d\<in>set cs. d \<noteq> [] \<and> fits d"
    and "put_chunks_loop (DiskCache_put_chunk H) H cs dc = (r, dc')"
  shows "DC_rep H S dc' A \<and> dc_base dc' = dc_base dc \<and> dirs_of (dc_store dc') = dirs_of (dc_store dc)
    \<and> (\<forall>ids. r = Inr ids \<longrightarrow> ids = map (Chunk_id H) cs)
    \<and> (dirs_ready (dc_store dc) \<longrightarrow> r = Inr (map (Chunk_id H) cs)
       \<and> (\<forall>d\<in>S. dc_chunk_at dc (Chunk_id H d) = Some d \<or> d \<in> set cs \<longrightarrow> dc_chunk_at dc' (Chunk_id H d) = Some d))"
  using assms
proof (induction cs arbitrary: dc r)
  case (Cons c cs)
  obtain st dc1 where p: "DiskCache_put_chunk H (Some c) dc = (st, dc1)" by fastforce
  have c: "c \<in> S" "fits c" "c \<noteq> []" using Cons.prems(3,4) by auto
  note ok = DiskCache_put_chunk_ok [OF Cons.prems(1) c(1,2) p]
  show ?case
  proof (cases "Status_is_ok st")
    case False
    then show ?thesis using Cons.prems(5) p ok by (auto simp: Status_ok_is_ok)
  next
    case True
    obtain r1 where l: "put_chunks_loop (DiskCache_put_chunk H) H cs dc1 = (r1, dc')"
      and r: "r = (case r1 of Inl st \<Rightarrow> Inl st | Inr ids \<Rightarrow> Inr (Chunk_id H c # ids))"
      using Cons.prems(5) p True by (auto split: prod.splits sum.splits)
    note IH = Cons.IH [OF ok(1) Cons.prems(2) _ _ l]
    have "dc_chunk_at dc1 (Chunk_id H d) = Some d \<or> d \<in> set cs"
      if "dirs_ready (dc_store dc)" "d \<in> S" "dc_chunk_at dc (Chunk_id H d) = Some d \<or> d \<in> set (c # cs)" for d
      using ok(4) [OF that(1)] that(2,3) c Chunk_id_inj [OF Cons.prems(2) c(1) that(2)] by (cases "d = c") auto
    moreover have "dirs_ready (dc_store dc1) = dirs_ready (dc_store dc)" using ok(2,3) by (rule dirs_ready_cong)
    moreover have "set cs \<subseteq> S" "\<forall>d\<in>set cs. d \<noteq> [] \<and> fits d" using Cons.prems(3,4) by auto
    note IH = IH [OF this]
    have "r = Inr (map (Chunk_id H) (c # cs))" if "r1 = Inr (map (Chunk_id H) cs)" using r that by simp
    moreover have "ids = map (Chunk_id H) (c # cs)" if "r = Inr ids" for ids
      using r that IH by (cases r1) auto
    ultimately show ?thesis using IH ok(2,3) by metis
  qed
qed auto

lemma split_chunks_ok:
  assumes "value_ok S v"
  shows "set (split_value v) \<subseteq> S" and "\<forall>d\<in>set (split_value v). d \<noteq> [] \<and> fits d"
proof -
  show "set (split_value v) \<subseteq> S" using assms by (simp add: value_ok_def)
  show "\<forall>d\<in>set (split_value v). d \<noteq> [] \<and> fits d"
  proof
    fix d assume "d \<in> set (split_value v)"
    then have "d \<noteq> [] \<and> length d \<le> CS" using split_value_nonempty [OF value_ok_fits [OF assms]] by blast
    then show "d \<noteq> [] \<and> fits d" by (simp add: unat_CHUNK_SIZE)
  qed
qed

definition result_ok :: "Status result \<Rightarrow> bool" where
  "result_ok r = (case r of Inr st \<Rightarrow> Status_is_ok st | Inl ex \<Rightarrow> False)"

abbreviation stored_md :: "Timestamp \<Rightarrow> WriteOptions \<Rightarrow> byte list \<Rightarrow> CacheMetadata" where
  "stored_md now opts v \<equiv> new_metadata now opts v (vec_size (split_value v))"

lemma put_descriptor_ok:
  assumes "DC_rep H S dc A" and "value_ok S v"
    and "DiskCache_put_descriptor (mk_descriptor H key v md) dc = (st, dc')"
  shows "DC_rep H S dc' (if Status_is_ok st then A(key \<mapsto> (v, md)) else A)"
    and "dc_chunk_at dc' = dc_chunk_at dc" and "dirs_ready (dc_store dc) \<Longrightarrow> st = Status_ok"
proof -
  let ?d = "mk_descriptor H key v md" and ?p = "descriptor_path (dc_base dc) key"
  have rel: "reliable (dc_store dc)" using assms(1) by (simp add: DC_rep_def dc_chunks_ok_def)
  have k: "vd_key ?d = key" by (simp add: mk_descriptor_def)
  have "DC_rep H S dc' (if Status_is_ok st then A(key \<mapsto> (v, md)) else A) \<and> dc_chunk_at dc' = dc_chunk_at dc
      \<and> (dirs_ready (dc_store dc) \<longrightarrow> st = Status_ok)"
  proof (cases "butlast ?p \<in> dirs_of (dc_store dc)")
    case True
    then have "st = Status_ok" "dc' = dc\<lparr>dc_store := with_file ?p (descriptor_bytes ?d) (dc_store dc),
        dc_descriptors := AList.update key ?d (dc_descriptors dc)\<rparr>"
      using assms(3) write_file_reliable(1) [OF rel] by (auto simp: DiskCache_put_descriptor_def Let_def k)
    then show ?thesis using assms(1,2) by (auto simp: DC_rep_def dc_chunks_ok_def)
  next
    case False
    then obtain msg where "st = Status_error DiskError msg" "dc' = dc"
      using assms(3) write_file_reliable(2) [OF rel False, of "descriptor_bytes ?d" True]
      by (auto simp: DiskCache_put_descriptor_def Let_def k)
    then show ?thesis using assms(1) False by (auto simp: dirs_ready_def butlast_paths)
  qed
  then show "DC_rep H S dc' (if Status_is_ok st then A(key \<mapsto> (v, md)) else A)"
    and "dc_chunk_at dc' = dc_chunk_at dc" and "dirs_ready (dc_store dc) \<Longrightarrow> st = Status_ok" by blast+
qed

lemma put_chunks_error:
  "put_chunks_loop f H cs s = (Inl st, s') \<Longrightarrow> \<not> Status_is_ok st"
  by (induction cs arbitrary: s) (auto split: prod.splits if_splits sum.splits)

lemma DiskCache_store_value_ok:
  assumes "DC_rep H S dc A" and "collision_free H S" and "value_ok S v"
    and "DiskCache_store_value H now key v opts dc = (st, dc')"
  shows "DC_rep H S dc' (if Status_is_ok st then A(key \<mapsto> (v, stored_md now opts v)) else A)"
    and "dirs_ready (dc_store dc) \<Longrightarrow> st = Status_ok
       \<and> (\<forall>d\<in>set (split_value v). dc_chunk_at dc' (Chunk_id H d) = Some d)"
proof -
  obtain r dc1 where p: "put_chunks_loop (DiskCache_put_chunk H) H (split_value v) dc = (r, dc1)" by fastforce
  note c = disk_put_chunks_ok [OF assms(1,2) split_chunks_ok [OF assms(3)] p]
  have "DC_rep H S dc' (if Status_is_ok st then A(key \<mapsto> (v, stored_md now opts v)) else A)
    \<and> (dirs_ready (dc_store dc) \<longrightarrow> st = Status_ok \<and> (\<forall>d\<in>set (split_value v). dc_chunk_at dc' (Chunk_id H d) = Some d))"
  proof (cases r)
    case (Inl e)
    then have "\<not> Status_is_ok e" using put_chunks_error [of "DiskCache_put_chunk H" H "split_value v" dc e dc1] p by simp
    then show ?thesis using c Inl assms(4) p by (auto simp: DiskCache_store_value_def)
  next
    case (Inr ids)
    then have ids: "ids = map (Chunk_id H) (split_value v)" using c by blast
    let ?d = "mk_descriptor H key v (stored_md now opts v)"
    have d: "\<lparr>vd_key = key, vd_total_size = vec_size v, vd_chunks = ids, vd_metadata = new_metadata now opts v (vec_size ids)\<rparr> = ?d"
      by (simp add: mk_descriptor_def ids)
    obtain st2 dc2 where q: "DiskCache_put_descriptor ?d dc1 = (st2, dc2)" by fastforce
    have rep: "DC_rep H S dc1 A" using c by blast
    note pd = put_descriptor_ok [OF rep assms(3) q]
    have rdy: "dirs_ready (dc_store dc1) = dirs_ready (dc_store dc)" using c by (intro dirs_ready_cong) simp_all
    have r': "st = (if Status_is_ok st2 then Status_ok else st2)" "dc_store dc' = dc_store dc2" "dc_descriptors dc' = dc_descriptors dc2"
      using assms(4) p Inr q by (auto simp: DiskCache_store_value_def d split: if_splits)
    have "DC_rep H S dc' (if Status_is_ok st then A(key \<mapsto> (v, stored_md now opts v)) else A)"
      using pd(1) r' DC_rep_frame by (auto split: if_splits)
    moreover have "dc_chunk_at dc' (Chunk_id H d) = Some d" if "dirs_ready (dc_store dc)" "d \<in> set (split_value v)" for d
      using c that pd(2) split_chunks_ok(1) [OF assms(3)] r'(2) by auto
    ultimately show ?thesis using pd(3) rdy r'(1) by auto
  qed
  then show "DC_rep H S dc' (if Status_is_ok st then A(key \<mapsto> (v, stored_md now opts v)) else A)"
    and "dirs_ready (dc_store dc) \<Longrightarrow> st = Status_ok
       \<and> (\<forall>d\<in>set (split_value v). dc_chunk_at dc' (Chunk_id H d) = Some d)" by blast+
qed

lemma DiskCache_evict_ok:
  assumes "DC_rep H S dc A" and "DiskCache_evict n dc = (r, dc')"
  shows "DC_rep H S dc' A" and "\<exists>k. r = Inr k" and "dirs_ready (dc_store dc') = dirs_ready (dc_store dc)"
proof -
  have "reliable (dc_store dc)" using assms(1) by (simp add: DC_rep_def dc_chunks_ok_def)
  then have r: "(\<exists>k. r = Inr k) \<and> dc_shrinks dc dc'"
    using evict_shrinks [of dc "evict_target (dc_config dc)" n 0] assms(2) by (auto simp: DiskCache_evict_def)
  then show "DC_rep H S dc' A" "\<exists>k. r = Inr k" using dc_shrinks_rep [OF assms(1)] by blast+
  show "dirs_ready (dc_store dc') = dirs_ready (dc_store dc)" using r by (intro dirs_ready_cong) (simp_all add: dc_shrinks_def)
qed

lemma DiskCache_put_ok:
  assumes "DC_rep H S dc A" and "collision_free H S" and "value_ok S v"
    and "DiskCache_put H now key v opts dc = (r, dc')"
  shows "DC_rep H S dc' (if result_ok r then A(key \<mapsto> (v, stored_md now opts v)) else A)"
    and "\<not> MAX_KEY_SIZE < CacheKey_size key \<Longrightarrow> dirs_ready (dc_store dc) \<Longrightarrow>
       r = Inr Status_ok \<and> (\<forall>d\<in>set (split_value v). dc_chunk_at dc' (Chunk_id H d) = Some d)"
proof -
  have "DC_rep H S dc' (if result_ok r then A(key \<mapsto> (v, stored_md now opts v)) else A)
    \<and> (\<not> MAX_KEY_SIZE < CacheKey_size key \<longrightarrow> dirs_ready (dc_store dc) \<longrightarrow>
        r = Inr Status_ok \<and> (\<forall>d\<in>set (split_value v). dc_chunk_at dc' (Chunk_id H d) = Some d))"
  proof (cases "MAX_KEY_SIZE < CacheKey_size key")
    case True
    then show ?thesis using assms(1,4) by (auto simp: DiskCache_put_def result_ok_def)
  next
    case False
    obtain e dc1 where e: "(if needs_eviction (vec_size v) dc then DiskCache_evict (vec_size v) dc else (Inr 0, dc)) = (e, dc1)"
      by fastforce
    have ev: "DC_rep H S dc1 A" "\<exists>k. e = Inr k" "dirs_ready (dc_store dc1) = dirs_ready (dc_store dc)"
      using DiskCache_evict_ok [OF assms(1)] e assms(1) by (auto split: if_splits)
    obtain st dc2 where st: "DiskCache_store_value H now key v opts dc1 = (st, dc2)" by fastforce
    have "r = Inr st" "dc' = dc2" using assms(4) False e ev(2) st by (auto simp: DiskCache_put_def)
    then show ?thesis using DiskCache_store_value_ok [OF ev(1) assms(2,3) st] ev(3) by (simp add: result_ok_def)
  qed
  then show "DC_rep H S dc' (if result_ok r then A(key \<mapsto> (v, stored_md now opts v)) else A)"
    and "\<not> MAX_KEY_SIZE < CacheKey_size key \<Longrightarrow> dirs_ready (dc_store dc) \<Longrightarrow>
       r = Inr Status_ok \<and> (\<forall>d\<in>set (split_value v). dc_chunk_at dc' (Chunk_id H d) = Some d)" by blast+
qed

section \<open>Starting\<close>

text \<open>Operations that leave the files alone.\<close>

definition keeps_files :: "DiskStore \<Rightarrow> DiskStore \<Rightarrow> bool" where
  "keeps_files s s' = (fs_files (ds_fs s') = fs_files (ds_fs s) \<and> ds_root s' = ds_root s
     \<and> set (fs_dirs (ds_fs s)) \<subseteq> set (fs_dirs (ds_fs s')) \<and> (reliable s \<longrightarrow> reliable s'))"

definition keeps_index :: "DiskCache \<Rightarrow> DiskCache \<Rightarrow> bool" where
  "keeps_index dc dc' = (keeps_files (dc_store dc) (dc_store dc') \<and> dc_descriptors dc' = dc_descriptors dc)"

lemma keeps_files_refl [simp]: "keeps_files s s"
  by (simp add: keeps_files_def)

lemma keeps_files_trans: "keeps_files a b \<Longrightarrow> keeps_files b c \<Longrightarrow> keeps_files a c"
  by (auto simp: keeps_files_def)

lemma keeps_index_trans: "keeps_index a b \<Longrightarrow> keeps_index b c \<Longrightarrow> keeps_index a c"
  by (auto simp: keeps_index_def intro: keeps_files_trans)

lemma next_io_frame:
  assumes "next_io fs = (e, fs')"
  shows "fs_files fs' = fs_files fs \<and> fs_dirs fs' = fs_dirs fs \<and> (fs_script fs = [] \<longrightarrow> fs_script fs' = [])"
  using assms by (auto simp: next_io_def split: list.splits)

lemma pread_loop_frame:
  assumes "pread_loop need acc rest fs = (buf, fs')"
  shows "fs_files fs' = fs_files fs \<and> fs_dirs fs' = fs_dirs fs \<and> (fs_script fs = [] \<longrightarrow> fs_script fs' = [])"
  using assms
proof (induction need acc rest fs rule: pread_loop.induct)
  case (1 need acc rest fs)
  obtain e fs1 where e: "next_io fs = (e, fs1)" by fastforce
  note f = next_io_frame [OF e]
  show ?case
    using "1.prems" "1.IH" [OF _ e [symmetric] refl] f
    by (simp add: pread_loop.simps [of need acc rest fs] e Let_def split: if_splits option.splits)
qed

lemma keeps_files_store:
  "keeps_files s (snd (read_file p a b s))" "keeps_files s (snd (file_exists p s))"
  "keeps_files s (snd (directory_iterator p s))" "keeps_files s (snd (ensure_directory p s))"
proof -
  show "keeps_files s (snd (file_exists p s))" "keeps_files s (snd (directory_iterator p s))"
    by (auto simp: keeps_files_def file_exists_def directory_iterator_def reliable_def dest!: next_io_frame split: prod.splits)
  show "keeps_files s (snd (ensure_directory p s))"
    by (auto simp: keeps_files_def ensure_directory_def reliable_def Let_def dest!: next_io_frame split: prod.splits)
  show "keeps_files s (snd (read_file p a b s))"
    by (auto simp: keeps_files_def read_file_def reliable_def Let_def dest!: next_io_frame pread_loop_frame
        split: prod.splits option.splits if_splits)
qed

lemma ensure_directories_keeps: "keeps_files s (snd (ensure_directories ps s))"
proof (induction ps arbitrary: s)
  case (Cons p ps)
  obtain r s1 where e: "ensure_directory p s = (r, s1)" by fastforce
  have "keeps_files s s1" using keeps_files_store(4) [of s p] e by simp
  then show ?case using e Cons [of s1] by (auto split: sum.splits intro: keeps_files_trans)
qed simp

text \<open>The directories \<^verbatim>\<open>init\<close> asks for.\<close>

definition init_dirs :: "path \<Rightarrow> path list" where
  "init_dirs base = base # map (\<lambda>i. chunks_subdir base (pad_left 2 (to_base 16 i))) [0..<256] @ [base @ [''descriptors'']]"

lemma DiskStore_init_dirs:
  "DiskStore_init s = (case ensure_directories (init_dirs (ds_root s)) s of
     (Inr st, s') \<Rightarrow> (Inr st, if Status_is_ok st then s'\<lparr>ds_initialized := True\<rparr> else s')
   | (Inl e, s') \<Rightarrow> (Inl e, s'))"
  by (simp only: DiskStore_init_def init_dirs_def Let_def)

lemma init_keeps: "keeps_files s (snd (DiskStore_init s))"
proof -
  obtain r s' where e: "ensure_directories (init_dirs (ds_root s)) s = (r, s')" by fastforce
  then have "keeps_files s s'" using ensure_directories_keeps [of s "init_dirs (ds_root s)"] by simp
  then show ?thesis
    by (auto simp: DiskStore_init_dirs e keeps_files_def reliable_def split: sum.splits)
qed

lemma scan_descriptors_keeps: "keeps_files s (scan_descriptors dir names s)"
  by (induction names arbitrary: s) (auto intro: keeps_files_trans keeps_files_store(1))

lemma keeps_index_store:
  "keeps_files (dc_store dc) s \<Longrightarrow> keeps_index dc (dc\<lparr>dc_store := s\<rparr>)"
  by (simp add: keeps_index_def)

lemma keeps_index_refl [simp]: "keeps_index dc dc"
  by (simp add: keeps_index_def)

lemma load_chunk_file_keeps: "keeps_index dc (snd (load_chunk_file dir name dc))"
  by (auto simp: load_chunk_file_def keeps_index_def keeps_files_def reliable_def Let_def index_chunk_def
      dest!: next_io_frame split: sum.splits prod.splits option.splits)

lemma load_chunk_files_keeps: "keeps_index dc (snd (load_chunk_files dir names dc))"
proof (induction names arbitrary: dc)
  case (Cons name names)
  obtain r dc1 where e: "load_chunk_file dir name dc = (r, dc1)" by fastforce
  have "keeps_index dc dc1" using load_chunk_file_keeps [of dc dir name] e by simp
  then show ?case using e Cons [of dc1] by (auto split: sum.splits intro: keeps_index_trans)
qed simp

lemma load_chunk_dirs_keeps: "keeps_index dc (snd (load_chunk_dirs dir subs dc))"
proof (induction subs arbitrary: dc)
  case (Cons sub subs)
  obtain r s where e: "directory_iterator (dir @ [sub]) (dc_store dc) = (r, s)" by fastforce
  have k: "keeps_index dc (dc\<lparr>dc_store := s\<rparr>)"
    using keeps_files_store(3) [of "dc_store dc" "dir @ [sub]"] e by (simp add: keeps_index_store)
  have "keeps_index dc (snd (load_chunk_dirs dir subs dc1))"
    if "load_chunk_files (dir @ [sub]) names (dc\<lparr>dc_store := s\<rparr>) = (q, dc1)" for names q dc1
    using keeps_index_trans [OF keeps_index_trans [OF k] Cons [of dc1]]
      load_chunk_files_keeps [of "dc\<lparr>dc_store := s\<rparr>" "dir @ [sub]" names] that by simp
  moreover have "keeps_index dc dc1"
    if "load_chunk_files (dir @ [sub]) names (dc\<lparr>dc_store := s\<rparr>) = (q, dc1)" for names q dc1
    using keeps_index_trans [OF k] load_chunk_files_keeps [of "dc\<lparr>dc_store := s\<rparr>" "dir @ [sub]" names] that by simp
  ultimately show ?case using e k Cons [of dc] by (auto split: sum.splits prod.splits)
qed simp

lemma load_chunks_keeps: "keeps_index dc (snd (load_chunks dc))"
proof -
  let ?dir = "dc_base dc @ [''chunks'']"
  obtain r s where e: "file_exists ?dir (dc_store dc) = (r, s)" by fastforce
  obtain r1 s1 where d: "directory_iterator ?dir s = (r1, s1)" by fastforce
  have k: "keeps_index dc (dc\<lparr>dc_store := s\<rparr>)" "keeps_index dc (dc\<lparr>dc_store := s1\<rparr>)"
    using keeps_files_store(2) [of "dc_store dc" ?dir] keeps_files_store(3) [of s ?dir] e d
    by (auto intro!: keeps_index_store intro: keeps_files_trans)
  show ?thesis
  proof (cases r1)
    case (Inl ex)
    then show ?thesis using e d k by (auto simp: load_chunks_def Let_def split: sum.splits bool.splits)
  next
    case (Inr subs)
    obtain q dc2 where l: "load_chunk_dirs ?dir subs (dc\<lparr>dc_store := s1\<rparr>) = (q, dc2)" by fastforce
    have "keeps_index dc dc2"
      using keeps_index_trans [OF k(2)] load_chunk_dirs_keeps [of "dc\<lparr>dc_store := s1\<rparr>" ?dir subs] l by simp
    then show ?thesis using e d k l Inr by (auto simp: load_chunks_def Let_def split: sum.splits bool.splits)
  qed
qed

lemma load_index_keeps: "keeps_index dc (snd (load_index dc))"
proof -
  let ?dir = "dc_base dc @ [''descriptors'']"
  obtain r s where e: "file_exists ?dir (dc_store dc) = (r, s)" by fastforce
  obtain r1 s1 where d: "directory_iterator ?dir s = (r1, s1)" by fastforce
  have f: "keeps_files (dc_store dc) s" "keeps_files (dc_store dc) s1"
    using keeps_files_store(2) [of "dc_store dc" ?dir] keeps_files_store(3) [of s ?dir] e d
    by (auto intro: keeps_files_trans)
  have "keeps_index dc (snd (load_chunks (dc\<lparr>dc_store := scan_descriptors ?dir names s1\<rparr>)))" for names
    by (rule keeps_index_trans [OF keeps_index_store [OF keeps_files_trans [OF f(2) scan_descriptors_keeps]] load_chunks_keeps])
  then show ?thesis
    using e d keeps_index_store [OF f(1)] keeps_index_store [OF f(2)]
    by (auto simp: load_index_def Let_def split: sum.splits bool.splits)
qed

lemma start_keeps: "keeps_index dc (snd (DiskCache_start dc))"
proof -
  obtain r s where i: "DiskStore_init (dc_store dc) = (r, s)" by fastforce
  have k: "keeps_index dc (dc\<lparr>dc_store := s\<rparr>)" using init_keeps [of "dc_store dc"] i by (simp add: keeps_index_store)
  then show ?thesis
    using i keeps_index_trans [OF k load_index_keeps] by (auto simp: DiskCache_start_def split: sum.splits)
qed

lemma keeps_index_rep:
  assumes "DC_rep H S dc A" and "keeps_index dc dc'"
  shows "DC_rep H S dc' A"
proof -
  have "file_at (dc_store dc') = file_at (dc_store dc)" "dc_base dc' = dc_base dc" "reliable (dc_store dc) \<Longrightarrow> reliable (dc_store dc')"
    using assms(2) by (simp_all add: keeps_index_def keeps_files_def)
  moreover from this(1,2) have "dc_chunk_at dc' = dc_chunk_at dc" by (simp add: store_chunk_def fun_eq_iff)
  ultimately show ?thesis using assms by (auto simp: DC_rep_def dc_chunks_ok_def keeps_index_def)
qed

text \<open>The two hexadecimal digits that name a chunk directory are among the 256 that \<^verbatim>\<open>init\<close> creates.\<close>

lemma digit_char_0: "digit_char 0 = CHR ''0''"
  by code_simp

lemma hex_digits: "set (pad_left w (to_base 16 n)) \<subseteq> digit_char ` {..<16}"
  using base_digits_bound [of 16 _ n] by (auto simp: pad_left_def to_base_def simp flip: digit_char_0)

lemma two_hex_digits:
  assumes "a < 16" and "b < 16"
  shows "[digit_char a, digit_char b] = pad_left 2 (to_base 16 (16 * a + b))"
proof (cases "a = 0")
  case True
  then show ?thesis using assms by (simp add: pad_left_def to_base_def base_digits.simps [of 16 b] digit_char_0)
next
  case False
  then have "base_digits 16 (16 * a + b) = [a, b]"
    using assms by (simp add: base_digits.simps [of 16 "16 * a + b"] base_digits.simps [of 16 a])
  then show ?thesis by (simp add: pad_left_def to_base_def)
qed

lemma chunk_dir_created:
  "take 2 (Hash128_to_hex h) \<in> set (map (\<lambda>i. pad_left 2 (to_base 16 i)) [0..<256])"
proof -
  obtain c d rest where hex: "Hash128_to_hex h = c # d # rest"
    using length_Hash128_to_hex [of h] by (cases "Hash128_to_hex h" rule: remdups_adj.cases) auto
  have "set (Hash128_to_hex h) \<subseteq> digit_char ` {..<16}"
    unfolding Hash128_to_hex_def set_append using hex_digits by (intro Un_least)
  then obtain a b where ab: "c = digit_char a" "d = digit_char b" "a < 16" "b < 16" unfolding hex by auto
  then have "take 2 (Hash128_to_hex h) = pad_left 2 (to_base 16 (16 * a + b))"
    using two_hex_digits [OF ab(3,4)] by (simp add: hex)
  moreover have "16 * a + b < 256" using ab by simp
  ultimately show ?thesis by auto
qed

lemma start_ready:
  assumes "reliable (dc_store dc)"
    and "\<forall>p\<in>set (init_dirs (dc_base dc)). \<forall>q\<in>set (prefixes_of p). file_at (dc_store dc) q = None"
  shows "dirs_ready (dc_store (snd (DiskCache_start dc)))"
proof -
  obtain s where e: "ensure_directories (init_dirs (dc_base dc)) (dc_store dc) = (Inr Status_ok, s)"
    and s: "set (init_dirs (dc_base dc)) \<subseteq> dirs_of s" "ds_root s = dc_base dc"
    using ensure_directories_reliable [OF assms] by blast
  let ?dc = "dc\<lparr>dc_store := s\<lparr>ds_initialized := True\<rparr>\<rparr>"
  have st: "snd (DiskCache_start dc) = snd (load_index ?dc)"
    by (simp add: DiskCache_start_def DiskStore_init_dirs e)
  have k: "dirs_of s \<subseteq> dirs_of (dc_store (snd (load_index ?dc)))" "dc_base (snd (load_index ?dc)) = dc_base dc"
    using load_index_keeps [of ?dc] s(2) by (simp_all add: keeps_index_def keeps_files_def)
  have "butlast (chunk_path (dc_base dc) i) \<in> set (init_dirs (dc_base dc))" for i
    using chunk_dir_created [of "chunk_hash i"] by (auto simp: butlast_paths init_dirs_def)
  moreover have "dc_base dc @ [''descriptors''] \<in> set (init_dirs (dc_base dc))" by (simp add: init_dirs_def)
  ultimately show ?thesis unfolding st dirs_ready_def k(2) using s(1) k(1) by blast
qed

section \<open>Reachable states\<close>

text \<open>
  The states of a disk cache on a reliable file system under any sequence of its operations and
  restarts, with the map of the values its clients stored since the last start. The store may hold
  chunk files from an earlier run.
\<close>

definition store_sound :: "hasher \<Rightarrow> Chunk set \<Rightarrow> DiskStore \<Rightarrow> bool" where
  "store_sound H S s =
     (reliable s \<and> chunks_sound H S (store_chunk s) \<and> (\<forall>i c. file_at s (chunk_path (ds_root s) i) = Some c \<longrightarrow> fits c))"

inductive dc_reach :: "hasher \<Rightarrow> Chunk set \<Rightarrow> DiskCache \<Rightarrow> cache_map \<Rightarrow> bool" for H S where
  dc_new: "store_sound H S (DiskStore_new config base fs) \<Longrightarrow> dc_reach H S (DiskCache_new config base fs clock) Map.empty"
| dc_restart: "dc_reach H S dc A \<Longrightarrow>
    dc_reach H S (DiskCache_new config (dc_base dc) (ds_fs (dc_store dc)) clock) Map.empty"
| dc_start: "dc_reach H S dc A \<Longrightarrow> DiskCache_start dc = (r, dc') \<Longrightarrow> dc_reach H S dc' A"
| dc_get: "dc_reach H S dc A \<Longrightarrow> DiskCache_get now key ropts dc = (res, dc') \<Longrightarrow> dc_reach H S dc' A"
| dc_put: "dc_reach H S dc A \<Longrightarrow> value_ok S v \<Longrightarrow> DiskCache_put H now key v wopts dc = (r, dc') \<Longrightarrow>
    dc_reach H S dc' (if result_ok r then A(key \<mapsto> (v, stored_md now wopts v)) else A)"
| dc_remove: "dc_reach H S dc A \<Longrightarrow> DiskCache_remove key dopts dc = (r, dc') \<Longrightarrow> dc_reach H S dc' (A(key := None))"
| dc_put_chunk: "dc_reach H S dc A \<Longrightarrow> d \<in> S \<Longrightarrow> fits d \<Longrightarrow> DiskCache_put_chunk H (Some d) dc = (st, dc') \<Longrightarrow> dc_reach H S dc' A"
| dc_remove_chunk: "dc_reach H S dc A \<Longrightarrow> DiskCache_remove_chunk i dc = (r, dc') \<Longrightarrow> dc_reach H S dc' A"
| dc_evict: "dc_reach H S dc A \<Longrightarrow> DiskCache_evict n dc = (q, dc') \<Longrightarrow> dc_reach H S dc' A"

lemma DC_rep_sound: "DC_rep H S dc A \<Longrightarrow> store_sound H S (dc_store dc)"
  by (simp add: DC_rep_def dc_chunks_ok_def store_sound_def)

lemma DC_rep_new:
  "store_sound H S (DiskStore_new config base fs) \<Longrightarrow> DC_rep H S (DiskCache_new config base fs clock) Map.empty"
  by (simp add: DC_rep_def dc_chunks_ok_def store_sound_def DiskCache_new_def descriptors_of_def)

lemma store_sound_restart:
  assumes "store_sound H S s"
  shows "store_sound H S (DiskStore_new config (ds_root s) (ds_fs s))"
proof -
  have "store_chunk (DiskStore_new config (ds_root s) (ds_fs s)) = store_chunk s"
    by (simp add: DiskStore_new_def store_chunk_def fun_eq_iff)
  then show ?thesis using assms by (simp add: store_sound_def DiskStore_new_def reliable_def)
qed

lemma DC_rep_get:
  assumes "DC_rep H S dc A" and "collision_free H S" and "DiskCache_get now key opts dc = (res, dc')"
  shows "DC_rep H S dc' A"
proof (cases "A key")
  case None
  then show ?thesis using DiskCache_get_absent(1) [OF assms(1,3)] by blast
next
  case (Some x)
  then obtain v md where x: "A key = Some (v, md)" by (cases x) auto
  then show ?thesis
    using DiskCache_get_absent(2) [OF assms(1,3) x] DiskCache_get_stored(1) [OF assms(1,2) x _ assms(3)] by blast
qed

lemma dc_reach_rep:
  assumes "collision_free H S" and "dc_reach H S dc A"
  shows "DC_rep H S dc A"
  using assms(2)
proof induction
  case (dc_restart dc A config clock)
  then show ?case by (intro DC_rep_new store_sound_restart DC_rep_sound)
next
  case (dc_start dc A r dc')
  then show ?case using keeps_index_rep start_keeps [of dc] by simp
next
  case (dc_get dc A now key ropts res dc')
  then show ?case using DC_rep_get assms(1) by blast
next
  case (dc_put dc A v now key wopts r dc')
  then show ?case using DiskCache_put_ok(1) assms(1) by blast
next
  case (dc_remove dc A key dopts r dc')
  then show ?case using DiskCache_remove_ok(1) by blast
next
  case (dc_put_chunk dc A d st dc')
  then show ?case using DiskCache_put_chunk_ok(1) by blast
next
  case (dc_remove_chunk dc A i r dc')
  then have "reliable (dc_store dc)" by (simp add: DC_rep_def dc_chunks_ok_def)
  then show ?case using remove_chunk_shrinks [of dc i] dc_remove_chunk dc_shrinks_rep by fastforce
next
  case (dc_evict dc A n q dc')
  then show ?case using DiskCache_evict_ok(1) by blast
qed (simp add: DC_rep_new)

section \<open>The size account\<close>

text \<open>
  With a clock whose readings strictly increase, the entries of the access order are the chunks ever
  indexed and not yet dropped, oldest first, and \<^verbatim>\<open>current_size_\<close> is the sum of their sizes.
\<close>

definition dc_account :: "(nat \<Rightarrow> int) \<Rightarrow> DiskCache \<Rightarrow> bool" where
  "dc_account clock dc \<longleftrightarrow>
     dc_clock dc = clock \<and> sorted_wrt (<) (map ae_last_access (dc_access_order dc))
     \<and> (\<forall>e\<in>set (dc_access_order dc). ae_last_access e < clock (dc_ticks dc))
     \<and> dc_current_size dc = sum_list (map ae_size (dc_access_order dc))"

abbreviation account_part :: "DiskCache \<Rightarrow> AccessEntry list \<times> u64 \<times> nat \<times> (nat \<Rightarrow> int)" where
  "account_part dc \<equiv> (dc_access_order dc, dc_current_size dc, dc_ticks dc, dc_clock dc)"

lemma dc_account_cong: "dc_account clock dc \<Longrightarrow> account_part dc' = account_part dc \<Longrightarrow> dc_account clock dc'"
  by (simp add: dc_account_def)

lemma dc_account_frame [simp]:
  "dc_account clock (dc\<lparr>dc_store := s\<rparr>) = dc_account clock dc"
  "dc_account clock (dc\<lparr>dc_descriptors := ds\<rparr>) = dc_account clock dc"
  "dc_account clock (dc\<lparr>dc_bytes_written := n\<rparr>) = dc_account clock dc"
  by (simp_all add: dc_account_def)

lemma access_insert_last:
  "\<forall>x\<in>set xs. ae_last_access x < ae_last_access e \<Longrightarrow> access_insert e xs = xs @ [e]"
  by (induction xs) auto

lemma index_chunk_account:
  assumes "strict_mono clock" and "dc_account clock dc"
  shows "dc_account clock (index_chunk i p n dc)"
proof -
  have "clock (dc_ticks dc) < clock (Suc (dc_ticks dc))" using assms(1) by (simp add: strict_mono_def)
  then show ?thesis
    using assms(2) by (auto simp: dc_account_def index_chunk_def access_insert_last sorted_wrt_append intro: less_trans)
qed

lemma access_remove_facts:
  assumes "access_remove i xs = (n, ys)"
  shows "sum_list (map ae_size xs) = n + sum_list (map ae_size ys)" and "set ys \<subseteq> set xs"
    and "sorted_wrt (<) (map ae_last_access xs) \<Longrightarrow> sorted_wrt (<) (map ae_last_access ys)"
proof -
  have "sum_list (map ae_size xs) = n + sum_list (map ae_size ys) \<and> (\<forall>y\<in>set ys. y \<in> set xs)
     \<and> (sorted_wrt (<) (map ae_last_access xs) \<longrightarrow> sorted_wrt (<) (map ae_last_access ys))"
    using assms by (induction xs arbitrary: n ys) (auto split: if_splits prod.splits)
  then show "sum_list (map ae_size xs) = n + sum_list (map ae_size ys)" and "set ys \<subseteq> set xs"
    and "sorted_wrt (<) (map ae_last_access xs) \<Longrightarrow> sorted_wrt (<) (map ae_last_access ys)" by blast+
qed

lemma remove_chunk_account:
  assumes "dc_account clock dc"
  shows "dc_account clock (snd (DiskCache_remove_chunk i dc))"
proof -
  obtain n ys where r: "access_remove i (dc_access_order dc) = (n, ys)" by fastforce
  note f = access_remove_facts [OF r]
  show ?thesis using assms f r
    by (auto simp: DiskCache_remove_chunk_def dc_account_def Let_def split: prod.splits)
qed

lemma put_chunk_account:
  assumes "strict_mono clock" and "dc_account clock dc"
  shows "dc_account clock (snd (DiskCache_put_chunk H c dc))"
proof -
  have "dc_account clock (dc\<lparr>dc_store := s\<rparr>)" for s using assms(2) by (simp add: dc_account_def)
  then show ?thesis
    using index_chunk_account [OF assms(1)] assms(2)
    by (auto simp: DiskCache_put_chunk_def Let_def split: option.splits prod.splits)
qed

lemma put_chunks_inv:
  assumes "\<And>c s. P s \<Longrightarrow> P (snd (f c s))" and "P s"
  shows "P (snd (put_chunks_loop f H cs s))"
  using assms(2)
proof (induction cs arbitrary: s)
  case (Cons c cs)
  obtain st s1 where f: "f (Some c) s = (st, s1)" by fastforce
  have "P s1" using assms(1) [OF Cons.prems, of "Some c"] f by simp
  from Cons.IH [OF this] \<open>P s1\<close> f show ?case by (auto split: prod.splits sum.splits)
qed simp

lemma evict_loop_account:
  assumes "dc_account clock dc" and "evict_loop target needed evicted dc = (r, dc')"
  shows "dc_account clock dc'"
    and "r = Inr n \<Longrightarrow> dc_current_size dc + evicted = dc_current_size dc' + n
       \<and> dc_current_size dc' \<le> target \<and> (needed \<le> n \<or> dc_access_order dc' = [])"
proof -
  have "dc_account clock dc' \<and> (\<forall>n. r = Inr n \<longrightarrow> dc_current_size dc + evicted = dc_current_size dc' + n
     \<and> dc_current_size dc' \<le> target \<and> (needed \<le> n \<or> dc_access_order dc' = []))"
    using assms
  proof (induction "length (dc_access_order dc)" arbitrary: dc evicted)
    case 0
    then show ?case
      by (auto simp: evict_loop.simps [of target needed evicted dc] dc_account_def split: if_splits)
  next
    case (Suc k)
    then obtain e es where o: "dc_access_order dc = e # es" by (cases "dc_access_order dc") auto
    obtain q s where del: "delete_file (chunk_path (dc_base dc) (ae_id e)) (dc_store dc) = (q, s)" by fastforce
    let ?dc = "dc\<lparr>dc_access_order := es, dc_chunk_paths := AList.delete (ae_id e) (dc_chunk_paths dc),
        dc_current_size := dc_current_size dc - ae_size e, dc_evictions := dc_evictions dc + 1, dc_store := s\<rparr>"
    have acc: "dc_account clock ?dc" using Suc.prems(1) o by (auto simp: dc_account_def)
    have loop: "evict_loop target needed evicted dc =
        (if target < dc_current_size dc \<or> evicted < needed
         then (case q of Inl ex \<Rightarrow> (Inl ex, ?dc) | Inr st \<Rightarrow> evict_loop target needed (evicted + ae_size e) ?dc)
         else (Inr evicted, dc))"
      by (simp add: evict_loop.simps [of target needed evicted dc] o del Let_def)
    show ?case
    proof (cases "target < dc_current_size dc \<or> evicted < needed")
      case False
      then have "r = Inr evicted" "dc' = dc" using loop Suc.prems(2) by simp_all
      then show ?thesis using Suc.prems(1) False by (simp add: not_less)
    next
      case True
      show ?thesis
      proof (cases q)
        case (Inl ex)
        then show ?thesis using loop True Suc.prems(2) acc by auto
      next
        case (Inr st)
        then have "evict_loop target needed (evicted + ae_size e) ?dc = (r, dc')" using loop True Suc.prems(2) by simp
        from Suc.hyps(1) [OF _ acc this] Suc.hyps(2) o show ?thesis by (simp add: algebra_simps)
      qed
    qed
  qed
  then show "dc_account clock dc'"
    and "r = Inr n \<Longrightarrow> dc_current_size dc + evicted = dc_current_size dc' + n
       \<and> dc_current_size dc' \<le> target \<and> (needed \<le> n \<or> dc_access_order dc' = [])" by blast+
qed

text \<open>The states of a disk cache under any operations and any behaviour of the file system.\<close>

inductive dc_ops :: "hasher \<Rightarrow> (nat \<Rightarrow> int) \<Rightarrow> DiskCache \<Rightarrow> bool" for H clock where
  ops_new: "dc_ops H clock (DiskCache_new config base fs clock)"
| ops_start: "dc_ops H clock dc \<Longrightarrow> dc_ops H clock (snd (DiskCache_start dc))"
| ops_get: "dc_ops H clock dc \<Longrightarrow> dc_ops H clock (snd (DiskCache_get now key ropts dc))"
| ops_put: "dc_ops H clock dc \<Longrightarrow> dc_ops H clock (snd (DiskCache_put H now key v wopts dc))"
| ops_remove: "dc_ops H clock dc \<Longrightarrow> dc_ops H clock (snd (DiskCache_remove key dopts dc))"
| ops_put_chunk: "dc_ops H clock dc \<Longrightarrow> dc_ops H clock (snd (DiskCache_put_chunk H c dc))"
| ops_remove_chunk: "dc_ops H clock dc \<Longrightarrow> dc_ops H clock (snd (DiskCache_remove_chunk i dc))"
| ops_evict: "dc_ops H clock dc \<Longrightarrow> dc_ops H clock (snd (DiskCache_evict n dc))"

lemma get_account_part: "account_part (snd (DiskCache_get now key opts dc)) = account_part dc"
proof -
  have "account_part (snd (DiskCache_get_chunk i dc)) = account_part dc" for i dc
    by (simp add: DiskCache_get_chunk_def split: prod.splits)
  then have f: "account_part dc1 = account_part dc"
    if "fetch_loop DiskCache_get_chunk ap ids idxs dc = (cs, af, dc1)" for ap ids idxs cs af dc1
    using fetch_loop_frame [of account_part DiskCache_get_chunk, OF _ that] by blast
  have "account_part (snd (DiskCache_read d r opts dc)) = account_part dc" for d r
    using f by (auto simp: DiskCache_read_def Let_def split: prod.splits)
  then show ?thesis by (simp add: DiskCache_get_def Let_def split: option.splits)
qed

lemma remove_chunks_account:
  "dc_account clock dc \<Longrightarrow> dc_account clock (snd (remove_chunks_loop ids dc))"
proof (induction ids arbitrary: dc)
  case (Cons i ids)
  obtain r dc1 where e: "DiskCache_remove_chunk i dc = (r, dc1)" by fastforce
  then have "dc_account clock dc1" using remove_chunk_account [OF Cons.prems, of i] by simp
  then show ?case using e Cons.IH by (auto split: sum.splits)
qed simp

lemma remove_account:
  assumes "dc_account clock dc"
  shows "dc_account clock (snd (DiskCache_remove key opts dc))"
proof -
  have "dc_account clock dc1" if "remove_chunks_loop ids dc = (r, dc1)" for ids r dc1
    using remove_chunks_account [OF assms, of ids] that by simp
  then show ?thesis
    using assms
    by (auto simp: DiskCache_remove_def DiskCache_remove_descriptor_def Let_def split: option.splits prod.splits sum.splits)
qed

lemma store_value_account:
  assumes "strict_mono clock" and "dc_account clock dc"
  shows "dc_account clock (snd (DiskCache_store_value H now key v opts dc))"
proof -
  have "dc_account clock dc1" if "put_chunks_loop (DiskCache_put_chunk H) H cs dc = (r, dc1)" for cs r dc1
    using put_chunks_inv [of "dc_account clock" "DiskCache_put_chunk H" dc H cs, OF put_chunk_account [OF assms(1)] assms(2)] that by simp
  then show ?thesis
    by (auto simp: DiskCache_store_value_def DiskCache_put_descriptor_def Let_def split: prod.splits sum.splits)
qed

lemma put_account:
  assumes "strict_mono clock" and "dc_account clock dc"
  shows "dc_account clock (snd (DiskCache_put H now key v opts dc))"
proof -
  have "dc_account clock dc1" if "DiskCache_evict n dc = (r, dc1)" for n r dc1
    using evict_loop_account(1) [OF assms(2)] that by (auto simp: DiskCache_evict_def)
  then have "dc_account clock (snd (DiskCache_store_value H now key v opts dc1))"
    if "(if needs_eviction n dc then DiskCache_evict n dc else (Inr 0, dc)) = (r, dc1)" for n r dc1
    using that assms store_value_account by (auto split: if_splits)
  then show ?thesis
    using assms(2) \<open>\<And>n r dc1. DiskCache_evict n dc = (r, dc1) \<Longrightarrow> dc_account clock dc1\<close>
    by (auto simp: DiskCache_put_def Let_def split: prod.splits sum.splits if_splits) (metis snd_conv)+
qed

lemma load_chunk_file_account:
  assumes "strict_mono clock" and "dc_account clock dc"
  shows "dc_account clock (snd (load_chunk_file dir name dc))"
proof -
  have "dc_account clock (dc\<lparr>dc_store := s\<rparr>)" for s using assms(2) by (simp add: dc_account_def)
  moreover from this have "dc_account clock (dc\<lparr>dc_store := s, dc_chunk_paths := ps\<rparr>)" for s ps by (simp add: dc_account_def)
  ultimately show ?thesis
    using index_chunk_account [OF assms(1)] assms(2)
    by (auto simp: load_chunk_file_def Let_def split: sum.splits prod.splits option.splits)
qed

lemma load_chunk_files_account:
  assumes "strict_mono clock" and "dc_account clock dc"
  shows "dc_account clock (snd (load_chunk_files dir names dc))"
  using assms(2)
proof (induction names arbitrary: dc)
  case (Cons name names)
  obtain r dc1 where e: "load_chunk_file dir name dc = (r, dc1)" by fastforce
  then have "dc_account clock dc1" using load_chunk_file_account [OF assms(1) Cons.prems, of dir name] by simp
  then show ?case using e Cons.IH by (auto split: sum.splits)
qed simp

lemma load_chunk_dirs_account:
  assumes "strict_mono clock" and "dc_account clock dc"
  shows "dc_account clock (snd (load_chunk_dirs dir subs dc))"
  using assms(2)
proof (induction subs arbitrary: dc)
  case (Cons sub subs)
  have st: "dc_account clock (dc\<lparr>dc_store := s\<rparr>)" for s using Cons.prems by (simp add: dc_account_def)
  have "dc_account clock dc1" if "load_chunk_files d ns (dc\<lparr>dc_store := s\<rparr>) = (r, dc1)" for d ns s r dc1
    using load_chunk_files_account [OF assms(1) st, of d ns s] that by simp
  then show ?case using Cons st by (auto split: sum.splits prod.splits)
qed simp

lemma start_account:
  assumes "strict_mono clock" and "dc_account clock dc"
  shows "dc_account clock (snd (DiskCache_start dc))"
proof -
  have st: "dc_account clock (dc\<lparr>dc_store := s\<rparr>)" for s using assms(2) by (simp add: dc_account_def)
  have "dc_account clock dc2" if "load_chunk_dirs d ns (dc\<lparr>dc_store := s\<rparr>) = (r, dc2)" for d ns s r dc2
    using load_chunk_dirs_account [OF assms(1) st, of d ns s] that by simp
  then have "dc_account clock (snd (load_chunks (dc\<lparr>dc_store := s\<rparr>)))" for s
    using st by (auto simp: load_chunks_def Let_def split: sum.splits prod.splits bool.splits)
  then have "dc_account clock (snd (load_index (dc\<lparr>dc_store := s\<rparr>)))" for s
    using st by (auto simp: load_index_def Let_def split: sum.splits prod.splits bool.splits)
  then show ?thesis using st by (auto simp: DiskCache_start_def split: sum.splits prod.splits)
qed

lemma dc_ops_account:
  assumes "strict_mono clock" and "dc_ops H clock dc"
  shows "dc_account clock dc"
  using assms(2)
proof induction
  case (ops_new config base fs)
  then show ?case by (simp add: dc_account_def DiskCache_new_def)
next
  case (ops_get dc now key ropts)
  then show ?case using dc_account_cong [OF _ get_account_part] by blast
next
  case (ops_evict dc n)
  then show ?case
    using evict_loop_account(1) [of clock dc "evict_target (dc_config dc)" n 0 _ "snd (DiskCache_evict n dc)"]
    by (metis DiskCache_evict_def prod.collapse)
qed (simp_all add: start_account put_account remove_account put_chunk_account remove_chunk_account assms(1))

section \<open>Properties\<close>

text \<open>
  C8. Reads of the disk cache are correct in every state its operations can reach on a reliable file
  system, restarts and evictions included: a key not stored since the last start misses, an expired
  entry answers \<^verbatim>\<open>Expired\<close>, and a \<^verbatim>\<open>Hit\<close> carries exactly the requested bytes of the value last stored.
  A request for at least one byte hits exactly when the files of all its chunks are there. The hash
  is assumed to tell the stored chunks apart.
\<close>

theorem disk_get_sound:
  assumes "collision_free H S" and "dc_reach H S dc A" and "DiskCache_get now key opts dc = (res, dc')"
  shows "case A key of
      None \<Rightarrow> rr_result res = Miss \<and> rr_data res = []
    | Some (v, md) \<Rightarrow>
        if CacheMetadata_is_expired now md then rr_result res = Expired \<and> rr_data res = []
        else read_ok opts v md res
          \<and> (requested_bytes opts v \<noteq> [] \<longrightarrow> rr_result res = Hit \<longleftrightarrow> all_present H (dc_chunk_at dc) v (requested_range opts v))"
proof -
  note rep = dc_reach_rep [OF assms(1,2)]
  show ?thesis
  proof (cases "A key")
    case None
    then show ?thesis using DiskCache_get_absent(1) [OF rep assms(3)] by (simp add: ReadResult_new_def)
  next
    case (Some x)
    then obtain v md where x: "A key = Some (v, md)" by (cases x) auto
    then show ?thesis
      using DiskCache_get_absent(2) [OF rep assms(3) x] DiskCache_get_stored(3,4) [OF rep assms(1) x _ assms(3)]
      by (auto simp: ReadResult_new_def)
  qed
qed

lemma DiskCache_put_then_get:
  assumes "DC_rep H S dc A" and "collision_free H S" and "value_ok S v" and "v \<noteq> []"
    and "CacheKey_size key \<le> MAX_KEY_SIZE" and "dirs_ready (dc_store dc)"
    and "\<not> CacheMetadata_is_expired later (stored_md now opts v)" and "ro_range ropts = None"
  shows "\<exists>dc'. DiskCache_put H now key v opts dc = (Inr Status_ok, dc')
       \<and> DC_rep H S dc' (A(key \<mapsto> (v, stored_md now opts v)))
       \<and> rr_result (fst (DiskCache_get later key ropts dc')) = Hit \<and> rr_data (fst (DiskCache_get later key ropts dc')) = v"
proof -
  note f = value_ok_fits [OF assms(3)]
  obtain r dc' where p: "DiskCache_put H now key v opts dc = (r, dc')" by fastforce
  note ok = DiskCache_put_ok [OF assms(1-3) p]
  have r: "r = Inr Status_ok" and all: "\<forall>d\<in>set (split_value v). dc_chunk_at dc' (Chunk_id H d) = Some d"
    using ok(2) assms(5,6) by (simp_all add: not_less)
  then have rep': "DC_rep H S dc' (A(key \<mapsto> (v, stored_md now opts v)))" using ok(1) by (simp add: result_ok_def)
  obtain res dc'' where g: "DiskCache_get later key ropts dc' = (res, dc'')" by fastforce
  have rng: "requested_range ropts v = \<lparr>r_offset = 0, r_length = vec_size v\<rparr>"
    using assms(8) by (simp add: requested_range_def)
  have bytes: "requested_bytes ropts v = v" using f by (simp add: requested_bytes_def rng unat_vec_size)
  have "all_present H (dc_chunk_at dc') v (requested_range ropts v)"
    unfolding all_present_def rng
    using all needed_chunks_below [of 0 "length v" v] assms(4) f by (auto simp: unat_vec_size split_value_chunks)
  then have "rr_result res = Hit" "read_ok ropts v (stored_md now opts v) res"
    using DiskCache_get_stored(3,4) [OF rep' assms(2) _ assms(7) g] bytes assms(4) by simp_all
  then show ?thesis using p g r bytes rep' by (auto simp: read_ok_def)
qed

text \<open>
  C9. On a reliable file system, where no system call fails or is cut short, a value stored on disk is
  read back whole: once the directories exist, a \<^verbatim>\<open>put\<close> of a non-empty value under a key that is not too
  long succeeds, whatever the cache holds and has to evict for it, and the next \<^verbatim>\<open>get\<close> before the expiry
  is a \<^verbatim>\<open>Hit\<close> with the same bytes. The hash is assumed to tell the stored chunks apart.
\<close>

theorem disk_put_get:
  assumes "collision_free H S" and "dc_reach H S dc A" and "value_ok S v" and "v \<noteq> []"
    and "CacheKey_size key \<le> MAX_KEY_SIZE" and "dirs_ready (dc_store dc)"
    and "\<not> CacheMetadata_is_expired later (stored_md now opts v)"
  shows "\<exists>dc' res dc''. DiskCache_put H now key v opts dc = (Inr Status_ok, dc')
       \<and> DiskCache_get later key ReadOptions_new dc' = (res, dc'') \<and> rr_result res = Hit \<and> rr_data res = v"
  using DiskCache_put_then_get [OF dc_reach_rep [OF assms(1,2)] assms(1,3-7), of ReadOptions_new]
  by (metis prod.collapse ReadOptions_new_def ReadOptions.select_convs(4))

text \<open>A file system with the directories for some chunks, used in the examples below.\<close>

definition example_cache :: "hasher \<Rightarrow> Chunk list \<Rightarrow> (nat \<Rightarrow> int) \<Rightarrow> io_outcome list \<Rightarrow> DiskCache" where
  "example_cache H cs clock script =
     DiskCache_new DiskCacheConfig_new [''c'']
       \<lparr>fs_files = [], fs_dirs = [''c'', ''descriptors''] # map (\<lambda>c. butlast (chunk_path [''c''] (Chunk_id H c))) cs,
        fs_script = script\<rparr> clock"

lemma small_no_eviction:
  assumes "dc_config dc = DiskCacheConfig_new" and "unat (dc_current_size dc + n) \<le> CS"
  shows "\<not> needs_eviction n dc"
proof -
  let ?h = "disk_high_watermark DiskCacheConfig_new"
  have half: "fl (1 / 2) = 1 / 2" by code_simp
  have h: "1 / 2 \<le> ?h" using fl_mono [of "1 / 2" "90 / 100"] half by (simp add: DiskCacheConfig_new_def)
  have m: "double_of_u64 (disk_max_size DiskCacheConfig_new) = of_nat 107374182400"
    using fl_of_nat_exact [of 107374182400] by (simp add: double_of_u64_def DiskCacheConfig_new_def)
  have "of_nat 107374182400 * (1 / 2) \<le> of_nat 107374182400 * ?h" using h by (intro mult_left_mono) simp_all
  then have "of_nat CS \<le> of_nat 107374182400 * ?h" by (simp add: unat_CHUNK_SIZE)
  from fl_mono [OF this] have "of_nat CS \<le> fl (of_nat 107374182400 * ?h)" using fl_of_nat_exact [of CS] by (simp add: unat_CHUNK_SIZE)
  moreover have "double_of_u64 (dc_current_size dc + n) = of_nat (unat (dc_current_size dc + n))"
    using assms(2) unfolding double_of_u64_def by (intro fl_of_nat_exact) (simp add: unat_CHUNK_SIZE)
  moreover have "of_nat (unat (dc_current_size dc + n)) \<le> (of_nat CS :: rat)" using assms(2) by (simp only: of_nat_le_iff)
  ultimately show ?thesis using m assms(1) by (simp add: needs_eviction_def)
qed

lemma small_chunk_num:
  assumes "v \<noteq> []" and "length v \<le> CS"
  shows "chunk_num v = 1"
  using chunk_num_less [of 0 v] chunk_num_less [of 1 v] assms by (auto simp: unat_CHUNK_SIZE)

lemma small_split:
  assumes "v \<noteq> []" and "length v \<le> CS"
  shows "split_value v = [v]"
  using assms small_chunk_num [OF assms] by (simp add: split_value_chunks chunk_of_def unat_CHUNK_SIZE)

lemma small_indices:
  assumes "v \<noteq> []" and "length v \<le> CS"
  shows "chunks_for_range (mk_descriptor H key v md) \<lparr>r_offset = 0, r_length = vec_size v\<rparr> = [0]"
proof -
  have l: "0 < length v" using assms(1) by simp
  have f: "fits v" "length v + CS < 2 ^ 64" using assms(2) by (simp_all add: unat_CHUNK_SIZE)
  have d: "vd_total_size (mk_descriptor H key v md) = vec_size v" "length (vd_chunks (mk_descriptor H key v md)) = chunk_num v"
    using f(1) by (simp_all add: mk_descriptor_def length_split_value)
  have ne: "vec_size v \<noteq> 0" using f(1) l by (simp add: vec_size_eq_0)
  have "map unat (chunks_for_range (mk_descriptor H key v md) \<lparr>r_offset = 0, r_length = vec_size v\<rparr>) = map unat [0 :: u64]"
    using chunks_for_range_indices(1) [OF f d, of 0 "vec_size v"] ne f(1) l assms(2)
    by (simp add: unat_vec_size unat_CHUNK_SIZE)
  then show ?thesis by (rule map_injective) (simp add: inj_def word_eq_unat)
qed

text \<open>Storing and reading a value of one chunk; the read returns whatever the file holds.\<close>

lemma put_small:
  assumes "v \<noteq> []" and "length v \<le> CS" and "CacheKey_size key \<le> MAX_KEY_SIZE" and "\<not> needs_eviction (vec_size v) dc"
    and "DiskCache_put_chunk H (Some v) dc = (Status_ok, dc1)"
    and "DiskCache_put_descriptor (mk_descriptor H key v (stored_md now opts v)) dc1 = (Status_ok, dc2)"
  shows "DiskCache_put H now key v opts dc = (Inr Status_ok, dc2\<lparr>dc_bytes_written := dc_bytes_written dc2 + vec_size v\<rparr>)"
  using assms by (simp add: DiskCache_put_def DiskCache_store_value_def small_split mk_descriptor_def not_less vec_size_def)

lemma get_small:
  assumes "v \<noteq> []" and "length v \<le> CS" and "length c = length v" and "reliable (dc_store dc)"
    and "DiskCache_get_descriptor dc key = Some (mk_descriptor H key v md)" and "\<not> CacheMetadata_is_expired now md"
    and "file_at (dc_store dc) (chunk_path (dc_base dc) (Chunk_id H v)) = Some c"
  shows "\<exists>res dc'. DiskCache_get now key ReadOptions_new dc = (res, dc') \<and> rr_result res = Hit \<and> rr_data res = c"
proof -
  let ?d = "mk_descriptor H key v md" and ?q = "\<lparr>r_offset = 0, r_length = vec_size v\<rparr>"
  have c: "fits c" "c \<noteq> []" "vec_size c = vec_size v" using assms(1-3) by (auto simp: vec_size_def unat_CHUNK_SIZE)
  have ne: "vec_size v \<noteq> 0" using assms(1,2) by (simp add: vec_size_eq_0 unat_CHUNK_SIZE)
  have rd: "DiskCache_get_chunk (Chunk_id H v) dc = (Some c, dc)"
    using read_file_reliable [OF assms(4), of "chunk_path (dc_base dc) (Chunk_id H v)"] assms(7) c
    by (simp add: DiskCache_get_chunk_def)
  have d: "vd_total_size ?d = vec_size v" "vd_chunks ?d = [Chunk_id H v]" "vd_metadata ?d = md" "ro_range ReadOptions_new = None"
    using small_split [OF assms(1,2)] by (simp_all add: mk_descriptor_def ReadOptions_new_def)
  have asm: "disk_assemble ?q [Some c] = c"
    using c ne by (simp add: disk_assemble_def Chunk_read_subspan unat_vec_size flip: c(3))
  have "DiskCache_read ?d ?q ReadOptions_new dc =
      (\<lparr>rr_result = Hit, rr_data = c, rr_actual_range = \<lparr>r_offset = 0, r_length = vec_size c\<rparr>, rr_metadata = Some md\<rparr>,
       dc\<lparr>dc_hits := dc_hits dc + 1, dc_bytes_read := dc_bytes_read dc + vec_size c\<rparr>)"
    using rd by (simp add: DiskCache_read_def small_indices [OF assms(1,2)] d asm c(3) vec_size_Cons)
  then show ?thesis using assms(5,6) ne by (simp add: DiskCache_get_def d)
qed

text \<open>What a short write leaves in a preallocated file when the next call writes nothing.\<close>

lemma torn_pwrite:
  assumes "0 < k" and "k < length v" and "fs_script fs = [Io_short k, Io_short 0]"
  shows "pwrite_loop 0 v (replicate (length v) 0) fs = (None, take k v @ replicate (length v - k) 0, fs\<lparr>fs_script := []\<rparr>)"
proof -
  have "overwrite (replicate (length v) 0) 0 (take k v) = take k v @ replicate (length v - k) 0"
    using assms(2) by (simp add: overwrite_def)
  then show ?thesis
    using assms by (subst pwrite_loop.simps, subst pwrite_loop.simps) (simp add: next_io_def flip: length_0_conv)
qed

lemma torn_put_chunk:
  assumes "0 < k" and "k < length v"
  shows "\<exists>dc1. DiskCache_put_chunk H (Some v) (example_cache H [v] clock [Io_full, Io_full, Io_short k, Io_short 0]) = (Status_ok, dc1)
     \<and> dc_base dc1 = [''c''] \<and> dc_descriptors dc1 = [] \<and> reliable (dc_store dc1)
     \<and> butlast (descriptor_path [''c''] key) \<in> dirs_of (dc_store dc1)
     \<and> file_at (dc_store dc1) (chunk_path [''c''] (Chunk_id H v)) = Some (take k v @ replicate (length v - k) 0)"
  using assms
  by (simp add: DiskCache_put_chunk_def write_file_def example_cache_def DiskCache_new_def DiskStore_new_def next_io_def
      Let_def DiskCacheConfig_new_def torn_pwrite reliable_def set_file_def butlast_paths flip: length_0_conv)

text \<open>
  C35. A torn write is served as a hit. On a new cache with the default configuration, which
  preallocates files, let the write of the only chunk of a value stop after some of its bytes and the
  next call write nothing: \<^verbatim>\<open>put\<close> reports success and the rest of the file is the zeros of \<^verbatim>\<open>fallocate\<close>.
  Nothing compares the contents with the hash in the name, so \<^verbatim>\<open>get\<close> answers \<^verbatim>\<open>Hit\<close> with zeros for the
  bytes that were not written.
\<close>

theorem torn_write_served:
  assumes "0 < k" and "k < length v" and "length v \<le> CS" and "CacheKey_size key \<le> MAX_KEY_SIZE"
  shows "\<exists>dc res dc'. DiskCache_put H now key v WriteOptions_new
                  (example_cache H [v] clock [Io_full, Io_full, Io_short k, Io_short 0]) = (Inr Status_ok, dc)
     \<and> DiskCache_get later key ReadOptions_new dc = (res, dc') \<and> rr_result res = Hit
     \<and> rr_data res = take k v @ replicate (length v - k) 0"
proof -
  let ?d = "mk_descriptor H key v (stored_md now WriteOptions_new v)" and ?c = "take k v @ replicate (length v - k) 0"
  let ?ex = "example_cache H [v] clock [Io_full, Io_full, Io_short k, Io_short 0]"
  have v: "v \<noteq> []" using assms(2) by auto
  obtain dc1 where pc: "DiskCache_put_chunk H (Some v) ?ex = (Status_ok, dc1)" and
    dc1: "dc_base dc1 = [''c'']" "dc_descriptors dc1 = []" "reliable (dc_store dc1)"
      "butlast (descriptor_path [''c''] key) \<in> dirs_of (dc_store dc1)"
      "file_at (dc_store dc1) (chunk_path [''c''] (Chunk_id H v)) = Some ?c"
    using torn_put_chunk [OF assms(1,2)] by blast
  let ?dc2 = "dc1\<lparr>dc_store := with_file (descriptor_path [''c''] key) (descriptor_bytes ?d) (dc_store dc1), dc_descriptors := [(key, ?d)]\<rparr>"
  have pd: "DiskCache_put_descriptor ?d dc1 = (Status_ok, ?dc2)"
    using write_file_reliable(1) [OF dc1(3,4)] dc1(1,2) by (simp add: DiskCache_put_descriptor_def Let_def mk_descriptor_def)
  have "unat (dc_current_size ?ex + vec_size v) \<le> CS"
    using assms(3) by (simp add: example_cache_def DiskCache_new_def unat_vec_size unat_CHUNK_SIZE)
  then have "\<not> needs_eviction (vec_size v) ?ex"
    by (intro small_no_eviction) (simp_all add: example_cache_def DiskCache_new_def)
  from put_small [OF v assms(3,4) this pc pd]
  have put: "DiskCache_put H now key v WriteOptions_new ?ex
      = (Inr Status_ok, ?dc2\<lparr>dc_bytes_written := dc_bytes_written ?dc2 + vec_size v\<rparr>)" (is "_ = (_, ?dc)") .
  have "\<not> CacheMetadata_is_expired later (stored_md now WriteOptions_new v)"
    by (simp add: CacheMetadata_is_expired_def new_metadata_def expiry_def WriteOptions_new_def)
  then have "\<exists>res dc'. DiskCache_get later key ReadOptions_new ?dc = (res, dc') \<and> rr_result res = Hit \<and> rr_data res = ?c"
    using dc1 v assms(2,3) by (intro get_small [of v _ ?dc key H]) (simp_all add: DiskCache_get_descriptor_def)
  then show ?thesis using put by blast
qed

theorem torn_write_served_witness:
  "\<exists>dc res dc'. DiskCache_put fnv_hasher 0 (CacheKey_new fnv_hasher ''k'') [1, 2, 3] WriteOptions_new
       (example_cache fnv_hasher [[1, 2, 3]] int [Io_full, Io_full, Io_short 1, Io_short 0]) = (Inr Status_ok, dc)
     \<and> DiskCache_get 0 (CacheKey_new fnv_hasher ''k'') ReadOptions_new dc = (res, dc') \<and> rr_result res = Hit \<and> rr_data res = [1, 0, 0]"
proof -
  have "CacheKey_size (CacheKey_new fnv_hasher ''k'') \<le> MAX_KEY_SIZE"
    by (simp add: MAX_KEY_SIZE_def CacheKey_size_def CacheKey_new_def vec_size_def)
  then show ?thesis
    using torn_write_served [of 1 "[1, 2, 3]" "CacheKey_new fnv_hasher ''k''" fnv_hasher 0 int 0]
    by (simp add: unat_CHUNK_SIZE numeral_2_eq_2)
qed

lemma evict_empty: "dc_access_order dc = [] \<Longrightarrow> evict_loop target n k dc = (Inr k, dc)"
  by (simp add: evict_loop.simps)

lemma evict_single:
  assumes "reliable (dc_store dc)" and "dc_access_order dc = [e]" and "k < n"
  shows "\<exists>dc'. evict_loop target n k dc = (Inr (k + ae_size e), dc') \<and> dc_access_order dc' = []
       \<and> dc_current_size dc' = dc_current_size dc - ae_size e"
proof -
  obtain st s where "delete_file (chunk_path (dc_base dc) (ae_id e)) (dc_store dc) = (Inr st, s)"
    using delete_file_reliable [OF assms(1)] by metis
  then show ?thesis using assms(2,3) by (simp add: evict_loop.simps [of target n k dc] evict_empty)
qed

lemma put_chunk_reliable:
  assumes "reliable (dc_store dc)" and "butlast (chunk_path (dc_base dc) (Chunk_id H c)) \<in> dirs_of (dc_store dc)"
  shows "DiskCache_put_chunk H (Some c) dc = (Status_ok,
     index_chunk (Chunk_id H c) (chunk_path (dc_base dc) (Chunk_id H c)) (vec_size c)
       (dc\<lparr>dc_store := with_file (chunk_path (dc_base dc) (Chunk_id H c)) c (dc_store dc)\<rparr>))"
  using write_file_reliable(1) [OF assms] by (simp add: DiskCache_put_chunk_def Let_def)

text \<open>
  Chunks written at the same clock reading drop out of the access order: \<^verbatim>\<open>AccessEntry\<close> is ordered by
  time alone, so the second entry is not inserted while its bytes are counted. Eviction then finds
  one chunk of the two, and the bytes of the other stay in \<^verbatim>\<open>current_size_\<close> for good.
\<close>

theorem clock_tie_leaks:
  "\<exists>dc1 dc2 dc3. DiskCache_put_chunk H (Some [1]) (example_cache H [[1], [2]] (\<lambda>_. t) []) = (Status_ok, dc1)
     \<and> DiskCache_put_chunk H (Some [2]) dc1 = (Status_ok, dc2) \<and> dc_current_size dc2 = 2
     \<and> DiskCache_evict 2 dc2 = (Inr 1, dc3) \<and> dc_current_size dc3 = 1 \<and> (\<forall>n. DiskCache_evict n dc3 = (Inr 0, dc3))"
proof -
  let ?dc = "example_cache H [[1], [2]] (\<lambda>_. t) []"
  let ?e = "\<lparr>ae_id = Chunk_id H [1], ae_last_access = t, ae_size = 1\<rparr>"
  have dc: "reliable (dc_store ?dc)" "dc_base ?dc = [''c'']" "dc_access_order ?dc = []" "dc_current_size ?dc = 0"
    "dc_clock ?dc = (\<lambda>_. t)" "butlast (chunk_path [''c''] (Chunk_id H [1])) \<in> dirs_of (dc_store ?dc)"
    "butlast (chunk_path [''c''] (Chunk_id H [2])) \<in> dirs_of (dc_store ?dc)"
    by (simp_all add: example_cache_def DiskCache_new_def DiskStore_new_def reliable_def)
  obtain dc1 where p1: "DiskCache_put_chunk H (Some [1]) ?dc = (Status_ok, dc1)"
    and dc1: "reliable (dc_store dc1)" "dc_base dc1 = [''c'']" "dc_access_order dc1 = [?e]" "dc_current_size dc1 = 1"
      "dc_clock dc1 = (\<lambda>_. t)" "butlast (chunk_path [''c''] (Chunk_id H [2])) \<in> dirs_of (dc_store dc1)"
    using put_chunk_reliable [OF dc(1), of H "[1]"] dc by (simp add: index_chunk_def vec_size_Cons)
  obtain dc2 where p2: "DiskCache_put_chunk H (Some [2]) dc1 = (Status_ok, dc2)"
    and dc2: "reliable (dc_store dc2)" "dc_access_order dc2 = [?e]" "dc_current_size dc2 = 2"
    using put_chunk_reliable [OF dc1(1), of H "[2]"] dc1 by (simp add: index_chunk_def vec_size_Cons)
  obtain dc3 where e: "DiskCache_evict 2 dc2 = (Inr 1, dc3)" "dc_access_order dc3 = []" "dc_current_size dc3 = 1"
    using evict_single [OF dc2(1,2), of 0 2] dc2(3) by (auto simp: DiskCache_evict_def)
  have "DiskCache_evict n dc3 = (Inr 0, dc3)" for n using e(2) by (simp add: DiskCache_evict_def evict_empty)
  then show ?thesis using p1 p2 dc2(3) e by blast
qed

text \<open>
  A restart loses every entry: whatever files the earlier run left, after the start of a new
  process every \<^verbatim>\<open>get\<close> misses, because \<^verbatim>\<open>load_index\<close> reads the descriptor files and drops them.
\<close>

theorem disk_restart_forgets:
  "fst (DiskCache_get now key opts (snd (DiskCache_start (DiskCache_new config base fs clock)))) = ReadResult_new"
proof -
  have "dc_descriptors (snd (DiskCache_start (DiskCache_new config base fs clock))) = []"
    using start_keeps [of "DiskCache_new config base fs clock"] by (simp add: keeps_index_def DiskCache_new_def)
  then show ?thesis by (simp add: DiskCache_get_def DiskCache_get_descriptor_def)
qed

text \<open>An empty disk, started: the state of the first witnesses.\<close>

abbreviation fresh_disk :: DiskCache where
  "fresh_disk \<equiv> snd (DiskCache_start (DiskCache_new DiskCacheConfig_new [''c''] \<lparr>fs_files = [], fs_dirs = [], fs_script = []\<rparr> int))"

lemma fresh_disk_reach: "dc_reach H S fresh_disk Map.empty" and fresh_disk_ready: "dirs_ready (dc_store fresh_disk)"
proof -
  let ?fs = "\<lparr>fs_files = [], fs_dirs = [], fs_script = []\<rparr>"
  have "store_sound H S (DiskStore_new DiskCacheConfig_new [''c''] ?fs)"
    by (simp add: store_sound_def chunks_sound_def store_chunk_def reliable_def DiskStore_new_def)
  from dc_reach.dc_start [OF dc_reach.dc_new [OF this, of int]] show "dc_reach H S fresh_disk Map.empty"
    by (metis prod.collapse)
  show "dirs_ready (dc_store fresh_disk)"
    by (rule start_ready) (simp_all add: DiskCache_new_def DiskStore_new_def reliable_def)
qed

theorem disk_put_get_witness:
  "\<exists>dc' res dc''. DiskCache_put fnv_hasher 0 (CacheKey_new fnv_hasher ''k'') [1, 2, 3] WriteOptions_new fresh_disk = (Inr Status_ok, dc')
     \<and> DiskCache_get 5 (CacheKey_new fnv_hasher ''k'') ReadOptions_new dc' = (res, dc'') \<and> rr_result res = Hit \<and> rr_data res = [1, 2, 3]"
  by (rule disk_put_get [OF collision_free_singleton fresh_disk_reach small_value_ok _ _ fresh_disk_ready])
     (simp_all add: MAX_KEY_SIZE_def CacheKey_size_def CacheKey_new_def vec_size_def
        CacheMetadata_is_expired_def new_metadata_def expiry_def WriteOptions_new_def)

theorem disk_get_sound_witness:
  "\<exists>dc res dc'. DiskCache_put fnv_hasher 0 (CacheKey_new fnv_hasher ''k'') [1, 2, 3] WriteOptions_new fresh_disk = (Inr Status_ok, dc)
     \<and> DiskCache_get 5 (CacheKey_new fnv_hasher ''k'') ReadOptions_new dc = (res, dc')
     \<and> read_ok ReadOptions_new [1, 2, 3] (stored_md 0 WriteOptions_new [1, 2, 3]) res"
proof -
  let ?H = fnv_hasher and ?v = "[1, 2, 3] :: byte list" and ?k = "CacheKey_new fnv_hasher ''k''"
  have ok: "value_ok {?v} ?v" by (rule small_value_ok) simp
  have sz: "\<not> MAX_KEY_SIZE < CacheKey_size ?k"
    by (simp add: MAX_KEY_SIZE_def CacheKey_size_def CacheKey_new_def vec_size_def)
  obtain r dc where p: "DiskCache_put ?H 0 ?k ?v WriteOptions_new fresh_disk = (r, dc)" by fastforce
  have r: "r = Inr Status_ok"
    using DiskCache_put_ok(2) [OF dc_reach_rep [OF collision_free_singleton fresh_disk_reach] collision_free_singleton ok p sz fresh_disk_ready]
    by blast
  obtain res dc' where g: "DiskCache_get 5 ?k ReadOptions_new dc = (res, dc')" by fastforce
  have "dc_reach ?H {?v} dc [?k \<mapsto> (?v, stored_md 0 WriteOptions_new ?v)]"
    using dc_reach.dc_put [OF fresh_disk_reach ok p] r by (simp add: result_ok_def)
  from disk_get_sound [OF collision_free_singleton this g]
  have "read_ok ReadOptions_new ?v (stored_md 0 WriteOptions_new ?v) res"
    by (simp add: CacheMetadata_is_expired_def new_metadata_def expiry_def WriteOptions_new_def)
  then show ?thesis using p g r by blast
qed

text \<open>
  C20. The size account and eviction. Under any operations, any file system behaviour and a clock
  whose readings strictly increase, \<^verbatim>\<open>current_size_\<close> is the sum of the sizes in the access order. An
  \<^verbatim>\<open>evict\<close> that returns has reduced it by exactly the number of bytes it reports, to at most the low
  watermark, and has freed the bytes asked for unless it emptied the access order.
\<close>

theorem disk_evict_exact:
  assumes "strict_mono clock" and "dc_ops H clock dc" and "DiskCache_evict n dc = (Inr k, dc')"
  shows "dc_current_size dc = sum_list (map ae_size (dc_access_order dc))
       \<and> dc_current_size dc = dc_current_size dc' + k \<and> dc_current_size dc' \<le> evict_target (dc_config dc)
       \<and> (n \<le> k \<or> dc_access_order dc' = [])"
proof -
  note a = dc_ops_account [OF assms(1,2)]
  show ?thesis
    using evict_loop_account(2) [OF a assms(3) [unfolded DiskCache_evict_def] refl] a by (simp add: dc_account_def)
qed

theorem disk_evict_exact_witness:
  "\<exists>dc' k. DiskCache_evict 1 (snd (DiskCache_put_chunk fnv_hasher (Some [1]) (example_cache fnv_hasher [[1]] int []))) = (Inr k, dc')
     \<and> dc_current_size dc' \<le> evict_target DiskCacheConfig_new \<and> (1 \<le> k \<or> dc_access_order dc' = [])"
proof -
  let ?ex = "example_cache fnv_hasher [[1]] int []"
  let ?dc = "snd (DiskCache_put_chunk fnv_hasher (Some [1]) ?ex)"
  have ops: "dc_ops fnv_hasher int ?dc"
    unfolding example_cache_def by (intro dc_ops.ops_put_chunk dc_ops.ops_new)
  have dc0: "reliable (dc_store ?ex)" "dc_base ?ex = [''c'']" "dc_config ?ex = DiskCacheConfig_new"
    "butlast (chunk_path [''c''] (Chunk_id fnv_hasher [1])) \<in> dirs_of (dc_store ?ex)"
    by (simp_all add: example_cache_def DiskCache_new_def DiskStore_new_def reliable_def)
  then have dc: "reliable (dc_store ?dc)" "dc_config ?dc = DiskCacheConfig_new"
    using put_chunk_reliable [OF dc0(1), of fnv_hasher "[1]"] by (simp_all add: index_chunk_def)
  obtain k dc' where e: "DiskCache_evict 1 ?dc = (Inr k, dc')"
    using evict_shrinks [OF dc(1), of "evict_target (dc_config ?dc)" 1 0] unfolding DiskCache_evict_def by blast
  have "strict_mono int" by (simp add: strict_mono_def)
  from disk_evict_exact [OF this ops e] show ?thesis using e dc(2) by auto
qed

end
