(* ===== verification/Cluster.thy ===== *)
theory Cluster
  imports Connection Hash_Ring Config Cache_Interface
begin

text \<open>
  Cluster membership, routing, remote operations and gossip: the classes \<^verbatim>\<open>ClusterNode\<close>, \<^verbatim>\<open>Cluster\<close> and
  \<^verbatim>\<open>GossipProtocol\<close> of \<^verbatim>\<open>cluster.hpp\<close> and \<^verbatim>\<open>cluster.cpp\<close>. A shared pointer to a connection is an index into
  \<open>clu_conns\<close>, the connections in the order of their creation; a pointer to a node is its id, since nodes
  are never taken out of the map. The outcomes of the next connection attempts are listed in
  \<open>clu_dials\<close>. Handlers that are spawned on the scheduler are recorded in \<open>clu_spawned\<close> and run as
  separate steps. \<open>None\<close> as the result of an operation means that it waits forever.
\<close>

section \<open>State\<close>

record ClusterNode =
  cn_info :: NodeInfo
  cn_connection :: "nat option"

record Cluster =
  clu_config :: Config
  clu_local :: NodeId
  clu_nodes :: "(NodeId \<times> ClusterNode) list"
  clu_ring :: HashRing
  clu_running :: bool
  clu_listening :: bool
  clu_scheduled :: bool
  clu_gossip_running :: bool
  clu_last_heard :: "(NodeId \<times> int) list"
  clu_events :: "(NodeId \<times> bool) list"
  clu_conns :: "Connection list"
  clu_dials :: "Connection option list"
  clu_spawned :: "nat list"
  clu_clock :: "nat \<Rightarrow> int"
  clu_ticks :: nat

definition ClusterNode_new :: "NodeInfo \<Rightarrow> ClusterNode" where
  "ClusterNode_new info = \<lparr>cn_info = info, cn_connection = None\<rparr>"

definition ClusterNode_is_active :: "ClusterNode \<Rightarrow> bool" where
  "ClusterNode_is_active node = (ni_state (cn_info node) = NodeState_value NS_Active)"

definition ClusterNode_available_memory :: "ClusterNode \<Rightarrow> u64" where
  "ClusterNode_available_memory node = ni_memory_capacity (cn_info node) - ni_memory_used (cn_info node)"

definition ClusterNode_available_disk :: "ClusterNode \<Rightarrow> u64" where
  "ClusterNode_available_disk node = ni_disk_capacity (cn_info node) - ni_disk_used (cn_info node)"

definition ClusterNode_update :: "NodeInfo \<Rightarrow> ClusterNode \<Rightarrow> ClusterNode" where
  "ClusterNode_update info node =
     (if ni_generation (cn_info node) < ni_generation info then node\<lparr>cn_info := info\<rparr> else node)"

text \<open>
  The constructor. The generated id is an argument; so are \<open>memory_used\<close> and \<open>disk_used\<close>, two members the
  constructor leaves uninitialised.
\<close>

definition local_info :: "Config \<Rightarrow> NodeId \<Rightarrow> u64 \<Rightarrow> u64 \<Rightarrow> NodeInfo" where
  "local_info config nid memory_used disk_used =
     \<lparr>ni_id = nid, ni_address = net_bind_address (cfg_network config), ni_port = net_cluster_port (cfg_network config),
      ni_memory_capacity = mem_max_size (cfg_memory config), ni_memory_used = memory_used,
      ni_disk_capacity = disk_max_size (cfg_disk config), ni_disk_used = disk_used,
      ni_generation = 1, ni_state = NodeState_value NS_Active, ni_last_seen = 0\<rparr>"

definition Cluster_new ::
    "Config \<Rightarrow> NodeId \<Rightarrow> u64 \<Rightarrow> u64 \<Rightarrow> Connection option list \<Rightarrow> (nat \<Rightarrow> int) \<Rightarrow> Cluster" where
  "Cluster_new config nid memory_used disk_used dials clock =
     \<lparr>clu_config = config, clu_local = nid,
      clu_nodes = [(nid, ClusterNode_new (local_info config nid memory_used disk_used))],
      clu_ring = HashRing_add_node nid (HashRing_new (cl_virtual_nodes (cfg_cluster config))),
      clu_running = False, clu_listening = False, clu_scheduled = False, clu_gossip_running = False,
      clu_last_heard = [], clu_events = [], clu_conns = [], clu_dials = dials, clu_spawned = [],
      clu_clock = clock, clu_ticks = 0\<rparr>"

section \<open>Membership\<close>

definition get_node :: "Cluster \<Rightarrow> NodeId \<Rightarrow> ClusterNode option" where
  "get_node c nid = map_of (clu_nodes c) nid"

definition all_nodes :: "Cluster \<Rightarrow> ClusterNode list" where
  "all_nodes c = map snd (clu_nodes c)"

definition active_nodes :: "Cluster \<Rightarrow> ClusterNode list" where
  "active_nodes c = filter ClusterNode_is_active (map snd (clu_nodes c))"

definition notify_node_change :: "NodeId \<Rightarrow> bool \<Rightarrow> Cluster \<Rightarrow> Cluster" where
  "notify_node_change nid joined c = c\<lparr>clu_events := clu_events c @ [(nid, joined)]\<rparr>"

definition handle_node_update :: "NodeInfo \<Rightarrow> Cluster \<Rightarrow> Cluster" where
  "handle_node_update info c =
     (case map_of (clu_nodes c) (ni_id info) of
        Some node \<Rightarrow> c\<lparr>clu_nodes := AList.update (ni_id info) (ClusterNode_update info node) (clu_nodes c)\<rparr>
      | None \<Rightarrow>
          notify_node_change (ni_id info) True
            (c\<lparr>clu_nodes := AList.update (ni_id info) (ClusterNode_new info) (clu_nodes c),
               clu_ring := HashRing_add_node (ni_id info) (clu_ring c)\<rparr>))"

definition set_connection :: "NodeId \<Rightarrow> nat \<Rightarrow> Cluster \<Rightarrow> Cluster" where
  "set_connection nid i c =
     (case map_of (clu_nodes c) nid of
        None \<Rightarrow> c
      | Some node \<Rightarrow> c\<lparr>clu_nodes := AList.update nid (node\<lparr>cn_connection := Some i\<rparr>) (clu_nodes c)\<rparr>)"

text \<open>The node ids of the ring, looked up in the map; the ring may not answer.\<close>

definition lookup_nodes :: "Cluster \<Rightarrow> NodeId list \<Rightarrow> ClusterNode list" where
  "lookup_nodes c ids = List.map_filter (get_node c) ids"

definition route_count :: "Cluster \<Rightarrow> u64 \<Rightarrow> u64" where
  "route_count c count = (if count = 0 then cl_replication_factor (cfg_cluster (clu_config c)) else count)"

definition nodes_for_key :: "CacheKey \<Rightarrow> u64 \<Rightarrow> Cluster \<Rightarrow> ClusterNode list option" where
  "nodes_for_key key count c = map_option (lookup_nodes c) (get_nodes_for_key key (route_count c count) (clu_ring c))"

definition nodes_for_chunk :: "ChunkId \<Rightarrow> u64 \<Rightarrow> Cluster \<Rightarrow> ClusterNode list option" where
  "nodes_for_chunk chunk count c = map_option (lookup_nodes c) (get_nodes_for_chunk chunk (route_count c count) (clu_ring c))"

record ClusterStats =
  st_total_nodes :: u64
  st_active_nodes :: u64
  st_total_memory_capacity :: u64
  st_total_disk_capacity :: u64
  st_total_memory_used :: u64
  st_total_disk_used :: u64

definition Cluster_stats :: "Cluster \<Rightarrow> ClusterStats" where
  "Cluster_stats c =
     (let infos = map (\<lambda>(_, node). cn_info node) (clu_nodes c)
      in \<lparr>st_total_nodes = vec_size (clu_nodes c), st_active_nodes = vec_size (active_nodes c),
          st_total_memory_capacity = sum_list (map ni_memory_capacity infos),
          st_total_disk_capacity = sum_list (map ni_disk_capacity infos),
          st_total_memory_used = sum_list (map ni_memory_used infos),
          st_total_disk_used = sum_list (map ni_disk_used infos)\<rparr>)"

section \<open>Connections\<close>

definition add_connection :: "Connection \<Rightarrow> Cluster \<Rightarrow> nat \<times> Cluster" where
  "add_connection conn c = (length (clu_conns c), c\<lparr>clu_conns := clu_conns c @ [conn]\<rparr>)"

definition connect_to_node :: "string \<Rightarrow> u16 \<Rightarrow> Cluster \<Rightarrow> nat option \<times> Cluster" where
  "connect_to_node address port c =
     (case clu_dials c of
        [] \<Rightarrow> (None, c)
      | None # ds \<Rightarrow> (None, c\<lparr>clu_dials := ds\<rparr>)
      | Some conn # ds \<Rightarrow> (case add_connection conn (c\<lparr>clu_dials := ds\<rparr>) of (i, c1) \<Rightarrow> (Some i, c1)))"

definition send_on :: "u64 \<Rightarrow> nat \<Rightarrow> Message \<Rightarrow> Cluster \<Rightarrow> Status \<times> Cluster" where
  "send_on now_ms i msg c =
     (case Connection_send now_ms msg (clu_conns c ! i) of
        (st, conn) \<Rightarrow> (st, c\<lparr>clu_conns := (clu_conns c)[i := conn]\<rparr>))"

definition receive_on :: "hasher \<Rightarrow> nat \<Rightarrow> Cluster \<Rightarrow> (Message option result \<times> Cluster) option" where
  "receive_on H i c =
     map_option (\<lambda>(r, conn). (r, c\<lparr>clu_conns := (clu_conns c)[i := conn]\<rparr>)) (Connection_receive H (clu_conns c ! i))"

definition close_on :: "nat \<Rightarrow> Cluster \<Rightarrow> Cluster" where
  "close_on i c = c\<lparr>clu_conns := (clu_conns c)[i := Connection_close (clu_conns c ! i)]\<rparr>"

definition spawn_handler :: "nat \<Rightarrow> Cluster \<Rightarrow> Cluster" where
  "spawn_handler i c = (if clu_scheduled c then c\<lparr>clu_spawned := clu_spawned c @ [i]\<rparr> else c)"

text \<open>The beginning of every remote operation: reuse the connection of the node or dial.\<close>

definition ensure_connection :: "NodeId \<Rightarrow> Cluster \<Rightarrow> nat option \<times> Cluster" where
  "ensure_connection nid c =
     (case map_of (clu_nodes c) nid of
        None \<Rightarrow> (None, c)
      | Some node \<Rightarrow>
          (case Option.bind (cn_connection node) (\<lambda>i. if conn_connected (clu_conns c ! i) then Some i else None) of
             Some i \<Rightarrow> (Some i, c)
           | None \<Rightarrow>
               (case connect_to_node (ni_address (cn_info node)) (ni_port (cn_info node)) c of
                  (None, c1) \<Rightarrow> (None, c1)
                | (Some i, c1) \<Rightarrow> (Some i, set_connection nid i c1))))"

section \<open>Remote operations\<close>

text \<open>
  What the remote operations have in common: connect, send one message, wait for one message.
\<close>

datatype rpc_outcome = Rpc_no_connection | Rpc_send_failed Status | Rpc_no_response | Rpc_response Message

definition rpc :: "hasher \<Rightarrow> u64 \<Rightarrow> NodeId \<Rightarrow> Message \<Rightarrow> Cluster \<Rightarrow> (rpc_outcome result \<times> Cluster) option" where
  "rpc H now_ms nid msg c =
     (case ensure_connection nid c of
        (None, c1) \<Rightarrow> Some (Inr Rpc_no_connection, c1)
      | (Some i, c1) \<Rightarrow>
          (case send_on now_ms i msg c1 of
             (st, c2) \<Rightarrow>
               if \<not> Status_is_ok st then Some (Inr (Rpc_send_failed st), c2)
               else map_option (\<lambda>(r, c3). (map_sum id (case_option Rpc_no_response Rpc_response) r, c3)) (receive_on H i c2)))"

definition map_rpc ::
    "(rpc_outcome \<Rightarrow> 'a) \<Rightarrow> (rpc_outcome result \<times> Cluster) option \<Rightarrow> ('a result \<times> Cluster) option" where
  "map_rpc f = map_option (\<lambda>(r, c). (map_sum id f r, c))"

fun get_outcome :: "rpc_outcome \<Rightarrow> ReadResult" where
  "get_outcome (Rpc_response (GetResponseMessage res md data rng)) =
     \<lparr>rr_result = res, rr_data = data, rr_actual_range = rng, rr_metadata = md\<rparr>"
| "get_outcome _ = ReadResult_new"

definition remote_get ::
    "hasher \<Rightarrow> u64 \<Rightarrow> NodeId \<Rightarrow> CacheKey \<Rightarrow> ReadOptions \<Rightarrow> Cluster \<Rightarrow> (ReadResult result \<times> Cluster) option" where
  "remote_get H now_ms nid key opts c = map_rpc get_outcome (rpc H now_ms nid (GetMessage key False (ro_range opts)) c)"

fun put_outcome :: "rpc_outcome \<Rightarrow> Status" where
  "put_outcome Rpc_no_connection = Status_error NetworkError ''Failed to connect''"
| "put_outcome (Rpc_send_failed st) = st"
| "put_outcome (Rpc_response (PutResponseMessage code message)) =
     (if code \<noteq> Ok then Status_error code message else Status_ok)"
| "put_outcome _ = Status_error NetworkError ''Invalid response''"

definition remote_put ::
    "hasher \<Rightarrow> u64 \<Rightarrow> NodeId \<Rightarrow> CacheKey \<Rightarrow> byte list \<Rightarrow> WriteOptions \<Rightarrow> Cluster \<Rightarrow> (Status result \<times> Cluster) option" where
  "remote_put H now_ms nid key v opts c =
     map_rpc put_outcome (rpc H now_ms nid (PutMessage key v (wo_ttl opts) (wo_flags opts)) c)"

fun delete_outcome :: "rpc_outcome \<Rightarrow> Status" where
  "delete_outcome Rpc_no_connection = Status_error NetworkError ''Failed to connect''"
| "delete_outcome (Rpc_send_failed st) = st"
| "delete_outcome (Rpc_response (DeleteResponseMessage code existed)) =
     (if code \<noteq> Ok then Status_error code ''Delete failed'' else Status_ok)"
| "delete_outcome _ = Status_error NetworkError ''Invalid response''"

definition remote_delete :: "hasher \<Rightarrow> u64 \<Rightarrow> NodeId \<Rightarrow> CacheKey \<Rightarrow> Cluster \<Rightarrow> (Status result \<times> Cluster) option" where
  "remote_delete H now_ms nid key c = map_rpc delete_outcome (rpc H now_ms nid (DeleteMessage key) c)"

fun check_outcome :: "rpc_outcome \<Rightarrow> AvailabilityResult" where
  "check_outcome (Rpc_response (CheckResponseMessage found md ranges)) =
     AvailabilityResult_new\<lparr>av_exists := found, av_metadata := md, av_available_ranges := ranges\<rparr>"
| "check_outcome _ = AvailabilityResult_new"

definition remote_check ::
    "hasher \<Rightarrow> u64 \<Rightarrow> NodeId \<Rightarrow> CacheKey \<Rightarrow> Range option \<Rightarrow> Cluster \<Rightarrow> (AvailabilityResult result \<times> Cluster) option" where
  "remote_check H now_ms nid key rng c = map_rpc check_outcome (rpc H now_ms nid (CheckMessage key rng) c)"

fun get_chunk_outcome :: "rpc_outcome \<Rightarrow> SharedChunk" where
  "get_chunk_outcome (Rpc_response (GetChunkResponseMessage found data)) = (if \<not> found \<or> data = [] then None else Some data)"
| "get_chunk_outcome _ = None"

definition remote_get_chunk :: "hasher \<Rightarrow> u64 \<Rightarrow> NodeId \<Rightarrow> ChunkId \<Rightarrow> Cluster \<Rightarrow> (SharedChunk result \<times> Cluster) option" where
  "remote_get_chunk H now_ms nid i c = map_rpc get_chunk_outcome (rpc H now_ms nid (GetChunkMessage i 0 0) c)"

fun put_chunk_outcome :: "rpc_outcome \<Rightarrow> Status" where
  "put_chunk_outcome Rpc_no_connection = Status_error NetworkError ''Failed to connect''"
| "put_chunk_outcome (Rpc_send_failed st) = st"
| "put_chunk_outcome (Rpc_response (PutChunkResponseMessage code)) =
     (if code \<noteq> Ok then Status_error code ''PutChunk failed'' else Status_ok)"
| "put_chunk_outcome _ = Status_error NetworkError ''Invalid response''"

definition remote_put_chunk ::
    "hasher \<Rightarrow> u64 \<Rightarrow> NodeId \<Rightarrow> SharedChunk \<Rightarrow> Cluster \<Rightarrow> (Status result \<times> Cluster) option" where
  "remote_put_chunk H now_ms nid chunk c =
     (case chunk of
        None \<Rightarrow> Some (Inr (Status_error InvalidArgument ''Null chunk''), c)
      | Some d \<Rightarrow> map_rpc put_chunk_outcome (rpc H now_ms nid (PutChunkMessage (Chunk_id H d) d) c))"

fun has_chunks_outcome :: "nat \<Rightarrow> rpc_outcome \<Rightarrow> bool list" where
  "has_chunks_outcome n (Rpc_response (HasChunkResponseMessage found)) = (if length found = n then found else replicate n False)"
| "has_chunks_outcome n _ = replicate n False"

definition remote_has_chunks ::
    "hasher \<Rightarrow> u64 \<Rightarrow> NodeId \<Rightarrow> ChunkId list \<Rightarrow> Cluster \<Rightarrow> (bool list result \<times> Cluster) option" where
  "remote_has_chunks H now_ms nid ids c =
     map_rpc (has_chunks_outcome (length ids)) (rpc H now_ms nid (HasChunkMessage ids) c)"

section \<open>Gossip\<close>

definition hear_from :: "NodeId \<Rightarrow> Cluster \<Rightarrow> Cluster" where
  "hear_from nid c =
     c\<lparr>clu_last_heard := AList.update nid (clu_clock c (clu_ticks c)) (clu_last_heard c), clu_ticks := Suc (clu_ticks c)\<rparr>"

definition handle_infos :: "NodeInfo list \<Rightarrow> Cluster \<Rightarrow> Cluster" where
  "handle_infos infos c = fold (\<lambda>info c. hear_from (ni_id info) (handle_node_update info c)) infos c"

definition handle_push :: "NodeInfo list \<Rightarrow> Cluster \<Rightarrow> Cluster" where
  "handle_push nodes c = handle_infos nodes c"

definition handle_pull :: "NodeId list \<Rightarrow> Cluster \<Rightarrow> Cluster" where
  "handle_pull wanted c = c"

definition handle_ack :: "NodeInfo list \<Rightarrow> Cluster \<Rightarrow> Cluster" where
  "handle_ack nodes c = handle_infos nodes c"

text \<open>The targets of a round, in the order the shuffle gives; \<open>shuffle\<close> is \<^verbatim>\<open>std::shuffle\<close> with a random seed.\<close>

fun gossip_send :: "u64 \<Rightarrow> Message \<Rightarrow> NodeId list \<Rightarrow> Cluster \<Rightarrow> Cluster" where
  "gossip_send now_ms push [] c = c"
| "gossip_send now_ms push (nid # targets) c =
     gossip_send now_ms push targets
       (if nid = clu_local c then c
        else case Option.bind (get_node c nid) cn_connection of
            Some i \<Rightarrow> if conn_connected (clu_conns c ! i) then snd (send_on now_ms i push c) else c
          | None \<Rightarrow> c)"

definition gossip_message :: "Cluster \<Rightarrow> Message" where
  "gossip_message c = GossipPushMessage (clu_local c) (map cn_info (all_nodes c))"

definition gossip_round :: "(NodeId list \<Rightarrow> NodeId list) \<Rightarrow> u64 \<Rightarrow> Cluster \<Rightarrow> Cluster" where
  "gossip_round shuffle now_ms c =
     (let nodes = map (ni_id \<circ> cn_info) (active_nodes c)
      in if length nodes \<le> 1 then c
         else
           let nodes = shuffle nodes;
               fanout = min (cl_gossip_fanout (cfg_cluster (clu_config c))) (vec_size nodes)
           in gossip_send now_ms (gossip_message c) (take (unat fanout) nodes) c)"

text \<open>Times are nanoseconds; the configured timeout is in milliseconds.\<close>

definition check_failures :: "int \<Rightarrow> Cluster \<Rightarrow> Cluster" where
  "check_failures now c =
     c\<lparr>clu_last_heard :=
         filter (\<lambda>(_, heard). \<not> cl_failure_detection_timeout (cfg_cluster (clu_config c)) * 1000000 < now - heard)
           (clu_last_heard c)\<rparr>"

section \<open>Incoming connections\<close>

fun dispatch :: "Message \<Rightarrow> Cluster \<Rightarrow> Cluster" where
  "dispatch (GossipPushMessage sender nodes) c = handle_push nodes c"
| "dispatch (GossipPullMessage sender wanted) c = handle_pull wanted c"
| "dispatch (GossipAckMessage sender nodes) c = handle_ack nodes c"
| "dispatch _ c = c"

partial_function (option) connection_loop :: "hasher \<Rightarrow> nat \<Rightarrow> Cluster \<Rightarrow> (unit result \<times> Cluster) option" where
  "connection_loop H i c =
     (if clu_running c \<and> conn_connected (clu_conns c ! i) then
        Option.bind (receive_on H i c) (\<lambda>(r, c1).
          case r of
            Inl ex \<Rightarrow> Some (Inl ex, c1)
          | Inr None \<Rightarrow> Some (Inr (), close_on i c1)
          | Inr (Some msg) \<Rightarrow> connection_loop H i (dispatch msg c1))
      else Some (Inr (), close_on i c))"

definition local_node_info :: "Cluster \<Rightarrow> NodeInfo" where
  "local_node_info c = cn_info (the (map_of (clu_nodes c) (clu_local c)))"

definition greet :: "u64 \<Rightarrow> nat \<Rightarrow> NodeInfo \<Rightarrow> Cluster \<Rightarrow> Cluster" where
  "greet now_ms i sender c =
     (let c1 = set_connection (ni_id sender) i (handle_node_update sender c)
      in snd (send_on now_ms i (HelloAckMessage (local_node_info c1) True []) c1))"

definition handle_connection :: "hasher \<Rightarrow> u64 \<Rightarrow> nat \<Rightarrow> Cluster \<Rightarrow> (unit result \<times> Cluster) option" where
  "handle_connection H now_ms i c =
     Option.bind (receive_on H i c) (\<lambda>(r, c1).
       case r of
         Inl ex \<Rightarrow> Some (Inl ex, c1)
       | Inr None \<Rightarrow> Some (Inr (), close_on i c1)
       | Inr (Some msg) \<Rightarrow>
           connection_loop H i
             (case msg of HelloMessage sender cluster_name capabilities \<Rightarrow> greet now_ms i sender c1 | _ \<Rightarrow> c1))"

text \<open>One turn of the accept loop.\<close>

definition accept_connection :: "Connection \<Rightarrow> Cluster \<Rightarrow> Cluster" where
  "accept_connection conn c =
     (if clu_running c \<and> clu_listening c then
        (case add_connection conn c of (i, c1) \<Rightarrow> spawn_handler i c1)
      else c)"

section \<open>Start and stop\<close>

definition stoi :: "string \<Rightarrow> int result" where
  "stoi s = bind_res (stoll s) (\<lambda>v. if v < - (2 ^ 31) \<or> 2 ^ 31 \<le> v then Inl Out_of_range else Inr v)"

text \<open>\<^verbatim>\<open>rfind(':')\<close>: the text before and after the last colon.\<close>

definition split_seed :: "string \<Rightarrow> (string \<times> string) option" where
  "split_seed seed =
     (let after = takeWhile (\<lambda>c. c \<noteq> CHR '':'') (rev seed)
      in if length after = length seed then None
         else Some (take (length seed - length after - 1) seed, rev after))"

definition join_seed :: "hasher \<Rightarrow> u64 \<Rightarrow> nat \<Rightarrow> Cluster \<Rightarrow> (unit result \<times> Cluster) option" where
  "join_seed H now_ms i c =
     (case send_on now_ms i (HelloMessage (local_node_info c) (cl_cluster_name (cfg_cluster (clu_config c))) []) c of
        (st, c1) \<Rightarrow>
          if \<not> Status_is_ok st then Some (Inr (), close_on i c1)
          else Option.bind (receive_on H i c1) (\<lambda>(r, c2).
            case r of
              Inl ex \<Rightarrow> Some (Inl ex, c2)
            | Inr (Some (HelloAckMessage sender accepted reason)) \<Rightarrow>
                if \<not> accepted then Some (Inr (), close_on i c2)
                else Some (Inr (), spawn_handler i (set_connection (ni_id sender) i (handle_node_update sender c2)))
            | Inr _ \<Rightarrow> Some (Inr (), close_on i c2)))"

fun connect_to_seeds :: "hasher \<Rightarrow> u64 \<Rightarrow> string list \<Rightarrow> Cluster \<Rightarrow> (unit result \<times> Cluster) option" where
  "connect_to_seeds H now_ms [] c = Some (Inr (), c)"
| "connect_to_seeds H now_ms (seed # seeds) c =
     (case split_seed seed of
        None \<Rightarrow> connect_to_seeds H now_ms seeds c
      | Some (host, port) \<Rightarrow>
          (case stoi port of
             Inl ex \<Rightarrow> Some (Inl ex, c)
           | Inr p \<Rightarrow>
               (case connect_to_node host (word_of_int p) c of
                  (None, c1) \<Rightarrow> connect_to_seeds H now_ms seeds c1
                | (Some i, c1) \<Rightarrow>
                    Option.bind (join_seed H now_ms i c1) (\<lambda>(r, c2).
                      case r of Inl ex \<Rightarrow> Some (Inl ex, c2) | Inr _ \<Rightarrow> connect_to_seeds H now_ms seeds c2))))"

definition Cluster_start :: "hasher \<Rightarrow> u64 \<Rightarrow> bool \<Rightarrow> Cluster \<Rightarrow> (Status result \<times> Cluster) option" where
  "Cluster_start H now_ms bound c =
     (let c1 = c\<lparr>clu_running := True, clu_scheduled := True\<rparr>
      in if \<not> bound then
           Some (Inr (Status_error NetworkError
             (''Failed to bind cluster port '' @ to_base 10 (unat (net_cluster_port (cfg_network (clu_config c)))))), c1)
         else
           map_option (\<lambda>(r, c2). case r of
               Inl ex \<Rightarrow> (Inl ex, c2)
             | Inr _ \<Rightarrow> (Inr Status_ok, c2\<lparr>clu_gossip_running := True\<rparr>))
             (connect_to_seeds H now_ms (cl_seed_nodes (cfg_cluster (clu_config c))) (c1\<lparr>clu_listening := True\<rparr>)))"

definition Cluster_stop :: "Cluster \<Rightarrow> Cluster" where
  "Cluster_stop c =
     (let c1 = c\<lparr>clu_running := False, clu_listening := False\<rparr>;
          c2 = fold (\<lambda>(_, node) c. case cn_connection node of None \<Rightarrow> c | Some i \<Rightarrow> close_on i c) (clu_nodes c1) c1
      in c2\<lparr>clu_gossip_running := False\<rparr>)"

end
