(* ===== verification/Cluster_Properties.thy ===== *)
theory Cluster_Properties
  imports Cluster
begin

text \<open>
  Properties of the cluster: membership merges by generation and converges, every operation keeps
  the invariant and never loses a member, keys are routed to known nodes, and which remote
  operations can succeed at all.
\<close>

section \<open>Merging versioned records\<close>

text \<open>
  The contract of the membership map: a record replaces the one with its key exactly when its
  version is newer. \<open>is_newest\<close> says that a map holds the newest record of each key of a set.
\<close>

definition is_newest :: "('r \<Rightarrow> 'k) \<Rightarrow> ('r \<Rightarrow> 'v::linorder) \<Rightarrow> 'r set \<Rightarrow> ('k \<rightharpoonup> 'r) \<Rightarrow> bool" where
  "is_newest key version R V \<longleftrightarrow>
     (\<forall>k r. V k = Some r \<longrightarrow> r \<in> R \<and> key r = k \<and> (\<forall>s\<in>R. key s = k \<longrightarrow> version s \<le> version r))
     \<and> (\<forall>s\<in>R. V (key s) \<noteq> None)"

definition one_per_version :: "('r \<Rightarrow> 'k) \<Rightarrow> ('r \<Rightarrow> 'v) \<Rightarrow> 'r set \<Rightarrow> bool" where
  "one_per_version key version R \<longleftrightarrow> (\<forall>r\<in>R. \<forall>s\<in>R. key r = key s \<longrightarrow> version r = version s \<longrightarrow> r = s)"

lemma is_newestD:
  assumes "is_newest key version R V"
  shows "V k = Some r \<Longrightarrow> r \<in> R" and "V k = Some r \<Longrightarrow> key r = k"
    and "V k = Some r \<Longrightarrow> s \<in> R \<Longrightarrow> key s = k \<Longrightarrow> version s \<le> version r"
    and "s \<in> R \<Longrightarrow> V (key s) \<noteq> None"
  using assms by (simp_all add: is_newest_def)

lemma is_newest_unique:
  assumes "one_per_version key version R" and "is_newest key version R V" and "is_newest key version R W"
  shows "V = W"
proof
  fix k
  note V = is_newestD [OF assms(2)] and W = is_newestD [OF assms(3)]
  show "V k = W k"
  proof (cases "V k"; cases "W k")
    fix r s assume rs: "V k = Some r" "W k = Some s"
    have "version s \<le> version r" using V(3) [OF rs(1)] W(1,2) [OF rs(2)] by simp
    moreover have "version r \<le> version s" using W(3) [OF rs(2)] V(1,2) [OF rs(1)] by simp
    ultimately have "r = s"
      using assms(1) V(1,2) [OF rs(1)] W(1,2) [OF rs(2)] by (simp add: one_per_version_def)
    then show ?thesis using rs by simp
  next
    fix s assume "V k = None" "W k = Some s"
    then show ?thesis using W(1,2) [of k s] V(4) [of s] by simp
  next
    fix r assume "V k = Some r" "W k = None"
    then show ?thesis using V(1,2) [of k r] W(4) [of r] by simp
  qed simp
qed

locale versioned_map =
  fixes key :: "'r \<Rightarrow> 'k" and version :: "'r \<Rightarrow> 'v::linorder" and merge :: "'r \<Rightarrow> ('k \<rightharpoonup> 'r) \<Rightarrow> 'k \<rightharpoonup> 'r"
  assumes merge_new: "V (key r) = None \<Longrightarrow> merge r V = V(key r \<mapsto> r)"
    and merge_newer: "V (key r) = Some s \<Longrightarrow> version s < version r \<Longrightarrow> merge r V = V(key r \<mapsto> r)"
    and merge_older: "V (key r) = Some s \<Longrightarrow> version r \<le> version s \<Longrightarrow> merge r V = V"
begin

lemma merge_newest:
  assumes "is_newest key version R V"
  shows "is_newest key version (insert r R) (merge r V)"
proof (cases "V (key r)")
  case None
  then have "\<forall>s\<in>R. key s \<noteq> key r" using assms by (metis is_newest_def)
  then show ?thesis using assms merge_new [of V r, OF None] by (auto simp: is_newest_def)
next
  case (Some s)
  then have s: "s \<in> R" "key s = key r" "\<forall>t\<in>R. key t = key r \<longrightarrow> version t \<le> version s"
    using assms by (auto simp: is_newest_def)
  show ?thesis
  proof (cases "version s < version r")
    case True
    then show ?thesis using assms s merge_newer [of V r s, OF Some] by (fastforce simp: is_newest_def)
  next
    case False
    then have "merge r V = V" using merge_older [of V r s, OF Some] by simp
    then show ?thesis using assms s Some False by (auto simp: is_newest_def)
  qed
qed

lemma fold_newest:
  "is_newest key version R V \<Longrightarrow> is_newest key version (R \<union> set rs) (fold merge rs V)"
proof (induction rs arbitrary: R V)
  case (Cons r rs)
  from Cons.IH [OF merge_newest [OF Cons.prems, of r]] show ?case by simp
qed simp

lemma merge_order:
  assumes "is_newest key version R V" and "one_per_version key version (R \<union> set rs)" and "set ss = set rs"
  shows "fold merge rs V = fold merge ss V"
  using fold_newest [OF assms(1), of rs] fold_newest [OF assms(1), of ss] assms(2,3) is_newest_unique by metis

lemma merge_exchange:
  assumes "is_newest key version (set rs) V" and "is_newest key version (set ss) W"
    and "one_per_version key version (set rs \<union> set ss)"
  shows "fold merge ss V = fold merge rs W"
  using fold_newest [OF assms(1), of ss] fold_newest [OF assms(2), of rs] assms(3) is_newest_unique
  by (metis Un_commute)

end

section \<open>The view of the members\<close>

definition view :: "Cluster \<Rightarrow> NodeId \<rightharpoonup> NodeInfo" where
  "view c k = map_option cn_info (map_of (clu_nodes c) k)"

definition merge_info :: "NodeInfo \<Rightarrow> (NodeId \<rightharpoonup> NodeInfo) \<Rightarrow> NodeId \<rightharpoonup> NodeInfo" where
  "merge_info info V =
     (case V (ni_id info) of
        Some old \<Rightarrow> if ni_generation old < ni_generation info then V(ni_id info \<mapsto> info) else V
      | None \<Rightarrow> V(ni_id info \<mapsto> info))"

interpretation members: versioned_map ni_id ni_generation merge_info
  by unfold_locales (auto simp: merge_info_def)

lemma view_handle_node_update: "view (handle_node_update info c) = merge_info info (view c)"
  by (auto simp: view_def merge_info_def handle_node_update_def notify_node_change_def ClusterNode_update_def
      ClusterNode_new_def fun_eq_iff split: option.splits)

lemma view_hear_from [simp]: "view (hear_from nid c) = view c"
  by (simp add: view_def hear_from_def fun_eq_iff)

lemma view_handle_infos: "view (handle_infos infos c) = fold merge_info infos (view c)"
  by (induction infos arbitrary: c) (simp_all add: handle_infos_def view_handle_node_update)

text \<open>The infos a node sends in a gossip round are those of its view.\<close>

definition nodes_wf :: "Cluster \<Rightarrow> bool" where
  "nodes_wf c \<longleftrightarrow> distinct (map fst (clu_nodes c)) \<and> (\<forall>(k, node)\<in>set (clu_nodes c). ni_id (cn_info node) = k)"

lemma view_newest:
  assumes "nodes_wf c"
  shows "is_newest ni_id ni_generation (set (map cn_info (all_nodes c))) (view c)"
proof -
  have key: "ni_id (cn_info node) = k" if "(k, node) \<in> set (clu_nodes c)" for k node
    using assms that by (auto simp: nodes_wf_def)
  have look: "map_of (clu_nodes c) k = Some node" if "(k, node) \<in> set (clu_nodes c)" for k node
    using assms that by (simp add: nodes_wf_def)
  have "info \<in> set (map cn_info (all_nodes c)) \<and> ni_id info = k" if v: "view c k = Some info" for k info
  proof -
    obtain node where n: "map_of (clu_nodes c) k = Some node" "info = cn_info node" using v by (auto simp: view_def)
    then have "(k, node) \<in> set (clu_nodes c)" by (simp add: map_of_SomeD)
    then show ?thesis using key n(2) by (force simp: all_nodes_def)
  qed
  moreover have "view c (ni_id info) = Some info" if i: "info \<in> set (map cn_info (all_nodes c))" for info
  proof -
    obtain k node where n: "(k, node) \<in> set (clu_nodes c)" "info = cn_info node" using i by (auto simp: all_nodes_def)
    then show ?thesis using look [OF n(1)] key [OF n(1)] by (simp add: view_def)
  qed
  ultimately show ?thesis unfolding is_newest_def by (metis option.inject order_refl option.distinct(1))
qed

section \<open>What every operation keeps\<close>

definition virtual_nodes :: "Cluster \<Rightarrow> u64" where
  "virtual_nodes c = cl_virtual_nodes (cfg_cluster (clu_config c))"

definition cluster_inv :: "Cluster \<Rightarrow> bool" where
  "cluster_inv c \<longleftrightarrow>
     nodes_wf c \<and> clu_local c \<in> dom (view c)
     \<and> (\<exists>ids. clu_ring c = ring_run (virtual_nodes c) (map AddNode ids) \<and> distinct ids \<and> set ids = dom (view c))
     \<and> (\<forall>k node i. map_of (clu_nodes c) k = Some node \<longrightarrow> cn_connection node = Some i \<longrightarrow> i < length (clu_conns c))"

text \<open>
  \<open>grows c c'\<close>: members are only added or brought up to date, connections only added, the invariant
  is kept.
\<close>

definition grows :: "Cluster \<Rightarrow> Cluster \<Rightarrow> bool" where
  "grows c c' \<longleftrightarrow>
     clu_config c' = clu_config c \<and> clu_local c' = clu_local c \<and> length (clu_conns c) \<le> length (clu_conns c')
     \<and> (\<forall>k info. view c k = Some info \<longrightarrow>
           (\<exists>info'. view c' k = Some info' \<and> (info' = info \<or> ni_generation info < ni_generation info')))
     \<and> (cluster_inv c \<longrightarrow> cluster_inv c')"

lemma grows_refl [simp]: "grows c c"
  by (simp add: grows_def)

lemma grows_trans:
  assumes "grows a b" and "grows b c"
  shows "grows a c"
proof -
  have "\<exists>info'. view c k = Some info' \<and> (info' = info \<or> ni_generation info < ni_generation info')"
    if v: "view a k = Some info" for k info
  proof -
    obtain i1 where "view b k = Some i1" "i1 = info \<or> ni_generation info < ni_generation i1"
      using assms(1) v unfolding grows_def by blast
    moreover from this obtain i2 where "view c k = Some i2" "i2 = i1 \<or> ni_generation i1 < ni_generation i2"
      using assms(2) unfolding grows_def by blast
    ultimately show ?thesis by auto
  qed
  then show ?thesis using assms unfolding grows_def by simp
qed

text \<open>An operation that touches neither the members nor the ring grows the state trivially.\<close>

lemma grows_frame:
  assumes "clu_config c' = clu_config c" and "clu_local c' = clu_local c" and "clu_nodes c' = clu_nodes c"
    and "clu_ring c' = clu_ring c" and "length (clu_conns c) \<le> length (clu_conns c')"
  shows "grows c c'"
proof -
  have "view c' = view c" using assms(3) by (simp add: view_def fun_eq_iff)
  moreover have "nodes_wf c' = nodes_wf c" "virtual_nodes c' = virtual_nodes c"
    using assms by (simp_all add: nodes_wf_def virtual_nodes_def)
  ultimately show ?thesis using assms unfolding grows_def cluster_inv_def by (auto dest!: less_le_trans [OF _ assms(5)])
qed

lemma nodes_wf_update:
  assumes "nodes_wf c" and "ni_id (cn_info node) = k" and "clu_nodes c' = AList.update k node (clu_nodes c)"
  shows "nodes_wf c'"
proof -
  have d: "distinct (map fst (clu_nodes c'))" using assms(1,3) by (simp add: nodes_wf_def)
  moreover have "ni_id (cn_info n) = j" if m: "(j, n) \<in> set (clu_nodes c')" for j n
  proof -
    have "map_of (clu_nodes c') j = Some n" using d m by simp
    then have "(j = k \<and> n = node) \<or> map_of (clu_nodes c) j = Some n"
      using assms(3) by (auto split: if_splits)
    then show ?thesis using assms(1,2) by (auto simp: nodes_wf_def dest: map_of_SomeD)
  qed
  ultimately show ?thesis by (auto simp: nodes_wf_def)
qed

lemma ring_run_snoc: "ring_run v (ops @ [op]) = ring_step op (ring_run v ops)"
  by (simp add: ring_run_def)

lemma node_update_known:
  assumes "map_of (clu_nodes c) (ni_id info) = Some node"
  shows "handle_node_update info c = c\<lparr>clu_nodes := AList.update (ni_id info) (ClusterNode_update info node) (clu_nodes c)\<rparr>"
  using assms by (simp add: handle_node_update_def)

lemma nodes_wf_lookup: "nodes_wf c \<Longrightarrow> map_of (clu_nodes c) k = Some node \<Longrightarrow> ni_id (cn_info node) = k"
  by (auto simp: nodes_wf_def dest!: map_of_SomeD)

lemma view_mono_update:
  assumes "view c k = Some old"
  shows "\<exists>info'. view (handle_node_update info c) k = Some info' \<and> (info' = old \<or> ni_generation old < ni_generation info')"
  using assms by (auto simp: view_handle_node_update merge_info_def split: option.splits)

lemma dom_view_update: "dom (view (handle_node_update info c)) = insert (ni_id info) (dom (view c))"
  by (auto simp: view_handle_node_update merge_info_def split: option.splits if_splits)

lemma cluster_inv_update:
  assumes "cluster_inv c"
  shows "cluster_inv (handle_node_update info c)"
proof (cases "map_of (clu_nodes c) (ni_id info)")
  case None
  let ?c = "handle_node_update info c"
  have c: "clu_nodes ?c = AList.update (ni_id info) (ClusterNode_new info) (clu_nodes c)"
    "clu_ring ?c = HashRing_add_node (ni_id info) (clu_ring c)" "clu_conns ?c = clu_conns c" "clu_local ?c = clu_local c"
    "virtual_nodes ?c = virtual_nodes c"
    using None by (simp_all add: handle_node_update_def notify_node_change_def virtual_nodes_def)
  obtain ids where ids: "clu_ring c = ring_run (virtual_nodes c) (map AddNode ids)" "distinct ids" "set ids = dom (view c)"
    using assms by (auto simp: cluster_inv_def)
  have new: "ni_id info \<notin> set ids" using None ids(3) by (simp add: view_def dom_def)
  have "clu_ring ?c = ring_run (virtual_nodes ?c) (map AddNode (ids @ [ni_id info]))"
    by (simp add: c ids(1) ring_run_snoc)
  moreover have "distinct (ids @ [ni_id info])" "set (ids @ [ni_id info]) = dom (view ?c)"
    using ids new by (simp_all add: dom_view_update)
  moreover have "nodes_wf ?c"
    using assms nodes_wf_update [OF _ _ c(1)] by (simp add: cluster_inv_def ClusterNode_new_def)
  moreover have "i < length (clu_conns ?c)" if "map_of (clu_nodes ?c) k = Some node" "cn_connection node = Some i" for k node i
    using that assms unfolding c by (auto simp: cluster_inv_def ClusterNode_new_def split: if_splits)
  moreover have "clu_local ?c \<in> dom (view ?c)" using assms by (simp add: dom_view_update c cluster_inv_def)
  ultimately show ?thesis unfolding cluster_inv_def by blast
next
  case (Some node)
  let ?c = "handle_node_update info c"
  note c = node_update_known [OF Some]
  have id: "ni_id (cn_info node) = ni_id info" using Some assms nodes_wf_lookup by (auto simp: cluster_inv_def)
  have dom: "dom (view ?c) = dom (view c)" using Some by (auto simp: dom_view_update view_def)
  have "nodes_wf ?c"
    using assms id nodes_wf_update [of c "ClusterNode_update info node" "ni_id info" ?c]
    by (simp add: cluster_inv_def c ClusterNode_update_def)
  moreover have "i < length (clu_conns ?c)" if "map_of (clu_nodes ?c) k = Some n" "cn_connection n = Some i" for k n i
    using that assms Some by (auto simp: cluster_inv_def c ClusterNode_update_def split: if_splits)
  moreover have "clu_local ?c = clu_local c" "clu_ring ?c = clu_ring c" "virtual_nodes ?c = virtual_nodes c"
    by (simp_all add: c virtual_nodes_def)
  ultimately show ?thesis using assms dom unfolding cluster_inv_def by auto
qed

lemma grows_node_update: "grows c (handle_node_update info c)"
proof -
  have "clu_config (handle_node_update info c) = clu_config c \<and> clu_local (handle_node_update info c) = clu_local c
      \<and> clu_conns (handle_node_update info c) = clu_conns c"
    by (simp add: handle_node_update_def notify_node_change_def split: option.splits)
  then show ?thesis using cluster_inv_update [of c info] view_mono_update [of c _ _ info] by (simp add: grows_def)
qed

lemma grows_set_connection:
  assumes "i < length (clu_conns c)"
  shows "grows c (set_connection nid i c)"
proof (cases "map_of (clu_nodes c) nid")
  case (Some node)
  let ?c = "set_connection nid i c"
  have c: "?c = c\<lparr>clu_nodes := AList.update nid (node\<lparr>cn_connection := Some i\<rparr>) (clu_nodes c)\<rparr>"
    using Some by (simp add: set_connection_def)
  have v: "view ?c = view c" using Some by (auto simp: c view_def fun_eq_iff)
  have "cluster_inv ?c" if inv: "cluster_inv c"
  proof -
    have "nodes_wf ?c"
      using inv Some nodes_wf_lookup [of c nid node] nodes_wf_update [of c "node\<lparr>cn_connection := Some i\<rparr>" nid ?c]
      by (simp add: cluster_inv_def c)
    moreover have "j < length (clu_conns ?c)" if "map_of (clu_nodes ?c) k = Some n" "cn_connection n = Some j" for k n j
      using that inv assms by (auto simp: cluster_inv_def c split: if_splits)
    moreover have "clu_local ?c = clu_local c" "clu_ring ?c = clu_ring c" "virtual_nodes ?c = virtual_nodes c"
      by (simp_all add: c virtual_nodes_def)
    ultimately show ?thesis using inv v unfolding cluster_inv_def by auto
  qed
  then show ?thesis using v by (simp add: grows_def c)
qed (simp add: set_connection_def)

lemma grows_basic:
  "grows c (hear_from nid c)" "grows c (snd (send_on now i m c))" "grows c (close_on i c)" "grows c (spawn_handler i c)"
  "grows c (snd (add_connection conn c))" "grows c (check_failures t c)" "grows c (snd (connect_to_node a p c))"
  by (rule grows_frame; simp add: hear_from_def send_on_def close_on_def spawn_handler_def add_connection_def
      check_failures_def connect_to_node_def split: prod.splits list.splits option.splits)+

lemma receive_on_Some:
  assumes "receive_on H i c = Some (r, c')"
  obtains conn where "Connection_receive H (clu_conns c ! i) = Some (r, conn)" "c' = c\<lparr>clu_conns := (clu_conns c)[i := conn]\<rparr>"
  using assms by (auto simp: receive_on_def)

lemma grows_receive: "receive_on H i c = Some (r, c') \<Longrightarrow> grows c c'"
  by (erule receive_on_Some) (auto intro: grows_frame)

lemma grows_infos: "grows c (handle_infos infos c)"
proof (induction infos arbitrary: c)
  case (Cons info infos)
  have "grows c (hear_from (ni_id info) (handle_node_update info c))"
    using grows_trans [OF grows_node_update grows_basic(1)] .
  from grows_trans [OF this Cons] show ?case by (simp add: handle_infos_def)
qed (simp add: handle_infos_def)

lemma grows_dispatch: "grows c (dispatch m c)"
  by (cases m) (simp_all add: handle_push_def handle_pull_def handle_ack_def grows_infos)

lemma grows_length: "grows c c' \<Longrightarrow> i < length (clu_conns c) \<Longrightarrow> i < length (clu_conns c')"
  by (simp add: grows_def)

lemma connection_loop_induct:
  assumes "connection_loop H i c = Some (r, c')"
    and "\<And>c. \<not> (clu_running c \<and> conn_connected (clu_conns c ! i)) \<Longrightarrow> P c (Inr ()) (close_on i c)"
    and "\<And>c ex c1. receive_on H i c = Some (Inl ex, c1) \<Longrightarrow> P c (Inl ex) c1"
    and "\<And>c c1. receive_on H i c = Some (Inr None, c1) \<Longrightarrow> P c (Inr ()) (close_on i c1)"
    and "\<And>c m c1 r c'. receive_on H i c = Some (Inr (Some m), c1) \<Longrightarrow> P (dispatch m c1) r c' \<Longrightarrow> P c r c'"
  shows "P c r c'"
proof -
  have "(\<lambda>H' i' c p. H' = H \<longrightarrow> i' = i \<longrightarrow> P c (fst p) (snd p)) H i c (r, c')"
  proof (rule connection_loop.raw_induct [OF _ assms(1), where P = "\<lambda>H' i' c p. H' = H \<longrightarrow> i' = i \<longrightarrow> P c (fst p) (snd p)"])
    fix loop H' i' c y
    assume IH: "\<And>H' i' c y. loop H' i' c = Some y \<Longrightarrow> H' = H \<longrightarrow> i' = i \<longrightarrow> P c (fst y) (snd y)"
      and y: "(if clu_running c \<and> conn_connected (clu_conns c ! i')
         then Option.bind (receive_on H' i' c) (\<lambda>(r, c1). case r of Inl ex \<Rightarrow> Some (Inl ex, c1)
           | Inr None \<Rightarrow> Some (Inr (), close_on i' c1) | Inr (Some msg) \<Rightarrow> loop H' i' (dispatch msg c1))
         else Some (Inr (), close_on i' c)) = Some y"
    show "H' = H \<longrightarrow> i' = i \<longrightarrow> P c (fst y) (snd y)"
    proof (intro impI)
      assume e: "H' = H" "i' = i"
      show "P c (fst y) (snd y)"
      proof (cases "clu_running c \<and> conn_connected (clu_conns c ! i)")
        case False
        then have "y = (Inr (), close_on i c)" using y e by auto
        then show ?thesis using assms(2) [OF False] by simp
      next
        case True
        then obtain r c1 where rc: "receive_on H i c = Some (r, c1)" using y e by (cases "receive_on H i c") auto
        show ?thesis
        proof (cases r)
          case (Inl ex)
          then show ?thesis using y e True rc assms(3) by auto
        next
          case (Inr mo)
          show ?thesis
          proof (cases mo)
            case None
            then show ?thesis using y e True rc Inr assms(4) by auto
          next
            case (Some m)
            then have "loop H i (dispatch m c1) = Some y" using y e True rc Inr by auto
            from IH [OF this] show ?thesis using assms(5) rc Inr Some by auto
          qed
        qed
      qed
    qed
  qed
  then show ?thesis by simp
qed

lemma grows_connection_loop:
  assumes "connection_loop H i c = Some (r, c')"
  shows "grows c c'"
proof (rule connection_loop_induct [OF assms, where P = "\<lambda>c r c'. grows c c'"])
  fix c c1 m and r :: "unit result" and c'
  show "receive_on H i c = Some (Inr None, c1) \<Longrightarrow> grows c (close_on i c1)"
    using grows_trans [OF grows_receive grows_basic(3)] by blast
  show "receive_on H i c = Some (Inr (Some m), c1) \<Longrightarrow> grows (dispatch m c1) c' \<Longrightarrow> grows c c'"
    using grows_trans [OF grows_trans [OF grows_receive grows_dispatch]] by blast
qed (auto intro: grows_basic grows_receive)

lemma grows_greet:
  assumes "i < length (clu_conns c)"
  shows "grows c (greet now i sender c)"
proof -
  have "i < length (clu_conns (handle_node_update sender c))" using grows_length [OF grows_node_update assms] .
  from grows_trans [OF grows_node_update grows_set_connection [OF this]] show ?thesis
    unfolding greet_def Let_def by (rule grows_trans) (rule grows_basic)
qed

lemma grows_handle_connection:
  assumes "i < length (clu_conns c)" and "handle_connection H now i c = Some (r, c')"
  shows "grows c c'"
proof -
  obtain q c1 where rc: "receive_on H i c = Some (q, c1)"
    using assms(2) by (cases "receive_on H i c") (auto simp: handle_connection_def)
  note g1 = grows_receive [OF rc]
  show ?thesis
  proof (cases q)
    case (Inl ex)
    then show ?thesis using assms(2) rc g1 by (auto simp: handle_connection_def)
  next
    case (Inr mo)
    show ?thesis
    proof (cases mo)
      case None
      then show ?thesis using assms(2) rc Inr grows_trans [OF g1 grows_basic(3)] by (auto simp: handle_connection_def)
    next
      case (Some m)
      let ?c = "case m of HelloMessage sender n cs \<Rightarrow> greet now i sender c1 | _ \<Rightarrow> c1"
      have "grows c1 ?c" using grows_greet [OF grows_length [OF g1 assms(1)]] by (cases m) simp_all
      moreover have "connection_loop H i ?c = Some (r, c')"
        using assms(2) rc Inr Some by (simp add: handle_connection_def)
      ultimately show ?thesis using grows_trans [OF g1] grows_trans grows_connection_loop by blast
    qed
  qed
qed

lemma add_connection_index: "add_connection conn c = (i, c1) \<Longrightarrow> i < length (clu_conns c1)"
  by (auto simp: add_connection_def)

lemma connect_to_node_index: "connect_to_node a p c = (Some i, c1) \<Longrightarrow> i < length (clu_conns c1)"
  by (auto simp: connect_to_node_def split: list.splits option.splits prod.splits dest: add_connection_index)

lemma grows_ensure_connection: "grows c (snd (ensure_connection nid c))"
proof (cases "map_of (clu_nodes c) nid")
  case (Some node)
  let ?a = "ni_address (cn_info node)" and ?p = "ni_port (cn_info node)"
  obtain mi c1 where d: "connect_to_node ?a ?p c = (mi, c1)" by fastforce
  have g: "grows c c1" using grows_basic(7) [of c ?a ?p] d by simp
  have "grows c (set_connection nid i c1)" if "mi = Some i" for i
    using grows_trans [OF g grows_set_connection [of i c1]] connect_to_node_index [of ?a ?p c i c1] d that by simp
  then show ?thesis using Some d g by (auto simp: ensure_connection_def split: option.splits)
qed (simp add: ensure_connection_def)

lemma grows_rpc:
  assumes "rpc H now nid m c = Some (r, c')"
  shows "grows c c'"
proof -
  obtain mi c1 where e: "ensure_connection nid c = (mi, c1)" by fastforce
  have g1: "grows c c1" using grows_ensure_connection [of c nid] e by simp
  show ?thesis
  proof (cases mi)
    case None
    then show ?thesis using assms e g1 by (simp add: rpc_def)
  next
    case (Some i)
    obtain st c2 where s: "send_on now i m c1 = (st, c2)" by fastforce
    have g2: "grows c c2" using grows_trans [OF g1] grows_basic(2) [of c1 now i m] s by simp
    show ?thesis
      using assms e Some s g2 grows_trans [OF g2 grows_receive]
      by (auto simp: rpc_def split: if_splits)
  qed
qed

lemma grows_gossip_send: "grows c (gossip_send now push targets c)"
proof (induction targets arbitrary: c)
  case (Cons nid targets)
  have send: "grows c (gossip_send now push targets (snd (send_on now i push c)))" for i
    by (rule grows_trans [OF grows_basic(2) Cons])
  show ?case using Cons [of c] send by (simp split: option.splits)
qed simp

lemma grows_join_seed:
  assumes "i < length (clu_conns c)" and "join_seed H now i c = Some (r, c')"
  shows "grows c c'"
proof -
  let ?m = "HelloMessage (local_node_info c) (cl_cluster_name (cfg_cluster (clu_config c))) []"
  obtain st c1 where s: "send_on now i ?m c = (st, c1)" by fastforce
  have g1: "grows c c1" using grows_basic(2) [of c now i ?m] s by simp
  show ?thesis
  proof (cases "Status_is_ok st")
    case False
    then show ?thesis using assms(2) s grows_trans [OF g1 grows_basic(3)] by (auto simp: join_seed_def)
  next
    case True
    obtain q c2 where rc: "receive_on H i c1 = Some (q, c2)"
      using assms(2) s True by (cases "receive_on H i c1") (auto simp: join_seed_def)
    have g2: "grows c c2" using grows_trans [OF g1 grows_receive [OF rc]] .
    have close: "grows c (close_on i c2)" using grows_trans [OF g2 grows_basic(3)] .
    have join: "grows c (spawn_handler i (set_connection (ni_id sender) i (handle_node_update sender c2)))" for sender
      using grows_trans [OF grows_trans [OF grows_trans [OF g2 grows_node_update] grows_set_connection] grows_basic(4)]
        grows_length [OF grows_trans [OF g2 grows_node_update] assms(1)] by blast
    show ?thesis
      using assms(2) s True rc g2 close join
      by (auto simp: join_seed_def split: sum.splits option.splits Message.splits if_splits)
  qed
qed

lemma grows_connect_to_seeds: "connect_to_seeds H now seeds c = Some (r, c') \<Longrightarrow> grows c c'"
proof (induction seeds arbitrary: c)
  case (Cons seed seeds)
  show ?case
  proof (cases "split_seed seed")
    case None
    then show ?thesis using Cons by simp
  next
    case (Some hp)
    obtain host port where hp: "hp = (host, port)" by fastforce
    show ?thesis
    proof (cases "stoi port")
      case (Inl ex)
      then show ?thesis using Cons.prems Some hp by simp
    next
      case (Inr p)
      obtain mi c1 where d: "connect_to_node host (word_of_int p) c = (mi, c1)" by fastforce
      have g: "grows c c1" using grows_basic(7) [of c host "word_of_int p"] d by simp
      show ?thesis
      proof (cases mi)
        case None
        then show ?thesis using Cons Some hp Inr d grows_trans [OF g] by auto
      next
        case (Some i)
        then obtain q c2 where j: "join_seed H now i c1 = Some (q, c2)"
          using Cons.prems \<open>split_seed seed = Some hp\<close> hp Inr d by (cases "join_seed H now i c1") auto
        have i: "i < length (clu_conns c1)" using connect_to_node_index d Some by blast
        have "grows c c2" using grows_trans [OF g grows_join_seed [OF i j]] .
        then show ?thesis
          using Cons \<open>split_seed seed = Some hp\<close> hp Inr d Some j grows_trans [of c c2] by (auto split: sum.splits)
      qed
    qed
  qed
qed simp

lemma grows_start:
  assumes "Cluster_start H now bound c = Some (r, c')"
  shows "grows c c'"
proof -
  let ?c1 = "c\<lparr>clu_running := True, clu_scheduled := True\<rparr>"
  let ?c2 = "?c1\<lparr>clu_listening := True\<rparr>"
  have g: "grows c ?c1" "grows c ?c2" by (rule grows_frame; simp)+
  show ?thesis
  proof (cases bound)
    case False
    then show ?thesis using assms g(1) by (auto simp: Cluster_start_def Let_def)
  next
    case True
    then obtain q c3 where s: "connect_to_seeds H now (cl_seed_nodes (cfg_cluster (clu_config c))) ?c2 = Some (q, c3)"
      and c': "(case q of Inl ex \<Rightarrow> (Inl ex, c3) | Inr _ \<Rightarrow> (Inr Status_ok, c3\<lparr>clu_gossip_running := True\<rparr>)) = (r, c')"
      using assms unfolding Cluster_start_def Let_def by auto
    have "grows c c3" using grows_trans [OF g(2) grows_connect_to_seeds [OF s]] .
    moreover have "grows c3 (c3\<lparr>clu_gossip_running := True\<rparr>)" by (rule grows_frame) simp_all
    ultimately show ?thesis using c' grows_trans by (cases q) auto
  qed
qed

lemma grows_stop: "grows c (Cluster_stop c)"
proof -
  have "grows c (fold (\<lambda>(_, node) c. case cn_connection node of None \<Rightarrow> c | Some i \<Rightarrow> close_on i c) ns c)"
    for ns :: "(NodeId \<times> ClusterNode) list" and c
  proof (induction ns arbitrary: c)
    case (Cons n ns)
    have "grows c (fold (\<lambda>(_, node) c. case cn_connection node of None \<Rightarrow> c | Some i \<Rightarrow> close_on i c) ns (close_on i c))" for i
      by (rule grows_trans [OF grows_basic(3) Cons])
    then show ?case using Cons [of c] by (auto split: option.splits prod.splits)
  qed simp
  moreover have "grows c (c\<lparr>clu_running := False, clu_listening := False\<rparr>)" by (rule grows_frame) simp_all
  ultimately have "grows c (fold (\<lambda>(_, node) c. case cn_connection node of None \<Rightarrow> c | Some i \<Rightarrow> close_on i c) (clu_nodes c)
      (c\<lparr>clu_running := False, clu_listening := False\<rparr>))" (is "grows c ?c2") using grows_trans by blast
  moreover have "grows ?c2 (?c2\<lparr>clu_gossip_running := False\<rparr>)" by (rule grows_frame) simp_all
  ultimately show ?thesis using grows_trans by (simp add: Cluster_stop_def Let_def)
qed

section \<open>Steps of a cluster node\<close>

text \<open>
  The steps of one node: the operations of its own, the remote calls it makes, connections it
  accepts and their handlers.
\<close>

inductive cluster_step :: "hasher \<Rightarrow> Cluster \<Rightarrow> Cluster \<Rightarrow> bool" for H where
  step_start: "Cluster_start H now bound c = Some (r, c') \<Longrightarrow> cluster_step H c c'"
| step_stop: "cluster_step H c (Cluster_stop c)"
| step_accept: "cluster_step H c (accept_connection conn c)"
| step_handler: "i \<in> set (clu_spawned c) \<Longrightarrow> i < length (clu_conns c) \<Longrightarrow> handle_connection H now i c = Some (r, c') \<Longrightarrow> cluster_step H c c'"
| step_gossip: "cluster_step H c (gossip_round shuffle now c)"
| step_failures: "cluster_step H c (check_failures t c)"
| step_get: "remote_get H now nid key opts c = Some (res, c') \<Longrightarrow> cluster_step H c c'"
| step_put: "remote_put H now nid key v wopts c = Some (st, c') \<Longrightarrow> cluster_step H c c'"
| step_delete: "remote_delete H now nid key c = Some (st, c') \<Longrightarrow> cluster_step H c c'"
| step_check: "remote_check H now nid key rng c = Some (av, c') \<Longrightarrow> cluster_step H c c'"
| step_get_chunk: "remote_get_chunk H now nid i c = Some (ch, c') \<Longrightarrow> cluster_step H c c'"
| step_put_chunk: "remote_put_chunk H now nid chunk c = Some (st, c') \<Longrightarrow> cluster_step H c c'"
| step_has_chunks: "remote_has_chunks H now nid ids c = Some (bs, c') \<Longrightarrow> cluster_step H c c'"

inductive_cases cluster_step_cases: "cluster_step H c c'"

lemma map_rpc_state: "map_rpc f x = Some (r, c') \<Longrightarrow> \<exists>q. x = Some (q, c')"
  by (auto simp: map_rpc_def)

lemma step_grows: "cluster_step H c c' \<Longrightarrow> grows c c'"
proof (induction rule: cluster_step.induct)
  case (step_accept c conn)
  obtain i c1 where a: "add_connection conn c = (i, c1)" by fastforce
  then have "grows c c1" using grows_basic(5) [of c conn] by simp
  then show ?case using a grows_trans [OF _ grows_basic(4)] by (simp add: accept_connection_def)
next
  case (step_gossip c shuffle now)
  then show ?case by (simp add: gossip_round_def Let_def grows_gossip_send)
next
  case (step_put_chunk now nid chunk c st c')
  then show ?case by (cases chunk) (auto simp: remote_put_chunk_def dest!: map_rpc_state grows_rpc)
qed (auto simp: remote_get_def remote_put_def remote_delete_def remote_check_def remote_get_chunk_def remote_has_chunks_def
    grows_stop grows_basic(6) dest!: map_rpc_state grows_rpc intro: grows_start grows_handle_connection)

lemma cluster_inv_new: "cluster_inv (Cluster_new config nid mu du dials clock)"
proof -
  let ?c = "Cluster_new config nid mu du dials clock"
  have v: "dom (view ?c) = {nid}" by (auto simp: view_def Cluster_new_def split: if_splits)
  have "clu_ring ?c = ring_run (virtual_nodes ?c) (map AddNode [nid])"
    by (simp add: Cluster_new_def virtual_nodes_def ring_run_def)
  moreover have "distinct [nid]" "set [nid] = dom (view ?c)" using v by simp_all
  moreover have "nodes_wf ?c" by (simp add: nodes_wf_def Cluster_new_def ClusterNode_new_def local_info_def)
  moreover have "clu_local ?c \<in> dom (view ?c)" using v by (simp add: Cluster_new_def)
  moreover have "cn_connection node \<noteq> Some i" if "map_of (clu_nodes ?c) k = Some node" for k node i
    using that by (auto simp: Cluster_new_def ClusterNode_new_def split: if_splits)
  ultimately show ?thesis unfolding cluster_inv_def by blast
qed

lemma steps_grow: "(cluster_step H)\<^sup>*\<^sup>* c c' \<Longrightarrow> grows c c'"
  by (induction rule: rtranclp_induct) (auto intro: grows_trans step_grows)

section \<open>Answers that never come\<close>

lemma decode_payload_decodable:
  "decode_payload H type data = Inr (m, rest) \<Longrightarrow> decodable m"
  by (auto simp: decode_payload_def dec_bind_def dec_return_def dec_throw_def split: if_splits sum.splits prod.splits)

lemma receive_decodable:
  assumes "receive_on H i c = Some (Inr (Some m), c')"
  shows "decodable m"
proof -
  have "\<exists>data hdr. decode H data = Inr (m, hdr)"
    using assms by (auto simp: receive_on_def Connection_receive_def Let_def
        split: if_splits prod.splits option.splits sum.splits cxx_exn.splits)
  then show ?thesis
    by (auto simp: decode_def bind_res_eq_Inr dest: decode_payload_decodable)
qed

lemma rpc_outcome_cases:
  assumes "rpc H now nid m c = Some (Inr out, c')"
  shows "(\<exists>m'. out = Rpc_response m' \<and> decodable m') \<or> out \<in> {Rpc_no_connection, Rpc_no_response}
       \<or> (\<exists>st. out = Rpc_send_failed st \<and> \<not> Status_is_ok st)"
proof -
  obtain mi c1 where e: "ensure_connection nid c = (mi, c1)" by fastforce
  show ?thesis
  proof (cases mi)
    case None
    then show ?thesis using assms e by (simp add: rpc_def)
  next
    case (Some i)
    obtain st c2 where s: "send_on now i m c1 = (st, c2)" by fastforce
    show ?thesis
    proof (cases "Status_is_ok st")
      case False
      then show ?thesis using assms e Some s by (auto simp: rpc_def)
    next
      case True
      then obtain q where rc: "receive_on H i c2 = Some (q, c')" "map_sum id (case_option Rpc_no_response Rpc_response) q = Inr out"
        using assms e Some s by (auto simp: rpc_def)
      then obtain mo where q: "q = Inr mo" "out = case_option Rpc_no_response Rpc_response mo" by (cases q) auto
      then show ?thesis using rc(1) receive_decodable by (cases mo) auto
    qed
  qed
qed

text \<open>The bytes a node has written on a connection.\<close>

abbreviation written_on :: "Cluster \<Rightarrow> nat \<Rightarrow> byte list" where
  "written_on c i \<equiv> conn_out (clu_conns c ! i)"

lemma receive_keeps_output: "Connection_receive H conn = Some (r, conn') \<Longrightarrow> conn_out conn' = conn_out conn"
  by (auto simp: Connection_receive_def Let_def split: if_splits prod.splits option.splits sum.splits cxx_exn.splits)

lemma written_on_receive: "receive_on H i c = Some (r, c') \<Longrightarrow> written_on c' j = written_on c j"
  by (erule receive_on_Some) (cases "i < length (clu_conns c)"; cases "j = i"; simp add: receive_keeps_output not_less list_update_beyond)

lemma written_on_close: "written_on (close_on i c) j = written_on c j"
  by (cases "i < length (clu_conns c)"; cases "j = i") (simp_all add: close_on_def Connection_close_def not_less list_update_beyond)

lemma conns_update [simp]: "clu_conns (handle_node_update info c) = clu_conns c" "clu_conns (set_connection nid i c) = clu_conns c"
  by (simp_all add: handle_node_update_def notify_node_change_def set_connection_def split: option.splits)

lemma conns_dispatch [simp]: "clu_conns (dispatch m c) = clu_conns c"
proof -
  have "clu_conns (handle_infos infos c) = clu_conns c" for infos c
    by (induction infos arbitrary: c) (simp_all add: handle_infos_def hear_from_def)
  then show ?thesis by (cases m) (simp_all add: handle_push_def handle_pull_def handle_ack_def)
qed

lemma loop_writes_nothing:
  assumes "connection_loop H i c = Some (r, c')"
  shows "written_on c' j = written_on c j"
proof (rule connection_loop_induct [OF assms, where P = "\<lambda>c r c'. written_on c' j = written_on c j"])
  fix c c1 m and r :: "unit result" and c'
  show "receive_on H i c = Some (Inr None, c1) \<Longrightarrow> written_on (close_on i c1) j = written_on c j"
    by (simp add: written_on_close written_on_receive)
  show "receive_on H i c = Some (Inr (Some m), c1) \<Longrightarrow> written_on c' j = written_on (dispatch m c1) j \<Longrightarrow> written_on c' j = written_on c j"
    by (simp add: written_on_receive)
qed (simp_all add: written_on_close written_on_receive)

lemma greet_writes:
  assumes "i < length (clu_conns c)"
  shows "\<exists>info p q. written_on (greet now i sender c) i = written_on c i @ p \<and> p @ q = encode now (HelloAckMessage info True []) 0"
    and "j \<noteq> i \<Longrightarrow> written_on (greet now i sender c) j = written_on c j"
proof -
  let ?c1 = "set_connection (ni_id sender) i (handle_node_update sender c)"
  let ?m = "HelloAckMessage (local_node_info ?c1) True []"
  obtain st conn where s: "Connection_send now ?m (clu_conns c ! i) = (st, conn)" by fastforce
  have g: "clu_conns (greet now i sender c) = (clu_conns c)[i := conn]"
    using s by (simp add: greet_def Let_def send_on_def)
  from s have "\<exists>p q. conn_out conn = written_on c i @ p \<and> p @ q = encode now ?m 0"
    by (cases rule: Connection_send_cases) (metis append.right_neutral)+
  then show "\<exists>info p q. written_on (greet now i sender c) i = written_on c i @ p \<and> p @ q = encode now (HelloAckMessage info True []) 0"
    using g assms by auto
  show "j \<noteq> i \<Longrightarrow> written_on (greet now i sender c) j = written_on c j" using g by simp
qed

lemma set_hr_nodes_run: "set (hr_nodes (ring_run v (map AddNode ids))) = set ids"
proof (induction ids rule: rev_induct)
  case Nil
  then show ?case by (simp add: ring_run_def HashRing_new_def)
next
  case (snoc nid ids)
  have "set (hr_nodes (HashRing_add_node nid r)) = insert nid (set (hr_nodes r))" for r
    by (auto simp: HashRing_add_node_def set_insort_key)
  then show ?case using snoc by (simp add: ring_run_snoc)
qed

lemma map_filter_known:
  assumes "set ids \<subseteq> dom f"
  shows "List.map_filter f ids = map (the \<circ> f) ids"
proof -
  have "filter (\<lambda>x. f x \<noteq> None) ids = ids" using assms by (auto intro: filter_True)
  then show ?thesis by (simp add: List.map_filter_def)
qed

lemma map_rpc_Inr: "map_rpc f y = Some (Inr x, c') \<Longrightarrow> \<exists>out. y = Some (Inr out, c') \<and> x = f out"
proof -
  assume *: "map_rpc f y = Some (Inr x, c')"
  then obtain q where q: "y = Some (q, c')" using map_rpc_state by blast
  then show ?thesis using * by (cases q) (auto simp: map_rpc_def)
qed

lemma dead_outcomes:
  assumes "rpc H now nid m c = Some (Inr out, c')"
  shows "check_outcome out = AvailabilityResult_new" and "get_chunk_outcome out = None"
    and "\<not> Status_is_ok (put_chunk_outcome out)" and "has_chunks_outcome n out = replicate n False"
proof -
  have "check_outcome out = AvailabilityResult_new \<and> get_chunk_outcome out = None
      \<and> \<not> Status_is_ok (put_chunk_outcome out) \<and> has_chunks_outcome n out = replicate n False"
    using rpc_outcome_cases [OF assms]
  proof (elim disjE exE conjE)
    fix m' assume "out = Rpc_response m'" "decodable m'"
    then show ?thesis by (cases m') (simp_all add: Status_is_ok_def Status_error_def Status_ok_def)
  qed (auto simp: Status_is_ok_def Status_error_def Status_ok_def)
  then show "check_outcome out = AvailabilityResult_new" and "get_chunk_outcome out = None"
    and "\<not> Status_is_ok (put_chunk_outcome out)" and "has_chunks_outcome n out = replicate n False" by simp_all
qed

section \<open>Properties\<close>

text \<open>
  C10. Gossip converges. When two nodes exchange everything they know, in whatever order and with
  whatever repetitions the entries arrive, they end with the same view of the cluster, which has for
  each node the entry with the highest generation either of them knew. Entries of a node with equal
  generation are assumed to be equal.
\<close>

theorem gossip_converges:
  assumes "nodes_wf a" and "nodes_wf b"
    and "one_per_version ni_id ni_generation (set (map cn_info (all_nodes a)) \<union> set (map cn_info (all_nodes b)))"
    and "set xs = set (map cn_info (all_nodes b))" and "set ys = set (map cn_info (all_nodes a))"
  shows "view (handle_push xs a) = view (handle_push ys b)
       \<and> is_newest ni_id ni_generation (set (map cn_info (all_nodes a)) \<union> set (map cn_info (all_nodes b))) (view (handle_push xs a))"
proof -
  have a: "is_newest ni_id ni_generation (set ys) (view a)" using view_newest [OF assms(1)] assms(5) by simp
  have b: "is_newest ni_id ni_generation (set xs) (view b)" using view_newest [OF assms(2)] assms(4) by simp
  have one: "one_per_version ni_id ni_generation (set ys \<union> set xs)" using assms(3-5) by simp
  show ?thesis
    using members.merge_exchange [OF a b one] members.fold_newest [OF a, of xs] assms(4,5)
    by (simp add: handle_push_def view_handle_infos)
qed

abbreviation node_alone :: "u64 \<Rightarrow> Cluster" where
  "node_alone n \<equiv> Cluster_new Config_new (NodeId n) 0 0 [] int"

theorem gossip_converges_witness:
  "view (handle_push (map cn_info (all_nodes (node_alone 2))) (node_alone 1))
     = view (handle_push (map cn_info (all_nodes (node_alone 1))) (node_alone 2))
   \<and> NodeId 2 \<in> dom (view (handle_push (map cn_info (all_nodes (node_alone 2))) (node_alone 1)))"
proof -
  have wf: "nodes_wf (node_alone n)" for n using cluster_inv_new by (auto simp: cluster_inv_def)
  have infos: "map cn_info (all_nodes (node_alone n)) = [local_info Config_new (NodeId n) 0 0]" for n
    by (simp add: all_nodes_def Cluster_new_def ClusterNode_new_def)
  have "one_per_version ni_id ni_generation (set (map cn_info (all_nodes (node_alone 1))) \<union> set (map cn_info (all_nodes (node_alone 2))))"
    by (simp add: one_per_version_def infos local_info_def)
  from gossip_converges [OF wf wf this refl refl] show ?thesis
    unfolding is_newest_def infos by (auto simp: local_info_def)
qed

text \<open>
  C17. A node never forgets a member and never goes back to an older entry, and its ring always has
  exactly the members: this holds after any steps of the node, with any behaviour of its peers and
  of the network.
\<close>

theorem cluster_members_kept:
  assumes "(cluster_step H)\<^sup>*\<^sup>* (Cluster_new config nid mu du dials clock) c" and "(cluster_step H)\<^sup>*\<^sup>* c c'"
  shows "cluster_inv c' \<and> set (hr_nodes (clu_ring c')) = dom (view c') \<and> nid \<in> dom (view c')
       \<and> (\<forall>k info. view c k = Some info \<longrightarrow>
            (\<exists>info'. view c' k = Some info' \<and> (info' = info \<or> ni_generation info < ni_generation info')))"
proof -
  have g: "grows (Cluster_new config nid mu du dials clock) c" "grows c c'" using steps_grow assms by blast+
  have inv: "cluster_inv c'"
    using g cluster_inv_new [of config nid mu du dials clock] unfolding grows_def by blast
  have "clu_local c' = nid" using g by (simp add: grows_def Cluster_new_def)
  moreover have "set (hr_nodes (clu_ring c')) = dom (view c')"
    using inv set_hr_nodes_run unfolding cluster_inv_def by metis
  ultimately show ?thesis using inv g(2) unfolding grows_def cluster_inv_def by blast
qed

theorem cluster_members_kept_witness:
  "cluster_inv (check_failures 99 (node_alone 1)) \<and> NodeId 1 \<in> dom (view (check_failures 99 (node_alone 1)))"
  using cluster_members_kept [of fnv_hasher Config_new "NodeId 1" 0 0 "[]" int "node_alone 1" "check_failures 99 (node_alone 1)"]
    r_into_rtranclp [of "cluster_step fnv_hasher", OF cluster_step.step_failures [of fnv_hasher "node_alone 1" 99]]
  by blast

text \<open>
  C19. Routing. On a node in any reachable state whose members' ring points do not collide,
  \<^verbatim>\<open>nodes_for_key\<close> returns, and its nodes are the first distinct members clockwise from the hash of
  the key, as many as asked for (the replication factor by default), at least one and at most all.
\<close>

theorem routing_exact:
  assumes "(cluster_step H)\<^sup>*\<^sup>* (Cluster_new config nid mu du dials clock) c"
    and "virtual_nodes c \<noteq> 0" and "points_apart (virtual_nodes c) (dom (view c))" and "card (dom (view c)) < 2 ^ 64"
  shows "\<exists>nodes. nodes_for_key key count c = Some nodes
       \<and> map (ni_id \<circ> cn_info) nodes
         = take (max 1 (min (unat (route_count c count)) (card (dom (view c))))) (ring_order (ck_hash key) (clu_ring c))
       \<and> distinct (map (ni_id \<circ> cn_info) nodes) \<and> set (map (ni_id \<circ> cn_info) nodes) \<subseteq> dom (view c)"
proof -
  have inv: "cluster_inv c"
    using steps_grow [OF assms(1)] cluster_inv_new [of config nid mu du dials clock] unfolding grows_def by blast
  then obtain ids where ids: "clu_ring c = ring_run (virtual_nodes c) (map AddNode ids)" "distinct ids" "set ids = dom (view c)"
    by (auto simp: cluster_inv_def)
  have n: "length ids = card (dom (view c))" using distinct_card [OF ids(2)] ids(3) by simp
  have "ring_reach (virtual_nodes c) (map AddNode ids)"
    using assms(2-4) ids(3) n by (simp add: ring_reach_def image_image)
  note ri = ring_run_inv [OF this, folded ids(1)]
  have vn: "hr_virtual_nodes (clu_ring c) \<noteq> 0" using ri(3) assms(2) by simp
  note op = ring_order_props [OF ri(1) vn, of "ck_hash key"]
  have nodes: "set (hr_nodes (clu_ring c)) = dom (view c)" using set_hr_nodes_run ids(1,3) by metis
  have len: "length (hr_nodes (clu_ring c)) = card (dom (view c))"
    using op distinct_card [OF op(1)] nodes by simp
  let ?t = "take (max 1 (min (unat (route_count c count)) (card (dom (view c))))) (ring_order (ck_hash key) (clu_ring c))"
  have known: "set ?t \<subseteq> dom (view c)" using op(2) nodes by (auto dest: in_set_takeD)
  moreover have "dom (get_node c) = dom (view c)" by (auto simp: view_def get_node_def)
  ultimately have known': "set ?t \<subseteq> dom (get_node c)" by simp
  have key: "(ni_id \<circ> cn_info \<circ> (the \<circ> get_node c)) k = k" if "k \<in> set ?t" for k
    using inv that known' nodes_wf_lookup [of c k] by (auto simp: cluster_inv_def get_node_def)
  have "nodes_for_key key count c = Some (map (the \<circ> get_node c) ?t)"
    using get_nodes_order [OF ri(1) vn] len map_filter_known [OF known']
    by (simp add: nodes_for_key_def get_nodes_for_key_def lookup_nodes_def)
  moreover have "map (ni_id \<circ> cn_info) (map (the \<circ> get_node c) ?t) = ?t"
    unfolding map_map using key by (intro map_idI) simp
  ultimately show ?thesis using op(1) known distinct_take by (intro exI [of _ "map (the \<circ> get_node c) ?t"]) simp
qed

theorem routing_exact_witness:
  "\<exists>nodes. nodes_for_key (CacheKey_new fnv_hasher ''k'') 0 (node_alone 1) = Some nodes
     \<and> set (map (ni_id \<circ> cn_info) nodes) \<subseteq> dom (view (node_alone 1))"
proof -
  have v: "dom (view (node_alone 1)) = {NodeId 1}" by (auto simp: view_def Cluster_new_def split: if_splits)
  have "virtual_nodes (node_alone 1) \<noteq> 0"
    by (simp add: virtual_nodes_def Cluster_new_def Config_new_def ClusterConfig_new_def)
  then show ?thesis
    using routing_exact [of fnv_hasher Config_new "NodeId 1" 0 0 "[]" int "node_alone 1" "CacheKey_new fnv_hasher ''k''" 0] v
    by (auto simp: points_apart_def)
qed

text \<open>
  C33. Four remote operations never succeed, whatever the peer sends: the answers they wait for are
  messages the codec does not decode. \<^verbatim>\<open>remote_check\<close> answers that the key does not exist,
  \<^verbatim>\<open>remote_get_chunk\<close> returns no chunk, \<^verbatim>\<open>remote_put_chunk\<close> an error and \<^verbatim>\<open>remote_has_chunks\<close> only false.
\<close>

theorem remote_chunk_calls_fail:
  assumes "remote_check H now nid key rng c = Some (Inr av, c1)"
    and "remote_get_chunk H now nid i c = Some (Inr chunk, c2)"
    and "remote_put_chunk H now nid sent c = Some (Inr st, c3)"
    and "remote_has_chunks H now nid ids c = Some (Inr found, c4)"
  shows "av = AvailabilityResult_new \<and> chunk = None \<and> \<not> Status_is_ok st \<and> found = replicate (length ids) False"
proof -
  have "av = AvailabilityResult_new"
    using map_rpc_Inr [OF assms(1) [unfolded remote_check_def]] dead_outcomes(1) by metis
  moreover have "chunk = None"
    using map_rpc_Inr [OF assms(2) [unfolded remote_get_chunk_def]] dead_outcomes(2) by metis
  moreover have "\<not> Status_is_ok st"
  proof (cases sent)
    case None
    then show ?thesis using assms(3) by (auto simp: remote_put_chunk_def Status_is_ok_def Status_error_def Status_ok_def)
  next
    case (Some d)
    then show ?thesis
      using map_rpc_Inr [of put_chunk_outcome "rpc H now nid (PutChunkMessage (Chunk_id H d) d) c" st c3] assms(3)
      by (auto simp: remote_put_chunk_def dest: dead_outcomes(3))
  qed
  moreover have "found = replicate (length ids) False"
    using map_rpc_Inr [OF assms(4) [unfolded remote_has_chunks_def]] dead_outcomes(4) by metis
  ultimately show ?thesis by blast
qed

theorem remote_chunk_calls_fail_witness:
  "remote_check fnv_hasher 0 (NodeId 9) (CacheKey_new fnv_hasher ''k'') None (node_alone 1)
     = Some (Inr AvailabilityResult_new, node_alone 1)
   \<and> remote_put_chunk fnv_hasher 0 (NodeId 9) (Some [1]) (node_alone 1)
     = Some (Inr (Status_error NetworkError ''Failed to connect''), node_alone 1)"
proof -
  have dead: "rpc fnv_hasher 0 (NodeId 9) m (node_alone 1) = Some (Inr Rpc_no_connection, node_alone 1)" for m
    by (simp add: rpc_def ensure_connection_def Cluster_new_def)
  have check: "remote_check fnv_hasher 0 (NodeId 9) (CacheKey_new fnv_hasher ''k'') None (node_alone 1)
      = Some (Inr (check_outcome Rpc_no_connection), node_alone 1)"
    and get: "remote_get_chunk fnv_hasher 0 (NodeId 9) (Chunk_id fnv_hasher [1]) (node_alone 1)
      = Some (Inr (get_chunk_outcome Rpc_no_connection), node_alone 1)"
    and put: "remote_put_chunk fnv_hasher 0 (NodeId 9) (Some [1]) (node_alone 1)
      = Some (Inr (put_chunk_outcome Rpc_no_connection), node_alone 1)"
    and has: "remote_has_chunks fnv_hasher 0 (NodeId 9) [Chunk_id fnv_hasher [1]] (node_alone 1)
      = Some (Inr (has_chunks_outcome 1 Rpc_no_connection), node_alone 1)"
    by (simp_all add: remote_check_def remote_get_chunk_def remote_put_chunk_def remote_has_chunks_def map_rpc_def dead)
  from remote_chunk_calls_fail [OF check get put has] show ?thesis using check put by simp
qed

text \<open>
  C32. What a peer can learn from the handler of a connection. The handler writes at most one message,
  the acknowledgement of a \<^verbatim>\<open>Hello\<close> that came first, and nothing on other connections: a request that
  arrives on a connection, such as \<^verbatim>\<open>Get\<close>, \<^verbatim>\<open>Put\<close> or \<^verbatim>\<open>Delete\<close>, is never answered.
\<close>

theorem handler_answers_only_hello:
  assumes "i < length (clu_conns c)" and "handle_connection H now i c = Some (r, c')"
  shows "\<exists>p. written_on c' i = written_on c i @ p
       \<and> (p = [] \<or> (\<exists>sender name caps c1 info q. receive_on H i c = Some (Inr (Some (HelloMessage sender name caps)), c1)
                      \<and> p @ q = encode now (HelloAckMessage info True []) 0))
       \<and> (\<forall>j. j \<noteq> i \<longrightarrow> written_on c' j = written_on c j)"
proof -
  obtain q c1 where rc: "receive_on H i c = Some (q, c1)"
    using assms(2) by (cases "receive_on H i c") (auto simp: handle_connection_def)
  have w: "written_on c1 j = written_on c j" for j using written_on_receive [OF rc] .
  have i1: "i < length (clu_conns c1)" using rc assms(1) by (auto elim: receive_on_Some)
  consider (quiet) "c' = c1 \<or> c' = close_on i c1 \<or> connection_loop H i c1 = Some (r, c')"
    | (hello) sender name caps where "q = Inr (Some (HelloMessage sender name caps))"
        "connection_loop H i (greet now i sender c1) = Some (r, c')"
    using assms(2) rc by (auto simp: handle_connection_def split: sum.splits option.splits Message.splits)
  then show ?thesis
  proof cases
    case quiet
    then have "written_on c' j = written_on c j" for j using w written_on_close loop_writes_nothing by metis
    then show ?thesis by auto
  next
    case hello
    have out: "written_on c' j = written_on (greet now i sender c1) j" for j using loop_writes_nothing [OF hello(2)] .
    obtain info p t where "written_on (greet now i sender c1) i = written_on c i @ p"
      "p @ t = encode now (HelloAckMessage info True []) 0"
      using greet_writes(1) [OF i1, of now sender] w by auto
    then show ?thesis using out greet_writes(2) [OF i1] w rc hello(1) by (intro exI [of _ p]) auto
  qed
qed

theorem handler_answers_only_hello_witness:
  "\<exists>c'. handle_connection fnv_hasher 0 0
         ((node_alone 1)\<lparr>clu_conns := [Connection_new [encode 5 (DeleteMessage (CacheKey_new fnv_hasher ''k'')) 0] [9]]\<rparr>)
       = Some (Inr (), c') \<and> written_on c' 0 = []"
proof -
  let ?m = "DeleteMessage (CacheKey_new fnv_hasher ''k'')"
  let ?conn = "Connection_new [encode 5 ?m 0] [9]"
  let ?c = "(node_alone 1)\<lparr>clu_conns := [?conn]\<rparr>"
  have "length (encode 5 ?m 0) \<noteq> 0" by (simp add: encode_split HEADER_SIZE_def del: length_0_conv)
  then have ne: "encode 5 ?m 0 \<noteq> []" by simp
  have "frame_ok fnv_hasher ?m" by (simp add: frame_ok_def encode_string_def)
  then obtain segs where rc: "Connection_receive fnv_hasher ?conn = Some (Inr (Some (on_wire ?m)), ?conn\<lparr>conn_in := segs\<rparr>)"
    using receive_message [of ?conn fnv_hasher ?m 5 0 "[]"] ne by (auto simp: Connection_new_def segments_ok_def)
  let ?c1 = "?c\<lparr>clu_conns := [?conn\<lparr>conn_in := segs\<rparr>]\<rparr>"
  have on: "receive_on fnv_hasher 0 ?c = Some (Inr (Some ?m), ?c1)" using rc by (simp add: receive_on_def)
  have "connection_loop fnv_hasher 0 ?c1 = Some (Inr (), close_on 0 ?c1)"
    by (subst connection_loop.simps) (simp add: Cluster_new_def)
  then have h: "handle_connection fnv_hasher 0 0 ?c = Some (Inr (), close_on 0 ?c1)"
    using on by (simp add: handle_connection_def)
  from handler_answers_only_hello [OF _ h] on have "written_on (close_on 0 ?c1) 0 = []" by (auto simp: Connection_new_def)
  then show ?thesis using h by blast
qed

end
