(* ===== verification/Coordinator.thy ===== *)
theory Coordinator
  imports Disk_Cache Cluster_Properties
begin

text \<open>
  The multi-level cache: \<^verbatim>\<open>src/include/elcache/cache_coordinator.hpp\<close> and
  \<^verbatim>\<open>src/src/cache/cache_coordinator.cpp\<close>. The coordinator asks the memory cache, then the disk cache,
  then the nodes of the cluster, and writes to all of them. Each operation runs to completion as one
  step; its result is \<open>None\<close> when it waits forever and carries an exception when one escapes.
  \<open>now\<close> is the system time of the request and \<open>now_ms\<close> the timestamp of the messages it sends. Each level
  of the source reads the system clock for itself; here both get the same reading.
\<close>

section \<open>State\<close>

record Coordinator =
  co_config :: Config
  co_memory :: "MemoryCache option"
  co_disk :: "DiskCache option"
  co_cluster :: "Cluster option"

definition Coordinator_new :: "Config \<Rightarrow> path \<Rightarrow> FileSystem \<Rightarrow> (nat \<Rightarrow> int) \<Rightarrow> Coordinator" where
  "Coordinator_new config base fs clock =
     \<lparr>co_config = config,
      co_memory = (if 0 < mem_max_size (cfg_memory config) then Some (MemoryCache_new (mem_max_size (cfg_memory config))) else None),
      co_disk = (if 0 < disk_max_size (cfg_disk config) then Some (DiskCache_new (cfg_disk config) base fs clock) else None),
      co_cluster = None\<rparr>"

definition set_cluster :: "Cluster option \<Rightarrow> Coordinator \<Rightarrow> Coordinator" where
  "set_cluster cluster co = co\<lparr>co_cluster := cluster\<rparr>"

definition Coordinator_start :: "Coordinator \<Rightarrow> Status result \<times> Coordinator" where
  "Coordinator_start co =
     (let (st, co) =
        (case co_memory co of
           None \<Rightarrow> (Status_ok, co)
         | Some m \<Rightarrow> (case MemoryCache_start m of (st, m') \<Rightarrow> (st, co\<lparr>co_memory := Some m'\<rparr>)))
      in if \<not> Status_is_ok st then (Inr st, co)
         else case co_disk co of
             None \<Rightarrow> (Inr Status_ok, co)
           | Some dc \<Rightarrow>
               (case DiskCache_start dc of
                  (Inl ex, dc') \<Rightarrow> (Inl ex, co\<lparr>co_disk := Some dc'\<rparr>)
                | (Inr st, dc') \<Rightarrow>
                    (Inr (if \<not> Status_is_ok st then st else Status_ok), co\<lparr>co_disk := Some dc'\<rparr>)))"

definition Coordinator_stop :: "Coordinator \<Rightarrow> Coordinator" where
  "Coordinator_stop co =
     co\<lparr>co_memory := map_option MemoryCache_stop (co_memory co), co_disk := map_option DiskCache_stop (co_disk co)\<rparr>"

section \<open>Reading\<close>

definition serves :: "ReadOptions \<Rightarrow> ReadResult \<Rightarrow> bool" where
  "serves opts res = (is_hit res \<or> (is_partial res \<and> ro_allow_partial opts))"

fun fetch_loop ::
    "hasher \<Rightarrow> Timestamp \<Rightarrow> u64 \<Rightarrow> CacheKey \<Rightarrow> ReadOptions \<Rightarrow> NodeId list \<Rightarrow> ReadResult \<Rightarrow> Cluster \<Rightarrow> Coordinator
     \<Rightarrow> (ReadResult result \<times> Coordinator) option" where
  "fetch_loop H now now_ms key opts [] res c co = Some (Inr res, co\<lparr>co_cluster := Some c\<rparr>)"
| "fetch_loop H now now_ms key opts (nid # nids) res c co =
     (if nid = clu_local c then fetch_loop H now now_ms key opts nids res c co
      else Option.bind (remote_get H now_ms nid key opts c) (\<lambda>(r, c').
        case r of
          Inl ex \<Rightarrow> Some (Inl ex, co\<lparr>co_cluster := Some c'\<rparr>)
        | Inr res \<Rightarrow>
            if is_hit res then
              Some (Inr res,
                co\<lparr>co_cluster := Some c',
                   co_memory := map_option (\<lambda>m. if rr_data res = [] then m
                     else snd (MemoryCache_put H now key (rr_data res) (WriteOptions_new\<lparr>wo_no_cluster := True\<rparr>) m)) (co_memory co)\<rparr>)
            else if is_partial res \<and> ro_allow_partial opts then Some (Inr res, co\<lparr>co_cluster := Some c'\<rparr>)
            else fetch_loop H now now_ms key opts nids res c' co))"

definition fetch_from_cluster ::
    "hasher \<Rightarrow> Timestamp \<Rightarrow> u64 \<Rightarrow> CacheKey \<Rightarrow> ReadOptions \<Rightarrow> Coordinator \<Rightarrow> (ReadResult result \<times> Coordinator) option" where
  "fetch_from_cluster H now now_ms key opts co =
     (case co_cluster co of
        None \<Rightarrow> Some (Inr ReadResult_new, co)
      | Some c \<Rightarrow>
          Option.bind (nodes_for_key key 0 c) (\<lambda>nodes.
            fetch_loop H now now_ms key opts (map (ni_id \<circ> cn_info) nodes) ReadResult_new c co))"

text \<open>The three levels of \<^verbatim>\<open>get\<close>: an answer, or nothing and the next level is asked.\<close>

definition get_from_memory :: "Timestamp \<Rightarrow> CacheKey \<Rightarrow> ReadOptions \<Rightarrow> Coordinator \<Rightarrow> ReadResult option \<times> Coordinator" where
  "get_from_memory now key opts co =
     (case co_memory co of
        Some m \<Rightarrow>
          if cl_prefer_local (cfg_cluster (co_config co)) then
            (case MemoryCache_get now key opts m of
               (res, m') \<Rightarrow> (if serves opts res then Some res else None, co\<lparr>co_memory := Some m'\<rparr>))
          else (None, co)
      | None \<Rightarrow> (None, co))"

definition get_from_disk :: "Timestamp \<Rightarrow> CacheKey \<Rightarrow> ReadOptions \<Rightarrow> Coordinator \<Rightarrow> ReadResult option \<times> Coordinator" where
  "get_from_disk now key opts co =
     (case co_disk co of
        Some dc \<Rightarrow>
          (case DiskCache_get now key opts dc of
             (res, dc') \<Rightarrow> (if serves opts res then Some res else None, co\<lparr>co_disk := Some dc'\<rparr>))
      | None \<Rightarrow> (None, co))"

definition get_from_cluster ::
    "hasher \<Rightarrow> Timestamp \<Rightarrow> u64 \<Rightarrow> CacheKey \<Rightarrow> ReadOptions \<Rightarrow> Coordinator \<Rightarrow> (ReadResult result \<times> Coordinator) option" where
  "get_from_cluster H now now_ms key opts co =
     (if co_cluster co \<noteq> None \<and> cl_seed_nodes (cfg_cluster (co_config co)) \<noteq> [] then
        map_option (\<lambda>(r, co'). (map_sum id (\<lambda>res. if serves opts res then res else ReadResult_new) r, co'))
          (fetch_from_cluster H now now_ms key opts co)
      else Some (Inr ReadResult_new, co))"

definition Coordinator_get ::
    "hasher \<Rightarrow> Timestamp \<Rightarrow> u64 \<Rightarrow> CacheKey \<Rightarrow> ReadOptions \<Rightarrow> Coordinator \<Rightarrow> (ReadResult result \<times> Coordinator) option" where
  "Coordinator_get H now now_ms key opts co =
     (case get_from_memory now key opts co of
        (Some res, co) \<Rightarrow> Some (Inr res, co)
      | (None, co) \<Rightarrow>
          (case get_from_disk now key opts co of
             (Some res, co) \<Rightarrow> Some (Inr res, co)
           | (None, co) \<Rightarrow> get_from_cluster H now now_ms key opts co))"

section \<open>Writing and removing\<close>

text \<open>A call on each node that is responsible for the key, this node excepted; their statuses are ignored.\<close>

fun each_node ::
    "(NodeId \<Rightarrow> Cluster \<Rightarrow> (Status result \<times> Cluster) option) \<Rightarrow> NodeId list \<Rightarrow> Cluster \<Rightarrow> (unit result \<times> Cluster) option" where
  "each_node call [] c = Some (Inr (), c)"
| "each_node call (nid # nids) c =
     (if nid = clu_local c then each_node call nids c
      else Option.bind (call nid c) (\<lambda>(r, c').
        case r of Inl ex \<Rightarrow> Some (Inl ex, c') | Inr st \<Rightarrow> each_node call nids c'))"

definition on_key_nodes ::
    "(NodeId \<Rightarrow> Cluster \<Rightarrow> (Status result \<times> Cluster) option) \<Rightarrow> CacheKey \<Rightarrow> Coordinator \<Rightarrow> (unit result \<times> Coordinator) option" where
  "on_key_nodes call key co =
     (case co_cluster co of
        None \<Rightarrow> Some (Inr (), co)
      | Some c \<Rightarrow>
          Option.bind (nodes_for_key key 0 c) (\<lambda>nodes.
            map_option (\<lambda>(r, c'). (r, co\<lparr>co_cluster := Some c'\<rparr>)) (each_node call (map (ni_id \<circ> cn_info) nodes) c)))"

definition replicate_put ::
    "hasher \<Rightarrow> u64 \<Rightarrow> CacheKey \<Rightarrow> byte list \<Rightarrow> WriteOptions \<Rightarrow> bool \<Rightarrow> Coordinator \<Rightarrow> (Status result \<times> Coordinator) option" where
  "replicate_put H now_ms key v opts wrote co =
     map_option (\<lambda>(r, co'). (map_sum id (\<lambda>_. if \<not> wrote then Status_error InternalError ''No storage available'' else Status_ok) r, co'))
       (if \<not> wo_no_cluster opts then on_key_nodes (\<lambda>nid. remote_put H now_ms nid key v opts) key co else Some (Inr (), co))"

definition put_to_disk ::
    "hasher \<Rightarrow> Timestamp \<Rightarrow> CacheKey \<Rightarrow> byte list \<Rightarrow> WriteOptions \<Rightarrow> Coordinator \<Rightarrow> (Status result \<times> bool) \<times> Coordinator" where
  "put_to_disk H now key v opts co =
     (case co_disk co of
        Some dc \<Rightarrow>
          if wo_no_disk opts then ((Inr Status_ok, False), co)
          else (case DiskCache_put H now key v opts dc of (r, dc') \<Rightarrow> ((r, True), co\<lparr>co_disk := Some dc'\<rparr>))
      | None \<Rightarrow> ((Inr Status_ok, False), co))"

definition put_to_memory ::
    "hasher \<Rightarrow> Timestamp \<Rightarrow> CacheKey \<Rightarrow> byte list \<Rightarrow> WriteOptions \<Rightarrow> Coordinator \<Rightarrow> (Status \<times> bool) \<times> Coordinator" where
  "put_to_memory H now key v opts co =
     (case co_memory co of
        Some m \<Rightarrow>
          if wo_no_memory opts then ((Status_ok, False), co)
          else (case MemoryCache_put H now key v opts m of (st, m') \<Rightarrow> ((st, True), co\<lparr>co_memory := Some m'\<rparr>))
      | None \<Rightarrow> ((Status_ok, False), co))"

definition Coordinator_put ::
    "hasher \<Rightarrow> Timestamp \<Rightarrow> u64 \<Rightarrow> CacheKey \<Rightarrow> byte list \<Rightarrow> WriteOptions \<Rightarrow> Coordinator \<Rightarrow> (Status result \<times> Coordinator) option" where
  "Coordinator_put H now now_ms key v opts co =
     (case put_to_memory H now key v opts co of
        ((st, in_memory), co) \<Rightarrow>
          if \<not> Status_is_ok st then Some (Inr st, co)
          else case put_to_disk H now key v opts co of
              ((Inl ex, on_disk), co) \<Rightarrow> Some (Inl ex, co)
            | ((Inr st, on_disk), co) \<Rightarrow>
                if \<not> Status_is_ok st then Some (Inr st, co)
                else replicate_put H now_ms key v opts (in_memory \<or> on_disk) co)"

definition remove_local :: "CacheKey \<Rightarrow> DeleteOptions \<Rightarrow> Coordinator \<Rightarrow> unit result \<times> Coordinator" where
  "remove_local key opts co =
     (let co = (case co_memory co of
                  Some m \<Rightarrow> if do_from_memory opts then co\<lparr>co_memory := Some (snd (MemoryCache_remove key opts m))\<rparr> else co
                | None \<Rightarrow> co)
      in case co_disk co of
          Some dc \<Rightarrow>
            if do_from_disk opts then
              (case DiskCache_remove key opts dc of (r, dc') \<Rightarrow> (map_sum id (\<lambda>_. ()) r, co\<lparr>co_disk := Some dc'\<rparr>))
            else (Inr (), co)
        | None \<Rightarrow> (Inr (), co))"

definition Coordinator_remove ::
    "hasher \<Rightarrow> u64 \<Rightarrow> CacheKey \<Rightarrow> DeleteOptions \<Rightarrow> Coordinator \<Rightarrow> (Status result \<times> Coordinator) option" where
  "Coordinator_remove H now_ms key opts co =
     (case remove_local key opts co of
        (Inl ex, co) \<Rightarrow> Some (Inl ex, co)
      | (Inr _, co) \<Rightarrow>
          map_option (apfst (map_sum id (\<lambda>_. Status_ok)))
            (if do_from_cluster opts then on_key_nodes (\<lambda>nid. remote_delete H now_ms nid key) key co else Some (Inr (), co)))"

section \<open>Availability, metadata and statistics\<close>

fun check_loop ::
    "hasher \<Rightarrow> u64 \<Rightarrow> CacheKey \<Rightarrow> Range option \<Rightarrow> NodeId list \<Rightarrow> AvailabilityResult \<Rightarrow> Cluster
     \<Rightarrow> (AvailabilityResult result \<times> Cluster) option" where
  "check_loop H now_ms key rng [] res c = Some (Inr res, c)"
| "check_loop H now_ms key rng (nid # nids) res c =
     (if nid = clu_local c then check_loop H now_ms key rng nids res c
      else Option.bind (remote_check H now_ms nid key rng c) (\<lambda>(r, c').
        case r of
          Inl ex \<Rightarrow> Some (Inl ex, c')
        | Inr av \<Rightarrow> if av_exists av then Some (Inr av, c') else check_loop H now_ms key rng nids res c'))"

definition check_cluster ::
    "hasher \<Rightarrow> u64 \<Rightarrow> CacheKey \<Rightarrow> Range option \<Rightarrow> AvailabilityResult \<Rightarrow> Coordinator \<Rightarrow> (AvailabilityResult result \<times> Coordinator) option" where
  "check_cluster H now_ms key rng res co =
     (case co_cluster co of
        Some c \<Rightarrow>
          if \<not> av_exists res then
            Option.bind (nodes_for_key key 0 c) (\<lambda>nodes.
              map_option (\<lambda>(r, c'). (r, co\<lparr>co_cluster := Some c'\<rparr>))
                (check_loop H now_ms key rng (map (ni_id \<circ> cn_info) nodes) res c))
          else Some (Inr res, co)
      | None \<Rightarrow> Some (Inr res, co))"

definition merge_availability :: "AvailabilityResult \<Rightarrow> AvailabilityResult \<Rightarrow> AvailabilityResult" where
  "merge_availability res disk_res =
     (if \<not> av_exists disk_res then res
      else if \<not> av_exists res then disk_res
      else res\<lparr>av_available_ranges := av_available_ranges res @ av_available_ranges disk_res\<rparr>)"

definition Coordinator_check ::
    "hasher \<Rightarrow> u64 \<Rightarrow> CacheKey \<Rightarrow> Range option \<Rightarrow> Coordinator \<Rightarrow> (AvailabilityResult result \<times> Coordinator) option" where
  "Coordinator_check H now_ms key rng co =
     Option.bind (case co_memory co of Some m \<Rightarrow> MemoryCache_check key rng m | None \<Rightarrow> Some AvailabilityResult_new) (\<lambda>res.
       if co_memory co \<noteq> None \<and> av_exists res \<and> av_missing_ranges res = [] then Some (Inr res, co)
       else
         Option.bind (case co_disk co of
             Some dc \<Rightarrow> map_option (merge_availability res) (DiskCache_check key rng dc)
           | None \<Rightarrow> Some res) (\<lambda>res. check_cluster H now_ms key rng res co))"

definition Coordinator_metadata :: "CacheKey \<Rightarrow> Coordinator \<Rightarrow> CacheMetadata option" where
  "Coordinator_metadata key co =
     (case Option.bind (co_memory co) (MemoryCache_metadata key) of
        Some md \<Rightarrow> Some md
      | None \<Rightarrow> Option.bind (co_disk co) (DiskCache_metadata key))"

definition Coordinator_stats :: "Coordinator \<Rightarrow> CacheStats" where
  "Coordinator_stats co =
     (let m = (case co_memory co of Some m \<Rightarrow> MemoryCache_stats m | None \<Rightarrow> CacheStats_new);
          d = (case co_disk co of Some dc \<Rightarrow> DiskCache_stats dc | None \<Rightarrow> CacheStats_new)
      in \<lparr>cs_hits = cs_hits m + cs_hits d, cs_misses = cs_misses m + cs_misses d,
          cs_partial_hits = cs_partial_hits m,
          cs_bytes_read = cs_bytes_read m + cs_bytes_read d, cs_bytes_written = cs_bytes_written m + cs_bytes_written d,
          cs_evictions = cs_evictions m + cs_evictions d, cs_entry_count = cs_entry_count m + cs_entry_count d,
          cs_size_bytes = cs_size_bytes m + cs_size_bytes d, cs_capacity_bytes = cs_capacity_bytes m + cs_capacity_bytes d\<rparr>)"

section \<open>Streams\<close>

record WriteStream =
  ws_key :: CacheKey
  ws_total_size :: u64
  ws_opts :: WriteOptions
  ws_written :: u64
  ws_buffer :: "byte list"
  ws_chunks :: "byte list list"

definition create_write_stream :: "CacheKey \<Rightarrow> u64 \<Rightarrow> WriteOptions \<Rightarrow> WriteStream" where
  "create_write_stream key size_hint opts =
     \<lparr>ws_key = key, ws_total_size = size_hint, ws_opts = opts, ws_written = 0, ws_buffer = [], ws_chunks = []\<rparr>"

text \<open>The loop that moves full chunks out of the buffer.\<close>

function drain :: "byte list \<Rightarrow> byte list list \<Rightarrow> byte list \<times> byte list list" where
  "drain buffer chunks =
     (if CHUNK_SIZE \<le> vec_size buffer then drain (drop CS buffer) (chunks @ [take CS buffer]) else (buffer, chunks))"
  by pat_completeness auto
termination
proof (relation "measure (length \<circ> fst)")
  fix buffer :: "byte list" and chunks
  assume "CHUNK_SIZE \<le> vec_size buffer"
  then have "buffer \<noteq> []" by (auto simp: vec_size_def CHUNK_SIZE_def)
  then show "((drop CS buffer, chunks @ [take CS buffer]), (buffer, chunks)) \<in> measure (length \<circ> fst)"
    by (simp add: unat_CHUNK_SIZE)
qed simp

declare drain.simps [simp del]

definition ws_write :: "byte list \<Rightarrow> WriteStream \<Rightarrow> Status \<times> WriteStream" where
  "ws_write data ws =
     (case drain (ws_buffer ws @ data) (ws_chunks ws) of
        (buffer, chunks) \<Rightarrow>
          (Status_ok, ws\<lparr>ws_buffer := buffer, ws_chunks := chunks, ws_written := ws_written ws + vec_size data\<rparr>))"

definition ws_finish ::
    "hasher \<Rightarrow> Timestamp \<Rightarrow> u64 \<Rightarrow> WriteStream \<Rightarrow> Coordinator \<Rightarrow> ((Status result \<times> Coordinator) option) \<times> WriteStream" where
  "ws_finish H now now_ms ws co =
     (let ws = (if ws_buffer ws = [] then ws else ws\<lparr>ws_chunks := ws_chunks ws @ [ws_buffer ws], ws_buffer := []\<rparr>)
      in (Coordinator_put H now now_ms (ws_key ws) (concat (ws_chunks ws)) (ws_opts ws) co, ws))"

definition ws_abort :: "WriteStream \<Rightarrow> WriteStream" where
  "ws_abort ws = ws\<lparr>ws_buffer := [], ws_chunks := []\<rparr>"

record ReadStream =
  rs_data :: "byte list"
  rs_total_size :: u64
  rs_position :: u64

definition rs_read :: "u64 \<Rightarrow> ReadStream \<Rightarrow> byte list \<times> ReadStream" where
  "rs_read max_bytes rs =
     (let to_read = min max_bytes (vec_size (rs_data rs) - rs_position rs)
      in (take (unat to_read) (drop (unat (rs_position rs)) (rs_data rs)), rs\<lparr>rs_position := rs_position rs + to_read\<rparr>))"

definition rs_eof :: "ReadStream \<Rightarrow> bool" where
  "rs_eof rs = (vec_size (rs_data rs) \<le> rs_position rs)"

definition create_read_stream ::
    "hasher \<Rightarrow> Timestamp \<Rightarrow> u64 \<Rightarrow> CacheKey \<Rightarrow> ReadOptions \<Rightarrow> Coordinator \<Rightarrow> (ReadStream option result \<times> Coordinator) option" where
  "create_read_stream H now now_ms key opts co =
     map_option (\<lambda>(r, co'). (map_sum id (\<lambda>res.
         if rr_result res = Miss then None
         else Some \<lparr>rs_data = rr_data res,
                    rs_total_size = (case rr_metadata res of Some md \<Rightarrow> md_total_size md | None \<Rightarrow> vec_size (rr_data res)),
                    rs_position = 0\<rparr>) r, co'))
       (Coordinator_get H now now_ms key opts co)"

end
