(* ===== verification/Coordinator_Properties.thy ===== *)
theory Coordinator_Properties
  imports Coordinator
begin

text \<open>
  Correctness of the coordinator. What it relies on is the same for its two local levels: a locale
  states the contract of a level, which the memory cache and the disk cache both fulfil, and its
  lemmas carry the invariant that no level ever holds anything but the value last stored.
\<close>

section \<open>The contract of a level\<close>

text \<open>A level agrees with the values last stored when it holds some of them and nothing else.\<close>

definition agrees :: "('c \<Rightarrow> cache_map \<Rightarrow> bool) \<Rightarrow> cache_map \<Rightarrow> 'c \<Rightarrow> bool" where
  "agrees rep L c \<longleftrightarrow> (\<exists>A. rep c A \<and> A \<subseteq>\<^sub>m L)"

locale cache_level =
  fixes rep :: "'c \<Rightarrow> cache_map \<Rightarrow> bool"
    and get :: "Timestamp \<Rightarrow> CacheKey \<Rightarrow> ReadOptions \<Rightarrow> 'c \<Rightarrow> ReadResult \<times> 'c"
    and put :: "Timestamp \<Rightarrow> CacheKey \<Rightarrow> byte list \<Rightarrow> WriteOptions \<Rightarrow> 'c \<Rightarrow> Status result \<times> 'c"
    and remove :: "CacheKey \<Rightarrow> DeleteOptions \<Rightarrow> 'c \<Rightarrow> Status result \<times> 'c"
    and storable :: "byte list \<Rightarrow> bool"
  assumes get_keeps: "rep c A \<Longrightarrow> get now key opts c = (res, c') \<Longrightarrow> rep c' A"
    and get_hit: "rep c A \<Longrightarrow> get now key opts c = (res, c') \<Longrightarrow> is_hit res \<Longrightarrow>
      \<exists>v md. A key = Some (v, md) \<and> \<not> CacheMetadata_is_expired now md \<and> rr_data res = requested_bytes opts v"
    and put_stores: "rep c A \<Longrightarrow> storable v \<Longrightarrow> put now key v wopts c = (r, c') \<Longrightarrow>
      rep c' (if result_ok r then A(key \<mapsto> (v, stored_md now wopts v)) else A)"
    and remove_drops: "rep c A \<Longrightarrow> remove key dopts c = (r, c') \<Longrightarrow> rep c' (A(key := None))"
begin

lemma agrees_get: "agrees rep L c \<Longrightarrow> get now key opts c = (res, c') \<Longrightarrow> agrees rep L c'"
  unfolding agrees_def using get_keeps by blast

lemma agrees_hit:
  assumes "agrees rep L c" and "get now key opts c = (res, c')" and "is_hit res"
  shows "\<exists>v md. L key = Some (v, md) \<and> \<not> CacheMetadata_is_expired now md \<and> rr_data res = requested_bytes opts v"
proof -
  obtain A where A: "rep c A" "A \<subseteq>\<^sub>m L" using assms(1) by (auto simp: agrees_def)
  obtain v md where v: "A key = Some (v, md)" "\<not> CacheMetadata_is_expired now md" "rr_data res = requested_bytes opts v"
    using get_hit [OF A(1) assms(2,3)] by blast
  then have "L key = Some (v, md)" using A(2) by (metis domI map_le_def)
  then show ?thesis using v by blast
qed

lemma agrees_put:
  assumes "agrees rep L c" and "storable v" and "put now key v wopts c = (r, c')"
  shows "result_ok r \<Longrightarrow> agrees rep (L(key \<mapsto> (v, stored_md now wopts v))) c'" and "\<not> result_ok r \<Longrightarrow> agrees rep L c'"
proof -
  obtain A where A: "rep c A" "A \<subseteq>\<^sub>m L" using assms(1) by (auto simp: agrees_def)
  have "A(key \<mapsto> (v, stored_md now wopts v)) \<subseteq>\<^sub>m L(key \<mapsto> (v, stored_md now wopts v))"
    using A(2) by (simp add: map_le_upd)
  then show "result_ok r \<Longrightarrow> agrees rep (L(key \<mapsto> (v, stored_md now wopts v))) c'"
    using put_stores [OF A(1) assms(2,3)] unfolding agrees_def by auto
  show "\<not> result_ok r \<Longrightarrow> agrees rep L c'" using put_stores [OF A(1) assms(2,3)] A(2) unfolding agrees_def by auto
qed

lemma agrees_remove:
  assumes "agrees rep L c" and "remove key dopts c = (r, c')"
  shows "agrees rep (L(key := None)) c'"
proof -
  obtain A where A: "rep c A" "A \<subseteq>\<^sub>m L" using assms(1) by (auto simp: agrees_def)
  have "A(key := None) \<subseteq>\<^sub>m L(key := None)" using A(2) by (auto simp: map_le_def)
  then show ?thesis using remove_drops [OF A(1) assms(2)] unfolding agrees_def by blast
qed

end

text \<open>The memory cache as a level; its operations throw nothing.\<close>

definition mem_level :: "hasher \<Rightarrow> Chunk set \<Rightarrow> MemoryCache \<Rightarrow> cache_map \<Rightarrow> bool" where
  "mem_level H S m A \<longleftrightarrow> collision_free H S \<and> MC_rep H S m A"

definition disk_level :: "hasher \<Rightarrow> Chunk set \<Rightarrow> DiskCache \<Rightarrow> cache_map \<Rightarrow> bool" where
  "disk_level H S dc A \<longleftrightarrow> collision_free H S \<and> DC_rep H S dc A"

lemma MemoryCache_get_hit:
  assumes "mem_level H S m A" and "MemoryCache_get now key opts m = (res, m')" and "is_hit res"
  shows "\<exists>v md. A key = Some (v, md) \<and> \<not> CacheMetadata_is_expired now md \<and> rr_data res = requested_bytes opts v"
proof -
  have rep: "MC_rep H S m A" "collision_free H S" using assms(1) by (simp_all add: mem_level_def)
  have "A key \<noteq> None" if "A key = None"
    using MemoryCache_get_absent [OF rep(1) that assms(2)] assms(3) by (auto simp: is_hit_def ReadResult_new_def)
  then obtain v md where k: "A key = Some (v, md)" by (cases "A key") auto
  have ex: "\<not> CacheMetadata_is_expired now md"
    using MemoryCache_get_expired(2) [OF rep(1) k _ assms(2)] assms(3) by (auto simp: is_hit_def ReadResult_new_def)
  then show ?thesis
    using MemoryCache_get_stored(2) [OF rep k ex assms(2)] k assms(3) by (auto simp: read_ok_def is_hit_def)
qed

lemma DiskCache_get_hit:
  assumes "disk_level H S dc A" and "DiskCache_get now key opts dc = (res, dc')" and "is_hit res"
  shows "\<exists>v md. A key = Some (v, md) \<and> \<not> CacheMetadata_is_expired now md \<and> rr_data res = requested_bytes opts v"
proof -
  have rep: "DC_rep H S dc A" "collision_free H S" using assms(1) by (simp_all add: disk_level_def)
  note absent = DiskCache_get_absent [OF rep(1) assms(2)]
  have "A key \<noteq> None" if "A key = None"
    using absent(1) [OF that] assms(3) by (auto simp: is_hit_def ReadResult_new_def)
  then obtain v md where k: "A key = Some (v, md)" by (cases "A key") auto
  have ex: "\<not> CacheMetadata_is_expired now md"
    using absent(2) [OF k] assms(3) by (auto simp: is_hit_def ReadResult_new_def)
  then show ?thesis
    using DiskCache_get_stored(3) [OF rep k ex assms(2)] k assms(3) by (auto simp: read_ok_def is_hit_def)
qed

interpretation memory_level: cache_level "mem_level H S" MemoryCache_get "\<lambda>now key v opts m. apfst Inr (MemoryCache_put H now key v opts m)"
    "\<lambda>key opts m. apfst Inr (MemoryCache_remove key opts m)" "value_ok S"
  for H S
proof unfold_locales
  fix m A now key opts res m' v wopts r dopts
  assume rep: "mem_level H S m A"
  show "MemoryCache_get now key opts m = (res, m') \<Longrightarrow> mem_level H S m' A"
    using rep MC_rep_get by (auto simp: mem_level_def)
  show "MemoryCache_get now key opts m = (res, m') \<Longrightarrow> is_hit res \<Longrightarrow>
      \<exists>v md. A key = Some (v, md) \<and> \<not> CacheMetadata_is_expired now md \<and> rr_data res = requested_bytes opts v"
    using MemoryCache_get_hit [OF rep] by blast
  show "value_ok S v \<Longrightarrow> apfst Inr (MemoryCache_put H now key v wopts m) = (r, m') \<Longrightarrow>
      mem_level H S m' (if result_ok r then A(key \<mapsto> (v, stored_md now wopts v)) else A)"
    using rep MC_rep_put [of H S m A v now key wopts] by (auto simp: mem_level_def result_ok_def apfst_def map_prod_def split: prod.splits)
  show "apfst Inr (MemoryCache_remove key dopts m) = (r, m') \<Longrightarrow> mem_level H S m' (A(key := None))"
    using rep MemoryCache_remove_ok(1) [of H S m A key dopts] by (auto simp: mem_level_def apfst_def map_prod_def split: prod.splits)
qed

interpretation disk_level: cache_level "disk_level H S" DiskCache_get "DiskCache_put H" DiskCache_remove "value_ok S"
  for H S
  by unfold_locales
     (auto simp: disk_level_def dest: DC_rep_get DiskCache_put_ok(1) DiskCache_remove_ok(1)
        intro: DiskCache_get_hit [unfolded disk_level_def, OF conjI])

section \<open>Runs of the coordinator\<close>

definition co_inv :: "hasher \<Rightarrow> Chunk set \<Rightarrow> cache_map \<Rightarrow> Coordinator \<Rightarrow> bool" where
  "co_inv H S L co \<longleftrightarrow>
     pred_option (agrees (mem_level H S) L) (co_memory co) \<and> pred_option (agrees (disk_level H S) L) (co_disk co)"

text \<open>The coordinator asks its cluster only when it has one and seeds are configured.\<close>

definition co_fetches :: "Coordinator \<Rightarrow> bool" where
  "co_fetches co \<longleftrightarrow> co_cluster co \<noteq> None \<and> cl_seed_nodes (cfg_cluster (co_config co)) \<noteq> []"

text \<open>
  Runs with the values last stored. The file system is reliable (\<^const>\<open>store_sound\<close>): no system call fails
  or is cut short. Values are stored on every level the coordinator has and removed from every level;
  a value the memory cache refuses is stored nowhere; a write that fails on disk after the memory level
  took it is not a step. A new process may find the files of an earlier one. Reads do not go to the
  cluster.
\<close>

inductive co_run :: "hasher \<Rightarrow> Chunk set \<Rightarrow> Coordinator \<Rightarrow> cache_map \<Rightarrow> bool" for H S where
  run_new: "store_sound H S (DiskStore_new (cfg_disk config) base fs) \<Longrightarrow> co_run H S (Coordinator_new config base fs clock) L"
| run_restart: "co_run H S co L \<Longrightarrow> co_disk co = Some dc \<Longrightarrow>
    co_run H S (Coordinator_new config (dc_base dc) (ds_fs (dc_store dc)) clock) L"
| run_start: "co_run H S co L \<Longrightarrow> Coordinator_start co = (r, co') \<Longrightarrow> co_run H S co' L"
| run_stop: "co_run H S co L \<Longrightarrow> co_run H S (Coordinator_stop co) L"
| run_set_cluster: "co_run H S co L \<Longrightarrow> co_run H S (set_cluster cluster co) L"
| run_get: "co_run H S co L \<Longrightarrow> \<not> co_fetches co \<Longrightarrow> Coordinator_get H now ms key ropts co = Some (r, co') \<Longrightarrow> co_run H S co' L"
| run_put: "co_run H S co L \<Longrightarrow> value_ok S v \<Longrightarrow> \<not> wo_no_memory wopts \<Longrightarrow> \<not> wo_no_disk wopts \<Longrightarrow>
    Coordinator_put H now ms key v wopts co = Some (Inr Status_ok, co') \<Longrightarrow> co_run H S co' (L(key \<mapsto> (v, stored_md now wopts v)))"
| run_put_refused: "co_run H S co L \<Longrightarrow> value_ok S v \<Longrightarrow> co_memory co = Some m \<Longrightarrow> \<not> wo_no_memory wopts \<Longrightarrow>
    \<not> Status_is_ok (fst (MemoryCache_put H now key v wopts m)) \<Longrightarrow>
    Coordinator_put H now ms key v wopts co = Some (r, co') \<Longrightarrow> co_run H S co' L"
| run_remove: "co_run H S co L \<Longrightarrow> do_from_memory dopts \<Longrightarrow> do_from_disk dopts \<Longrightarrow>
    Coordinator_remove H ms key dopts co = Some (r, co') \<Longrightarrow> co_run H S co' (L(key := None))"

text \<open>The calls on other nodes change neither level.\<close>

lemma on_key_nodes_frame:
  "on_key_nodes call key co = Some (r, co') \<Longrightarrow>
   co_memory co' = co_memory co \<and> co_disk co' = co_disk co \<and> co_config co' = co_config co"
  by (auto simp: on_key_nodes_def bind_eq_Some_conv split: option.splits)

lemma replicate_put_frame:
  "replicate_put H ms key v opts wrote co = Some (r, co') \<Longrightarrow>
   co_memory co' = co_memory co \<and> co_disk co' = co_disk co \<and> co_config co' = co_config co"
  by (auto simp: replicate_put_def split: if_splits dest: on_key_nodes_frame)

lemma map_sum_Inr: "map_sum f g q = Inr x \<longleftrightarrow> (\<exists>y. q = Inr y \<and> x = g y)"
  by (cases q) auto

lemma replicate_put_wrote: "replicate_put H ms key v opts True co = Some (Inr st, co') \<Longrightarrow> st = Status_ok"
  by (auto simp: replicate_put_def map_sum_Inr split: if_splits)

lemma agrees_mono: "agrees rep L c \<Longrightarrow> L \<subseteq>\<^sub>m L' \<Longrightarrow> agrees rep L' c"
  unfolding agrees_def using map_le_trans by blast

lemma co_inv_new:
  assumes "collision_free H S" and "store_sound H S (DiskStore_new (cfg_disk config) base fs)"
  shows "co_inv H S L (Coordinator_new config base fs clock)"
proof -
  have "agrees (mem_level H S) L (MemoryCache_new cap)" for cap
    using assms(1) MC_rep_new unfolding agrees_def mem_level_def by (intro exI [of _ Map.empty]) simp
  moreover have "agrees (disk_level H S) L (DiskCache_new (cfg_disk config) base fs clock)"
    using assms DC_rep_new unfolding agrees_def disk_level_def by (intro exI [of _ Map.empty]) simp
  ultimately show ?thesis by (simp add: co_inv_def Coordinator_new_def)
qed

lemma co_inv_start:
  assumes "co_inv H S L co" and "Coordinator_start co = (r, co')"
  shows "co_inv H S L co'"
proof -
  have "agrees (disk_level H S) L dc'" if "agrees (disk_level H S) L dc" "DiskCache_start dc = (q, dc')" for q dc dc'
    using that keeps_index_rep start_keeps [of dc] unfolding agrees_def disk_level_def by fastforce
  then show ?thesis
    using assms by (auto simp: co_inv_def Coordinator_start_def MemoryCache_start_def Let_def split: option.splits prod.splits sum.splits)
qed

lemma co_inv_stop: "co_inv H S L co \<Longrightarrow> co_inv H S L (Coordinator_stop co)"
proof -
  have "agrees (mem_level H S) L (MemoryCache_stop m)" if "agrees (mem_level H S) L m" for m
    using that MC_rep_stop unfolding agrees_def mem_level_def by (metis map_le_empty)
  moreover have "DiskCache_stop dc = dc" for dc by (simp add: DiskCache_stop_def save_index_def)
  ultimately show "co_inv H S L co \<Longrightarrow> co_inv H S L (Coordinator_stop co)"
    by (auto simp: co_inv_def Coordinator_stop_def pred_option_def)
qed

text \<open>Reads that stay on this node: what they keep and what a hit means.\<close>

lemma get_from_memory_ok:
  assumes "co_inv H S L co" and "get_from_memory now key opts co = (ans, co')"
  shows "co_inv H S L co'" and "co_cluster co' = co_cluster co \<and> co_config co' = co_config co \<and> co_disk co' = co_disk co"
    and "ans = Some res \<Longrightarrow> is_hit res \<Longrightarrow>
      \<exists>v md. L key = Some (v, md) \<and> \<not> CacheMetadata_is_expired now md \<and> rr_data res = requested_bytes opts v"
    and "ans = Some res \<Longrightarrow> \<not> ro_allow_partial opts \<Longrightarrow> is_hit res"
  using assms memory_level.agrees_get memory_level.agrees_hit
  by (auto simp: get_from_memory_def co_inv_def serves_def split: option.splits if_splits prod.splits)

lemma get_from_disk_ok:
  assumes "co_inv H S L co" and "get_from_disk now key opts co = (ans, co')"
  shows "co_inv H S L co'" and "co_cluster co' = co_cluster co \<and> co_config co' = co_config co"
    and "ans = Some res \<Longrightarrow> is_hit res \<Longrightarrow>
      \<exists>v md. L key = Some (v, md) \<and> \<not> CacheMetadata_is_expired now md \<and> rr_data res = requested_bytes opts v"
    and "ans = Some res \<Longrightarrow> \<not> ro_allow_partial opts \<Longrightarrow> is_hit res"
  using assms disk_level.agrees_get disk_level.agrees_hit
  by (auto simp: get_from_disk_def co_inv_def serves_def split: option.splits if_splits prod.splits)

lemma Coordinator_get_local:
  assumes "co_inv H S L co" and "\<not> co_fetches co" and "Coordinator_get H now ms key opts co = Some (r, co')"
  shows "co_inv H S L co'" and "co_cluster co' = co_cluster co \<and> co_config co' = co_config co"
    and "\<exists>res. r = Inr res \<and> (is_hit res \<longrightarrow>
      (\<exists>v md. L key = Some (v, md) \<and> \<not> CacheMetadata_is_expired now md \<and> rr_data res = requested_bytes opts v))"
proof -
  obtain a1 co1 where m: "get_from_memory now key opts co = (a1, co1)" by fastforce
  obtain a2 co2 where d: "get_from_disk now key opts co1 = (a2, co2)" by fastforce
  note mok = get_from_memory_ok [OF assms(1) m] and dok = get_from_disk_ok [OF get_from_memory_ok(1) [OF assms(1) m] d]
  have c: "get_from_cluster H now ms key opts co2 = Some (Inr ReadResult_new, co2)"
    using assms(2) mok(2) dok(2) by (auto simp: get_from_cluster_def co_fetches_def)
  have "co_inv H S L co' \<and> (co_cluster co' = co_cluster co \<and> co_config co' = co_config co) \<and>
      (\<exists>res. r = Inr res \<and> (is_hit res \<longrightarrow>
        (\<exists>v md. L key = Some (v, md) \<and> \<not> CacheMetadata_is_expired now md \<and> rr_data res = requested_bytes opts v)))"
    using assms(3) m d c mok dok
    by (cases a1; cases a2) (auto simp: Coordinator_get_def is_hit_def ReadResult_new_def)
  then show "co_inv H S L co'" and "co_cluster co' = co_cluster co \<and> co_config co' = co_config co"
    and "\<exists>res. r = Inr res \<and> (is_hit res \<longrightarrow>
      (\<exists>v md. L key = Some (v, md) \<and> \<not> CacheMetadata_is_expired now md \<and> rr_data res = requested_bytes opts v))" by blast+
qed

lemma put_to_memory_ok:
  assumes "co_inv H S L co" and "value_ok S v" and "\<not> wo_no_memory opts"
    and "put_to_memory H now key v opts co = ((st, in_memory), co')"
  shows "co_disk co' = co_disk co \<and> co_cluster co' = co_cluster co \<and> co_config co' = co_config co"
    and "Status_is_ok st \<Longrightarrow> pred_option (agrees (mem_level H S) (L(key \<mapsto> (v, stored_md now opts v)))) (co_memory co')"
    and "\<not> Status_is_ok st \<Longrightarrow> co_inv H S L co'" and "in_memory \<longleftrightarrow> co_memory co \<noteq> None"
proof -
  show "co_disk co' = co_disk co \<and> co_cluster co' = co_cluster co \<and> co_config co' = co_config co"
    and "in_memory \<longleftrightarrow> co_memory co \<noteq> None"
    using assms(3,4) by (auto simp: put_to_memory_def split: option.splits prod.splits)
  have "agrees (mem_level H S) (if Status_is_ok st then L(key \<mapsto> (v, stored_md now opts v)) else L) m'"
    if "co_memory co = Some m" "MemoryCache_put H now key v opts m = (st, m')" for m m'
    using that assms(1,2) memory_level.agrees_put [of H S L m v now key opts "Inr st" m'] by (auto simp: co_inv_def result_ok_def)
  then show "Status_is_ok st \<Longrightarrow> pred_option (agrees (mem_level H S) (L(key \<mapsto> (v, stored_md now opts v)))) (co_memory co')"
    and "\<not> Status_is_ok st \<Longrightarrow> co_inv H S L co'"
    using assms(1,3,4) by (auto simp: put_to_memory_def co_inv_def split: option.splits prod.splits if_splits)
qed

lemma put_to_disk_ok:
  assumes "pred_option (agrees (disk_level H S) L) (co_disk co)" and "value_ok S v" and "\<not> wo_no_disk opts"
    and "put_to_disk H now key v opts co = ((r, on_disk), co')"
  shows "co_memory co' = co_memory co \<and> co_cluster co' = co_cluster co \<and> co_config co' = co_config co"
    and "result_ok r \<Longrightarrow> pred_option (agrees (disk_level H S) (L(key \<mapsto> (v, stored_md now opts v)))) (co_disk co')"
    and "on_disk \<longleftrightarrow> co_disk co \<noteq> None"
proof -
  show "co_memory co' = co_memory co \<and> co_cluster co' = co_cluster co \<and> co_config co' = co_config co"
    and "on_disk \<longleftrightarrow> co_disk co \<noteq> None"
    using assms(3,4) by (auto simp: put_to_disk_def split: option.splits prod.splits)
  show "result_ok r \<Longrightarrow> pred_option (agrees (disk_level H S) (L(key \<mapsto> (v, stored_md now opts v)))) (co_disk co')"
    using assms disk_level.agrees_put(1) by (auto simp: put_to_disk_def split: option.splits prod.splits if_splits)
qed

text \<open>The three ways \<^verbatim>\<open>put\<close> can go once every level may be written.\<close>

lemma Coordinator_put_ok:
  assumes "co_inv H S L co" and "value_ok S v" and "\<not> wo_no_memory opts" and "\<not> wo_no_disk opts"
    and "Coordinator_put H now ms key v opts co = Some (Inr Status_ok, co')"
  shows "co_inv H S (L(key \<mapsto> (v, stored_md now opts v))) co'" and "co_config co' = co_config co"
proof -
  obtain st im co1 where m: "put_to_memory H now key v opts co = ((st, im), co1)" by (metis prod.collapse)
  obtain r od co2 where d: "put_to_disk H now key v opts co1 = ((r, od), co2)" by (metis prod.collapse)
  note mok = put_to_memory_ok [OF assms(1-3) m]
  have disk: "pred_option (agrees (disk_level H S) L) (co_disk co1)" using assms(1) mok(1) by (simp add: co_inv_def)
  note dok = put_to_disk_ok [OF disk assms(2,4) d]
  have ok: "Status_is_ok st" and r: "result_ok r" and rep: "replicate_put H ms key v opts (im \<or> od) co2 = Some (Inr Status_ok, co')"
    using assms(5) m d by (auto simp: Coordinator_put_def result_ok_def split: if_splits sum.splits)
  show "co_inv H S (L(key \<mapsto> (v, stored_md now opts v))) co'" and "co_config co' = co_config co"
    using mok(1) mok(2) [OF ok] dok(1) dok(2) [OF r] replicate_put_frame [OF rep] by (simp_all add: co_inv_def)
qed

lemma co_run_inv:
  assumes "collision_free H S" and "co_run H S co L"
  shows "co_inv H S L co"
  using assms(2)
proof induction
  case (run_restart co L dc config clock)
  then have "DC_rep H S dc A \<Longrightarrow> store_sound H S (DiskStore_new (cfg_disk config) (dc_base dc) (ds_fs (dc_store dc)))" for A
    by (intro store_sound_restart DC_rep_sound)
  then show ?case
    using run_restart co_inv_new [OF assms(1)] by (auto simp: co_inv_def agrees_def disk_level_def)
next
  case (run_put_refused co L v m wopts now key ms r co')
  obtain st im co1 where m: "put_to_memory H now key v wopts co = ((st, im), co1)" by (metis prod.collapse)
  then have "\<not> Status_is_ok st" using run_put_refused by (auto simp: put_to_memory_def split: prod.splits)
  moreover from this have "co' = co1" using run_put_refused m by (simp add: Coordinator_put_def)
  ultimately show ?case using put_to_memory_ok(3) [OF run_put_refused.IH run_put_refused(2,4) m] by simp
next
  case (run_remove co L dopts ms key r co')
  obtain q co1 where l: "remove_local key dopts co = (q, co1)" by fastforce
  have "agrees (mem_level H S) (L(key := None)) (snd (MemoryCache_remove key dopts m))" if "agrees (mem_level H S) L m" for m
    using memory_level.agrees_remove [OF that, of key dopts "Inr (fst (MemoryCache_remove key dopts m))"]
    by (simp add: apfst_def map_prod_def case_prod_unfold)
  then have "co_inv H S (L(key := None)) co1"
    using l run_remove disk_level.agrees_remove
    by (auto simp: remove_local_def co_inv_def Let_def split: option.splits prod.splits)
  moreover have "co_memory co' = co_memory co1 \<and> co_disk co' = co_disk co1"
    using run_remove l by (auto simp: Coordinator_remove_def split: sum.splits if_splits dest: on_key_nodes_frame)
  ultimately show ?case by (simp add: co_inv_def fun_upd_def)
next
  case (run_put co L v wopts now ms key co')
  then show ?case using Coordinator_put_ok(1) by blast
next
  case (run_new config base fs clock L)
  then show ?case by (rule co_inv_new [OF assms(1)])
next
  case (run_start co L r co')
  then show ?case using co_inv_start by blast
next
  case (run_stop co L)
  then show ?case by (intro co_inv_stop)
next
  case (run_set_cluster co L cluster)
  then show ?case by (simp add: co_inv_def set_cluster_def)
next
  case (run_get co L now ms key ropts r co')
  then show ?case using Coordinator_get_local(1) by blast
qed

lemma put_to_memory_succeeds:
  assumes "co_inv H S L co" and "value_ok S v" and "CacheKey_size key \<le> MAX_KEY_SIZE" and "vec_size v \<le> MAX_VALUE_SIZE"
  shows "\<exists>im co'. put_to_memory H now key v opts co = ((Status_ok, im), co')"
proof (cases "co_memory co")
  case (Some m)
  then obtain A where "MC_rep H S m A" using assms(1) by (auto simp: co_inv_def agrees_def mem_level_def)
  then have "\<exists>m'. MemoryCache_put H now key v opts m = (Status_ok, m')"
    using MemoryCache_put_ok [of H S m A v key] assms(2-4) by (auto simp: not_less)
  then show ?thesis using Some by (auto simp: put_to_memory_def)
qed (auto simp: put_to_memory_def)

lemma Coordinator_put_then_get:
  assumes "collision_free H S" and inv: "co_inv H S L co" and "co_disk co = Some dc" and "dirs_ready (dc_store dc)"
    and "value_ok S v" and "v \<noteq> []" and "CacheKey_size key \<le> MAX_KEY_SIZE" and "vec_size v \<le> MAX_VALUE_SIZE"
    and "\<not> wo_no_memory opts" and "\<not> wo_no_disk opts" and "wo_no_cluster opts \<or> co_cluster co = None" and "\<not> co_fetches co"
    and "\<not> CacheMetadata_is_expired later (stored_md now opts v)"
  shows "\<exists>co' res co''. Coordinator_put H now ms key v opts co = Some (Inr Status_ok, co') \<and> co_inv H S (L(key \<mapsto> (v, stored_md now opts v))) co'
       \<and> Coordinator_get H later ms' key (ReadOptions_new\<lparr>ro_allow_partial := False\<rparr>) co' = Some (Inr res, co'')
       \<and> rr_result res = Hit \<and> rr_data res = v"
proof -
  let ?ro = "ReadOptions_new\<lparr>ro_allow_partial := False\<rparr>"
  obtain im co1 where m: "put_to_memory H now key v opts co = ((Status_ok, im), co1)"
    using put_to_memory_succeeds [OF inv assms(5,7,8)] by blast
  note mok = put_to_memory_ok [OF inv assms(5,9) m]
  obtain A where A: "DC_rep H S dc A" using inv assms(3) by (auto simp: co_inv_def agrees_def disk_level_def)
  have rng: "ro_range ?ro = None" by (simp add: ReadOptions_new_def)
  obtain dc' where dc': "DiskCache_put H now key v opts dc = (Inr Status_ok, dc')"
    "rr_result (fst (DiskCache_get later key ?ro dc')) = Hit" "rr_data (fst (DiskCache_get later key ?ro dc')) = v"
    using DiskCache_put_then_get [OF A assms(1,5,6,7,4,13) rng] by blast
  let ?co2 = "co1\<lparr>co_disk := Some dc'\<rparr>"
  have d: "put_to_disk H now key v opts co1 = ((Inr Status_ok, True), ?co2)"
    using dc'(1) mok(1) assms(3,10) by (simp add: put_to_disk_def)
  have "replicate_put H ms key v opts (im \<or> True) ?co2 = Some (Inr Status_ok, ?co2)"
    using assms(11) mok(1) by (auto simp: replicate_put_def on_key_nodes_def)
  then have put: "Coordinator_put H now ms key v opts co = Some (Inr Status_ok, ?co2)"
    using m d by (simp add: Coordinator_put_def)
  have inv2: "co_inv H S (L(key \<mapsto> (v, stored_md now opts v))) ?co2" using Coordinator_put_ok(1) [OF inv assms(5,9,10) put] .
  have bytes: "requested_bytes ?ro v = v"
    using value_ok_fits [OF assms(5)] by (simp add: requested_bytes_def requested_range_def rng unat_vec_size)
  obtain ans co3 where g: "get_from_memory later key ?ro ?co2 = (ans, co3)" by fastforce
  note gok = get_from_memory_ok [OF inv2 g]
  show ?thesis
  proof (cases ans)
    case (Some res)
    then have "Coordinator_get H later ms' key ?ro ?co2 = Some (Inr res, co3)" using g by (simp add: Coordinator_get_def)
    moreover have "is_hit res" using gok(4) [OF Some] by (simp add: ReadOptions_new_def)
    ultimately show ?thesis using put inv2 gok(3) [OF Some] bytes by (auto simp: is_hit_def)
  next
    case None
    obtain res dc'' where r: "DiskCache_get later key ?ro dc' = (res, dc'')" by fastforce
    then have "get_from_disk later key ?ro co3 = (Some res, co3\<lparr>co_disk := Some dc''\<rparr>)"
      using gok(2) dc'(2) by (simp add: get_from_disk_def serves_def is_hit_def)
    then have "Coordinator_get H later ms' key ?ro ?co2 = Some (Inr res, co3\<lparr>co_disk := Some dc''\<rparr>)"
      using g None by (simp add: Coordinator_get_def)
    then show ?thesis using put inv2 dc'(2,3) r by simp
  qed
qed

section \<open>Properties\<close>

text \<open>
  C1. On a reliable file system, where no system call fails or is cut short, the coordinator never
  serves stale or foreign bytes from its own levels. After any run in which values are stored with
  success on all levels and removed from all levels, with evictions, restarts and values refused by
  the memory level in between, and in which reads do not go to the cluster, a hit carries exactly the
  requested bytes of the value last stored under the key, which has not expired. The chunk hash is
  assumed to tell the stored chunks apart.
\<close>

theorem coordinator_hit_sound:
  assumes "collision_free H S" and "co_run H S co L" and "\<not> co_fetches co"
    and "Coordinator_get H now ms key opts co = Some (r, co')"
  shows "\<exists>res. r = Inr res \<and> (is_hit res \<longrightarrow>
      (\<exists>v md. L key = Some (v, md) \<and> \<not> CacheMetadata_is_expired now md \<and> rr_data res = requested_bytes opts v))"
  using Coordinator_get_local(3) [OF co_run_inv [OF assms(1,2)] assms(3,4)] .

text \<open>
  C2. What the coordinator stored it serves to a reader who wants the whole value. After a run as in
  the property before, with a disk level whose directories exist, a \<^verbatim>\<open>put\<close> on both local levels, not
  replicated, of a key and a non-empty value within the limits succeeds, and the next \<^verbatim>\<open>get\<close> of the whole
  value before its expiry with \<^verbatim>\<open>allow_partial\<close> off is a \<^verbatim>\<open>Hit\<close> with the same bytes, however much of it the
  memory level has evicted. With \<^verbatim>\<open>allow_partial\<close> on, the default, a memory level that has evicted some
  of the chunks may answer with the rest.
\<close>

theorem coordinator_put_get:
  assumes "collision_free H S" and "co_run H S co L" and "co_disk co = Some dc" and "dirs_ready (dc_store dc)"
    and "value_ok S v" and "v \<noteq> []" and "CacheKey_size key \<le> MAX_KEY_SIZE" and "vec_size v \<le> MAX_VALUE_SIZE"
    and "\<not> wo_no_memory opts" and "\<not> wo_no_disk opts" and "wo_no_cluster opts \<or> co_cluster co = None" and "\<not> co_fetches co"
    and "\<not> CacheMetadata_is_expired later (stored_md now opts v)"
  shows "\<exists>co' res co''. Coordinator_put H now ms key v opts co = Some (Inr Status_ok, co')
       \<and> Coordinator_get H later ms' key (ReadOptions_new\<lparr>ro_allow_partial := False\<rparr>) co' = Some (Inr res, co'')
       \<and> rr_result res = Hit \<and> rr_data res = v"
  using Coordinator_put_then_get [OF assms(1) co_run_inv [OF assms(1,2)] assms(3-13)] by blast

text \<open>A coordinator with the default configuration on an empty disk, started.\<close>

abbreviation fresh_coordinator :: Coordinator where
  "fresh_coordinator \<equiv> snd (Coordinator_start (Coordinator_new Config_new [''c''] \<lparr>fs_files = [], fs_dirs = [], fs_script = []\<rparr> int))"

lemma fresh_coordinator_run: "co_run H S fresh_coordinator Map.empty"
proof -
  have "store_sound H S (DiskStore_new (cfg_disk Config_new) [''c''] \<lparr>fs_files = [], fs_dirs = [], fs_script = []\<rparr>)"
    by (simp add: store_sound_def chunks_sound_def store_chunk_def reliable_def DiskStore_new_def)
  from co_run.run_start [OF co_run.run_new [OF this, of int]] show ?thesis by (metis prod.collapse)
qed

lemma fresh_coordinator_facts:
  "co_disk fresh_coordinator = Some fresh_disk" "co_cluster fresh_coordinator = None" "co_config fresh_coordinator = Config_new"
  "co_memory fresh_coordinator = Some (MemoryCache_new (mem_max_size MemoryCacheConfig_new))"
  by (simp_all add: Coordinator_start_def Coordinator_new_def MemoryCache_start_def Config_new_def DiskCacheConfig_new_def
      MemoryCacheConfig_new_def Let_def split: prod.splits sum.splits)

lemma small_request_ok:
  "CacheKey_size (CacheKey_new H ''k'') \<le> MAX_KEY_SIZE" "vec_size ([1, 2, 3] :: byte list) \<le> MAX_VALUE_SIZE"
  "\<not> CacheMetadata_is_expired later (stored_md now WriteOptions_new v)"
  by (simp_all add: MAX_KEY_SIZE_def MAX_VALUE_SIZE_def CacheKey_size_def CacheKey_new_def vec_size_def
        CacheMetadata_is_expired_def new_metadata_def expiry_def WriteOptions_new_def)

theorem coordinator_put_get_witness:
  "\<exists>co' res co''. Coordinator_put fnv_hasher 0 0 (CacheKey_new fnv_hasher ''k'') [1, 2, 3] WriteOptions_new fresh_coordinator = Some (Inr Status_ok, co')
     \<and> Coordinator_get fnv_hasher 5 0 (CacheKey_new fnv_hasher ''k'') (ReadOptions_new\<lparr>ro_allow_partial := False\<rparr>) co' = Some (Inr res, co'')
     \<and> rr_result res = Hit \<and> rr_data res = [1, 2, 3]"
  by (rule coordinator_put_get [OF collision_free_singleton fresh_coordinator_run fresh_coordinator_facts(1) fresh_disk_ready small_value_ok])
     (simp_all add: fresh_coordinator_facts co_fetches_def small_request_ok, simp_all add: WriteOptions_new_def)

theorem coordinator_hit_sound_witness:
  "\<exists>co1 res co2. Coordinator_put fnv_hasher 0 0 (CacheKey_new fnv_hasher ''k'') [1, 2, 3] WriteOptions_new fresh_coordinator = Some (Inr Status_ok, co1)
     \<and> Coordinator_get fnv_hasher 5 0 (CacheKey_new fnv_hasher ''k'') (ReadOptions_new\<lparr>ro_allow_partial := False\<rparr>) co1 = Some (Inr res, co2)
     \<and> is_hit res \<and> rr_data res = requested_bytes (ReadOptions_new\<lparr>ro_allow_partial := False\<rparr>) [1, 2, 3]"
proof -
  let ?v = "[1, 2, 3] :: byte list" and ?k = "CacheKey_new fnv_hasher ''k''" and ?ro = "ReadOptions_new\<lparr>ro_allow_partial := False\<rparr>"
  note cf = collision_free_singleton [of fnv_hasher ?v]
  have ok: "value_ok {?v} ?v" by (rule small_value_ok) simp
  have w: "\<not> wo_no_memory WriteOptions_new" "\<not> wo_no_disk WriteOptions_new" by (simp_all add: WriteOptions_new_def)
  obtain co1 res co2 where p: "Coordinator_put fnv_hasher 0 0 ?k ?v WriteOptions_new fresh_coordinator = Some (Inr Status_ok, co1)"
    and g: "Coordinator_get fnv_hasher 5 0 ?k ?ro co1 = Some (Inr res, co2)" "rr_result res = Hit"
    using Coordinator_put_then_get [OF cf co_run_inv [OF cf fresh_coordinator_run] fresh_coordinator_facts(1) fresh_disk_ready ok _ small_request_ok(1,2) w _ _ small_request_ok(3)]
    by (force simp: fresh_coordinator_facts co_fetches_def)
  have run: "co_run fnv_hasher {?v} co1 [?k \<mapsto> (?v, stored_md 0 WriteOptions_new ?v)]"
    using co_run.run_put [OF fresh_coordinator_run ok w p] .
  have "co_cluster co1 = None"
    using p by (auto simp: Coordinator_put_def put_to_memory_def put_to_disk_def replicate_put_def on_key_nodes_def fresh_coordinator_facts
        split: prod.splits if_splits sum.splits)
  then have "\<not> co_fetches co1" by (simp add: co_fetches_def)
  from coordinator_hit_sound [OF cf run this g(1)] show ?thesis using p g by (auto simp: is_hit_def)
qed

lemma vec_size_length: "CHUNK_SIZE \<le> vec_size xs \<Longrightarrow> CS \<le> length xs"
  unfolding word_le_nat_alt vec_size_def unat_of_nat by (erule order_trans) (rule mod_less_eq_dividend)

lemma drain_facts:
  assumes "drain buffer chunks = (buffer', chunks')"
  shows "concat chunks' @ buffer' = concat chunks @ buffer" and "vec_size buffer' < CHUNK_SIZE"
    and "\<forall>c\<in>set chunks. length c = CS \<Longrightarrow> \<forall>c\<in>set chunks'. length c = CS"
proof -
  have "drain buffer chunks = (buffer', chunks') \<longrightarrow>
      concat chunks' @ buffer' = concat chunks @ buffer \<and> vec_size buffer' < CHUNK_SIZE
      \<and> ((\<forall>c\<in>set chunks. length c = CS) \<longrightarrow> (\<forall>c\<in>set chunks'. length c = CS))"
  proof (induction buffer chunks rule: drain.induct)
    case (1 buffer chunks)
    show ?case
    proof (cases "CHUNK_SIZE \<le> vec_size buffer")
      case True
      have "length (take CS buffer) = CS" using vec_size_length [OF True] by simp
      moreover have "drain buffer chunks = drain (drop CS buffer) (chunks @ [take CS buffer])"
        using True by (subst drain.simps) simp
      moreover have "concat (chunks @ [take CS buffer]) @ drop CS buffer = concat chunks @ buffer" by simp
      ultimately show ?thesis using 1 [OF True] by (metis UnE empty_iff empty_set insertE list.simps(15) set_append)
    next
      case False
      then have "drain buffer chunks = (buffer, chunks)" by (subst drain.simps) simp
      then show ?thesis using False by auto
    qed
  qed
  then show "concat chunks' @ buffer' = concat chunks @ buffer" "vec_size buffer' < CHUNK_SIZE"
    "\<forall>c\<in>set chunks. length c = CS \<Longrightarrow> \<forall>c\<in>set chunks'. length c = CS" using assms by blast+
qed

definition write_pieces :: "byte list list \<Rightarrow> WriteStream \<Rightarrow> WriteStream" where
  "write_pieces pieces ws = fold (\<lambda>p ws. snd (ws_write p ws)) pieces ws"

lemma write_pieces_facts:
  assumes "vec_size (ws_buffer ws) < CHUNK_SIZE" and "\<forall>c\<in>set (ws_chunks ws). length c = CS" and "write_pieces pieces ws = ws'"
  shows "concat (ws_chunks ws') @ ws_buffer ws' = concat (ws_chunks ws) @ ws_buffer ws @ concat pieces
    \<and> vec_size (ws_buffer ws') < CHUNK_SIZE \<and> (\<forall>c\<in>set (ws_chunks ws'). length c = CS)
    \<and> ws_key ws' = ws_key ws \<and> ws_opts ws' = ws_opts ws"
  using assms
proof (induction pieces arbitrary: ws)
  case (Cons p pieces)
  obtain buffer chunks where d: "drain (ws_buffer ws @ p) (ws_chunks ws) = (buffer, chunks)" by fastforce
  note f = drain_facts [OF d]
  define ws1 where "ws1 = snd (ws_write p ws)"
  have ws1: "ws_buffer ws1 = buffer" "ws_chunks ws1 = chunks" "ws_key ws1 = ws_key ws" "ws_opts ws1 = ws_opts ws"
    using d by (simp_all add: ws1_def ws_write_def)
  have "write_pieces pieces ws1 = ws'" using Cons.prems(3) by (simp add: write_pieces_def ws1_def)
  note IH = Cons.IH [OF _ _ this, unfolded ws1, OF f(2) f(3) [OF Cons.prems(2)]]
  have "concat chunks @ buffer @ concat pieces = concat (ws_chunks ws) @ ws_buffer ws @ concat (p # pieces)"
    using arg_cong [OF f(1), of "\<lambda>xs. xs @ concat pieces"] by simp
  then show ?case using IH by simp
qed (simp add: write_pieces_def)

text \<open>
  C11. Writing through a stream is writing at once: whatever pieces the value arrives in, \<^verbatim>\<open>finish\<close> does
  exactly what \<^verbatim>\<open>put\<close> of the whole value does. Until then the stream holds full chunks and less than
  one chunk of buffered bytes.
\<close>

theorem write_stream_is_put:
  "fst (ws_finish H now ms (write_pieces pieces (create_write_stream key n opts)) co) = Coordinator_put H now ms key (concat pieces) opts co
   \<and> vec_size (ws_buffer (write_pieces pieces (create_write_stream key n opts))) < CHUNK_SIZE
   \<and> list_all (\<lambda>c. length c = CS) (ws_chunks (write_pieces pieces (create_write_stream key n opts)))"
proof -
  have new: "vec_size (ws_buffer (create_write_stream key n opts)) < CHUNK_SIZE" "\<forall>c\<in>set (ws_chunks (create_write_stream key n opts)). length c = CS"
    by (simp_all add: create_write_stream_def vec_size_def CHUNK_SIZE_def)
  obtain ws where ws: "write_pieces pieces (create_write_stream key n opts) = ws" by blast
  note f = write_pieces_facts [OF new ws]
  have "concat (if ws_buffer ws = [] then ws_chunks ws else ws_chunks ws @ [ws_buffer ws]) = concat pieces"
    using f by (auto simp: create_write_stream_def)
  then show ?thesis
    unfolding ws using f by (auto simp: ws_finish_def Let_def create_write_stream_def list_all_iff)
qed

fun read_pieces :: "u64 list \<Rightarrow> ReadStream \<Rightarrow> byte list list \<times> ReadStream" where
  "read_pieces [] rs = ([], rs)"
| "read_pieces (n # ns) rs =
     (case rs_read n rs of (out, rs1) \<Rightarrow> (case read_pieces ns rs1 of (outs, rs2) \<Rightarrow> (out # outs, rs2)))"

lemma read_pieces_from:
  assumes "fits (rs_data rs)" and "rs_position rs \<le> vec_size (rs_data rs)" and "read_pieces ns rs = (outs, rs')"
  shows "concat outs = take (sum_list (map unat ns)) (drop (unat (rs_position rs)) (rs_data rs))
       \<and> (rs_eof rs' \<longleftrightarrow> length (rs_data rs) \<le> unat (rs_position rs) + sum_list (map unat ns))"
  using assms
proof (induction ns arbitrary: rs outs)
  case Nil
  then show ?case by (auto simp: rs_eof_def word_le_nat_alt unat_vec_size)
next
  case (Cons n ns)
  let ?d = "rs_data rs" and ?k = "min n (vec_size (rs_data rs) - rs_position rs)"
  let ?rs = "rs\<lparr>rs_position := rs_position rs + ?k\<rparr>"
  obtain outs2 where r: "read_pieces ns ?rs = (outs2, rs')" and outs: "outs = take (unat ?k) (drop (unat (rs_position rs)) ?d) # outs2"
    using Cons.prems(3) by (auto simp: rs_read_def Let_def split: prod.splits)
  have sub: "unat (vec_size ?d - rs_position rs) = length ?d - unat (rs_position rs)"
    using Cons.prems(1,2) by (simp add: unat_sub unat_vec_size)
  have k: "unat ?k = min (unat n) (length ?d - unat (rs_position rs))"
    using sub by (auto simp: min_def word_le_nat_alt)
  have pos: "unat (rs_position rs) \<le> length ?d" using Cons.prems(1,2) by (simp add: word_le_nat_alt unat_vec_size)
  have "unat (rs_position rs) + unat ?k < 2 ^ 64" using k pos Cons.prems(1) by simp
  then have sum: "unat (rs_position rs + ?k) = unat (rs_position rs) + unat ?k" by (simp add: unat_word_ariths)
  have le: "rs_position ?rs \<le> vec_size (rs_data ?rs)" using sum k pos Cons.prems(1) by (simp add: word_le_nat_alt unat_vec_size)
  from Cons.IH [OF _ le r] Cons.prems(1) have
    "concat outs2 = take (sum_list (map unat ns)) (drop (unat (rs_position rs) + unat ?k) ?d)"
    "rs_eof rs' \<longleftrightarrow> length ?d \<le> unat (rs_position rs) + unat ?k + sum_list (map unat ns)"
    using sum by simp_all
  then show ?case
    using outs k pos by (auto simp: take_add drop_drop min_def ac_simps)
qed

text \<open>
  Reading through a stream is reading at once: reads with any sizes return, one after the other,
  consecutive parts of the value, and the stream is at its end exactly when the sizes reach its length.
\<close>

theorem read_stream_reads_all:
  assumes "create_read_stream H now ms key opts co = Some (Inr (Some rs), co')" and "fits (rs_data rs)"
    and "read_pieces ns rs = (outs, rs')"
  shows "\<exists>res. Coordinator_get H now ms key opts co = Some (Inr res, co') \<and> rr_result res \<noteq> Miss
       \<and> concat outs = take (sum_list (map unat ns)) (rr_data res)
       \<and> (rs_eof rs' \<longleftrightarrow> length (rr_data res) \<le> sum_list (map unat ns))"
proof -
  obtain res where g: "Coordinator_get H now ms key opts co = Some (Inr res, co')" "rr_result res \<noteq> Miss"
    "rs_data rs = rr_data res" "rs_position rs = 0"
    using assms(1) by (auto simp: create_read_stream_def map_sum_Inr split: if_splits)
  then show ?thesis using read_pieces_from [OF assms(2) _ assms(3)] by simp
qed

lemma put_without_memory:
  assumes "wo_no_memory opts" and "Coordinator_put H now ms key v opts co = Some (r, co')"
  shows "co_memory co' = co_memory co \<and> co_config co' = co_config co"
proof -
  have "put_to_memory H now key v opts co = ((Status_ok, False), co)"
    using assms(1) by (simp add: put_to_memory_def split: option.split)
  moreover obtain q od co1 where d: "put_to_disk H now key v opts co = ((q, od), co1)" by (metis prod.collapse)
  moreover have "co_memory co1 = co_memory co \<and> co_config co1 = co_config co"
    using d by (auto simp: put_to_disk_def split: option.splits if_splits prod.splits)
  ultimately show ?thesis
    using assms(2) by (auto simp: Coordinator_put_def split: sum.splits if_splits dest!: replicate_put_frame)
qed

text \<open>
  A write that bypasses the memory level is not seen: when the memory level holds the key, \<^verbatim>\<open>put\<close> of
  another value with \<^verbatim>\<open>no_memory\<close> succeeds or fails on disk only, and \<^verbatim>\<open>get\<close> keeps answering with the old
  value.
\<close>

theorem bypassing_write_is_hidden:
  assumes "co_memory co = Some m" and "cl_prefer_local (cfg_cluster (co_config co))"
    and "MemoryCache_get later key ropts m = (res, m')" and "is_hit res"
    and "wo_no_memory opts" and "Coordinator_put H now ms key v opts co = Some (r, co')"
  shows "Coordinator_get H later ms' key ropts co' = Some (Inr res, co'\<lparr>co_memory := Some m'\<rparr>)"
  using put_without_memory [OF assms(5,6)] assms(1-4) by (simp add: Coordinator_get_def get_from_memory_def serves_def)

text \<open>
  C34. A range fetched from another node becomes the whole value. When a read of a range is answered by
  another node, the bytes of the range are stored in the memory level under the key as if they were
  the value: the next read of the whole value answers \<^verbatim>\<open>Hit\<close> with the range alone.
\<close>

theorem fetched_range_becomes_value:
  assumes "collision_free H S" and "co_memory co = Some m" and "MC_rep H S m A" and "nid \<noteq> clu_local c"
    and "remote_get H ms nid key opts c = Some (Inr res, c')" and "is_hit res"
    and "value_ok S (rr_data res)" and "rr_data res \<noteq> []"
    and "CacheKey_size key \<le> MAX_KEY_SIZE" and "vec_size (rr_data res) \<le> MAX_VALUE_SIZE"
    and "mc_bytes m + length (rr_data res) \<le> unat (mc_capacity m)"
  shows "\<exists>m'. fetch_loop H now ms key opts (nid # nids) ReadResult_new c co
         = Some (Inr res, co\<lparr>co_cluster := Some c', co_memory := Some m'\<rparr>)
       \<and> rr_result (fst (MemoryCache_get later key ReadOptions_new m')) = Hit
       \<and> rr_data (fst (MemoryCache_get later key ReadOptions_new m')) = rr_data res"
proof -
  let ?wo = "WriteOptions_new\<lparr>wo_no_cluster := True\<rparr>"
  have "\<not> CacheMetadata_is_expired later (stored_md now ?wo (rr_data res))"
    by (simp add: CacheMetadata_is_expired_def new_metadata_def expiry_def WriteOptions_new_def)
  moreover have "ro_range ReadOptions_new = None" by (simp add: ReadOptions_new_def)
  ultimately obtain m' where "MemoryCache_put H now key (rr_data res) ?wo m = (Status_ok, m')"
    "rr_result (fst (MemoryCache_get later key ReadOptions_new m')) = Hit"
    "rr_data (fst (MemoryCache_get later key ReadOptions_new m')) = rr_data res"
    using MemoryCache_put_then_get [OF assms(3,1,7,8,9,10,11)] by blast
  then show ?thesis using assms(2,4,5,6,8) by (intro exI [of _ m']) simp
qed

text \<open>Examples for the properties above: a stored value, and a node whose peer answers one request.\<close>

lemma example_stored:
  "\<exists>co1 res co2. Coordinator_put fnv_hasher 0 0 (CacheKey_new fnv_hasher ''k'') [1, 2, 3] WriteOptions_new fresh_coordinator = Some (Inr Status_ok, co1)
     \<and> Coordinator_get fnv_hasher 5 0 (CacheKey_new fnv_hasher ''k'') (ReadOptions_new\<lparr>ro_allow_partial := False\<rparr>) co1 = Some (Inr res, co2)
     \<and> rr_result res = Hit \<and> rr_data res = [1, 2, 3]"
proof -
  let ?v = "[1, 2, 3] :: byte list"
  note cf = collision_free_singleton [of fnv_hasher ?v]
  have ok: "value_ok {?v} ?v" by (rule small_value_ok) simp
  have w: "\<not> wo_no_memory WriteOptions_new" "\<not> wo_no_disk WriteOptions_new" by (simp_all add: WriteOptions_new_def)
  show ?thesis
    using Coordinator_put_then_get [OF cf co_run_inv [OF cf fresh_coordinator_run] fresh_coordinator_facts(1) fresh_disk_ready ok _ small_request_ok(1,2) w _ _ small_request_ok(3)]
    by (force simp: fresh_coordinator_facts co_fetches_def)
qed

theorem read_stream_reads_all_witness:
  "\<exists>co1 rs co2 outs rs'. Coordinator_put fnv_hasher 0 0 (CacheKey_new fnv_hasher ''k'') [1, 2, 3] WriteOptions_new fresh_coordinator = Some (Inr Status_ok, co1)
     \<and> create_read_stream fnv_hasher 5 0 (CacheKey_new fnv_hasher ''k'') (ReadOptions_new\<lparr>ro_allow_partial := False\<rparr>) co1 = Some (Inr (Some rs), co2)
     \<and> read_pieces [2, 2] rs = (outs, rs') \<and> concat outs = [1, 2, 3] \<and> rs_eof rs'"
proof -
  let ?k = "CacheKey_new fnv_hasher ''k''" and ?ro = "ReadOptions_new\<lparr>ro_allow_partial := False\<rparr>"
  obtain co1 res co2 where p: "Coordinator_put fnv_hasher 0 0 ?k [1, 2, 3] WriteOptions_new fresh_coordinator = Some (Inr Status_ok, co1)"
    and g: "Coordinator_get fnv_hasher 5 0 ?k ?ro co1 = Some (Inr res, co2)" "rr_result res = Hit" "rr_data res = [1, 2, 3]"
    using example_stored by blast
  obtain rs where s: "create_read_stream fnv_hasher 5 0 ?k ?ro co1 = Some (Inr (Some rs), co2)" "rs_data rs = [1, 2, 3]"
    using g by (simp add: create_read_stream_def)
  obtain outs rs' where r: "read_pieces [2, 2] rs = (outs, rs')" by fastforce
  have "fits (rs_data rs)" using s(2) by simp
  from read_stream_reads_all [OF s(1) this r] have "concat outs = [1, 2, 3]" "rs_eof rs'"
    using g by simp_all
  then show ?thesis using p s r by blast
qed

theorem bypassing_write_is_hidden_witness:
  "\<exists>m r co' co''. Coordinator_put fnv_hasher 0 0 (CacheKey_new fnv_hasher ''k'') [9] (WriteOptions_new\<lparr>wo_no_memory := True\<rparr>)
         (fresh_coordinator\<lparr>co_memory := Some m\<rparr>) = Some (r, co')
     \<and> Coordinator_get fnv_hasher 5 0 (CacheKey_new fnv_hasher ''k'') ReadOptions_new co'
         = Some (Inr (fst (MemoryCache_get 5 (CacheKey_new fnv_hasher ''k'') ReadOptions_new m)), co'')
     \<and> rr_data (fst (MemoryCache_get 5 (CacheKey_new fnv_hasher ''k'') ReadOptions_new m)) = [1, 2, 3]"
proof -
  let ?v = "[1, 2, 3] :: byte list" and ?k = "CacheKey_new fnv_hasher ''k''" and ?wo = "WriteOptions_new\<lparr>wo_no_memory := True\<rparr>"
  have ok: "value_ok {?v} ?v" by (rule small_value_ok) simp
  have "mc_bytes (MemoryCache_new 1000) + length ?v \<le> unat (mc_capacity (MemoryCache_new 1000))" "ro_range ReadOptions_new = None"
    by (simp_all add: MemoryCache_new_def ARCCache_new_def ARCCache_bytes_def arc_bytes_def ReadOptions_new_def)
  then obtain m where hit: "is_hit (fst (MemoryCache_get 5 ?k ReadOptions_new m))"
    and data: "rr_data (fst (MemoryCache_get 5 ?k ReadOptions_new m)) = ?v"
    using MemoryCache_put_then_get [OF MC_rep_new [of fnv_hasher _ 1000] collision_free_singleton ok _ small_request_ok(1) [of fnv_hasher]
        small_request_ok(2) _ small_request_ok(3) [of 5 0], of ReadOptions_new]
    by (auto simp: is_hit_def)
  let ?co = "fresh_coordinator\<lparr>co_memory := Some m\<rparr>"
  have "\<exists>r co'. Coordinator_put fnv_hasher 0 0 ?k [9] ?wo ?co = Some (r, co')"
    by (auto simp: Coordinator_put_def put_to_memory_def put_to_disk_def replicate_put_def on_key_nodes_def fresh_coordinator_facts
        split: prod.splits sum.splits option.splits)
  then obtain r co' where p: "Coordinator_put fnv_hasher 0 0 ?k [9] ?wo ?co = Some (r, co')" by blast
  have local: "cl_prefer_local (cfg_cluster (co_config ?co))"
    by (simp add: fresh_coordinator_facts) (simp add: Config_new_def ClusterConfig_new_def)
  obtain res m' where g: "MemoryCache_get 5 ?k ReadOptions_new m = (res, m')" by fastforce
  have h: "is_hit res" and res: "fst (MemoryCache_get 5 ?k ReadOptions_new m) = res" using hit g by simp_all
  have "co_memory ?co = Some m" "wo_no_memory ?wo" by simp_all
  from bypassing_write_is_hidden [OF this(1) local g h this(2) p]
  have "Coordinator_get fnv_hasher 5 0 ?k ReadOptions_new co' = Some (Inr res, co'\<lparr>co_memory := Some m'\<rparr>)" .
  then show ?thesis using p data res by blast
qed

definition answering_peer :: "Message \<Rightarrow> Cluster" where
  "answering_peer answer =
     (node_alone 1)\<lparr>clu_nodes := [(NodeId 2, \<lparr>cn_info = local_info Config_new (NodeId 2) 0 0, cn_connection = Some 0\<rparr>)],
                    clu_conns := [Connection_new [encode 5 answer 0] [1000]]\<rparr>"

lemma send_loop_once: "data \<noteq> [] \<Longrightarrow> length data \<le> w \<Longrightarrow> send_loop data (w # ws) out = (True, ws, out @ data)"
  by (cases data) auto

lemma encode_nonempty: "encode now m rid \<noteq> []"
proof -
  have "length (encode now m rid) \<noteq> 0" by (simp add: encode_split HEADER_SIZE_def del: length_0_conv)
  then show ?thesis by simp
qed

lemma answering_peer_rpc:
  assumes "frame_ok H answer" and "length (encode ms request 0) \<le> 1000"
  shows "\<exists>c'. rpc H ms (NodeId 2) request (answering_peer answer) = Some (Inr (Rpc_response (on_wire answer)), c')"
proof -
  let ?conn = "(Connection_new [encode 5 answer 0] [])\<lparr>conn_out := encode ms request 0\<rparr>"
  have "segments_ok (conn_in ?conn)" "concat (conn_in ?conn) = encode 5 answer 0 @ []" "\<not> conn_recv_locked ?conn"
    using encode_nonempty [of 5 answer 0] by (simp_all add: Connection_new_def segments_ok_def)
  then obtain segs where "Connection_receive H ?conn = Some (Inr (Some (on_wire answer)), ?conn\<lparr>conn_in := segs\<rparr>)"
    using receive_message [OF _ _ assms(1)] by blast
  moreover have "Connection_send ms request (Connection_new [encode 5 answer 0] [1000]) = (Status_ok, ?conn)"
    using send_loop_once [OF encode_nonempty assms(2)] by (simp add: Connection_send_def Connection_new_def)
  ultimately show ?thesis
    by (simp add: rpc_def ensure_connection_def answering_peer_def send_on_def receive_on_def) (simp add: Connection_new_def)
qed

theorem fetched_range_becomes_value_witness:
  "\<exists>res co'. fetch_loop fnv_hasher 0 0 (CacheKey_new fnv_hasher ''k'') (ReadOptions_new\<lparr>ro_range := Some \<lparr>r_offset = 10, r_length = 1\<rparr>\<rparr>)
         [NodeId 2] ReadResult_new (answering_peer (GetResponseMessage Hit None [7] \<lparr>r_offset = 10, r_length = 1\<rparr>))
         \<lparr>co_config = Config_new, co_memory = Some (MemoryCache_new 1000), co_disk = None, co_cluster = None\<rparr> = Some (Inr res, co')
     \<and> rr_actual_range res = \<lparr>r_offset = 10, r_length = 1\<rparr>
     \<and> (\<exists>m'. co_memory co' = Some m' \<and> rr_result (fst (MemoryCache_get 5 (CacheKey_new fnv_hasher ''k'') ReadOptions_new m')) = Hit
          \<and> rr_data (fst (MemoryCache_get 5 (CacheKey_new fnv_hasher ''k'') ReadOptions_new m')) = [7])"
proof -
  let ?r = "\<lparr>r_offset = 10, r_length = 1\<rparr>" and ?k = "CacheKey_new fnv_hasher ''k''"
  let ?ro = "ReadOptions_new\<lparr>ro_range := Some ?r\<rparr>" and ?a = "GetResponseMessage Hit None [7] ?r"
  let ?co = "\<lparr>co_config = Config_new, co_memory = Some (MemoryCache_new 1000), co_disk = None, co_cluster = None\<rparr>"
  let ?res = "\<lparr>rr_result = Hit, rr_data = [7], rr_actual_range = ?r, rr_metadata = None\<rparr>"
  have fr: "frame_ok fnv_hasher ?a"
    by (simp add: frame_ok_def CacheResult_cast_def encode_optional_def encode_range_def encode_bytes_def)
  have len: "length (encode 0 (GetMessage ?k False (Some ?r)) 0) \<le> 1000"
    by (simp add: encode_split HEADER_SIZE_def encode_string_def encode_optional_def encode_range_def encode_flag_def)
  obtain c' where "rpc fnv_hasher 0 (NodeId 2) (GetMessage ?k False (Some ?r)) (answering_peer ?a) = Some (Inr (Rpc_response ?a), c')"
    using answering_peer_rpc [OF fr len] by auto
  then have rg: "remote_get fnv_hasher 0 (NodeId 2) ?k ?ro (answering_peer ?a) = Some (Inr ?res, c')"
    by (simp add: remote_get_def map_rpc_def)
  have ok: "value_ok {[7]} [7]" by (rule small_value_ok) simp
  have small: "vec_size [7 :: byte] \<le> MAX_VALUE_SIZE" "mc_bytes (MemoryCache_new 1000) + length [7 :: byte] \<le> unat (mc_capacity (MemoryCache_new 1000))"
    by (simp_all add: MAX_VALUE_SIZE_def vec_size_def MemoryCache_new_def ARCCache_new_def ARCCache_bytes_def arc_bytes_def)
  have local: "NodeId 2 \<noteq> clu_local (answering_peer ?a)" by (simp add: answering_peer_def Cluster_new_def)
  have hyps: "co_memory ?co = Some (MemoryCache_new 1000)" "is_hit ?res" "value_ok {[7]} (rr_data ?res)" "rr_data ?res \<noteq> []"
      "vec_size (rr_data ?res) \<le> MAX_VALUE_SIZE"
      "mc_bytes (MemoryCache_new 1000) + length (rr_data ?res) \<le> unat (mc_capacity (MemoryCache_new 1000))"
    using ok small by (simp_all add: is_hit_def)
  obtain m' where m': "fetch_loop fnv_hasher 0 0 ?k ?ro [NodeId 2] ReadResult_new (answering_peer ?a) ?co
        = Some (Inr ?res, ?co\<lparr>co_cluster := Some c', co_memory := Some m'\<rparr>)"
    "rr_result (fst (MemoryCache_get 5 ?k ReadOptions_new m')) = Hit" "rr_data (fst (MemoryCache_get 5 ?k ReadOptions_new m')) = rr_data ?res"
    using fetched_range_becomes_value [OF collision_free_singleton hyps(1) MC_rep_new local rg hyps(2-4) small_request_ok(1) hyps(5,6)]
    by blast
  show ?thesis by (intro exI conjI, rule m'(1)) (use m'(2,3) in simp_all)
qed

end
