(* ===== verification/Unix_Server.thy ===== *)
theory Unix_Server
  imports Connection Sparse_Cache
begin

text \<open>
  The server for local clients: \<^verbatim>\<open>src/include/elcache/unix_server.hpp\<close> and
  \<^verbatim>\<open>src/src/network/unix_server.cpp\<close>. A socket is what its reads will return, cut into segments, the
  counts its writes will accept, and the bytes written so far. The server keeps two global maps, the
  finished values and the sparse entries; the coordinator it is given is never used. Requests are
  served one at a time; the mutex around each map is the atomicity of a step. There are two
  implementations, one with threads and one with coroutines.

  Lengths in a request are 32-bit and are added in 32-bit arithmetic. A read outside the payload is
  \<open>Undefined_behaviour\<close>. Allocation of the payload is assumed to succeed.
\<close>

unbundle bit_operations_syntax

section \<open>Sockets\<close>

record Socket =
  sk_in :: "byte list list"
  sk_writes :: "nat list"
  sk_out :: "byte list"

definition Socket_new :: "byte list list \<Rightarrow> nat list \<Rightarrow> Socket" where
  "Socket_new segments writes = \<lparr>sk_in = segments, sk_writes = writes, sk_out = []\<rparr>"

text \<open>The blocking helpers: a pointer advances and the remaining length decreases.\<close>

definition read_all :: "nat \<Rightarrow> Socket \<Rightarrow> byte list option \<times> Socket" where
  "read_all len s = (case read_loop len [] (sk_in s) of (r, segs) \<Rightarrow> (r, s\<lparr>sk_in := segs\<rparr>))"

definition write_all :: "byte list \<Rightarrow> Socket \<Rightarrow> bool \<times> Socket" where
  "write_all msg s =
     (case send_loop msg (sk_writes s) (sk_out s) of (ok, ws, out) \<Rightarrow> (ok, s\<lparr>sk_writes := ws, sk_out := out\<rparr>))"

text \<open>The loops of the coroutines: a buffer of the full size and the number of bytes done.\<close>

function read_into :: "byte list \<Rightarrow> nat \<Rightarrow> byte list list \<Rightarrow> byte list option \<times> byte list list" where
  "read_into buf total_read segs =
     (if total_read < length buf then
        (case segs of
           [] \<Rightarrow> (None, [])
         | seg # segs' \<Rightarrow>
             if seg = [] then (None, segs')
             else let n = min (length buf - total_read) (length seg)
                  in read_into (overwrite buf total_read (take n seg)) (total_read + n)
                       (if n = length seg then segs' else drop n seg # segs'))
      else (Some buf, segs))"
  by pat_completeness auto
termination
proof (relation "measure (\<lambda>(buf, got, segs). length buf - got)")
  fix buf got segs and x :: "byte list" and xs n
  assume "got < length (buf :: byte list)" "segs = x # xs" "x \<noteq> []" "n = min (length buf - got) (length x)"
  then have "0 < n" "got + n \<le> length buf" "n \<le> length x" by auto
  then show "((overwrite buf got (take n x), got + n, if n = length x then xs else drop n x # xs), buf, got, segs)
      \<in> measure (\<lambda>(buf, got, segs). length buf - got)"
    using \<open>got < length buf\<close> by (simp add: overwrite_def)
qed simp

declare read_into.simps [simp del]

fun write_from :: "byte list \<Rightarrow> nat \<Rightarrow> nat list \<Rightarrow> byte list \<Rightarrow> bool \<times> nat list \<times> byte list" where
  "write_from msg total_written [] out = (\<not> total_written < length msg, [], out)"
| "write_from msg total_written (w # ws) out =
     (if total_written < length msg then
        (if w = 0 then (False, ws, out)
         else let n = min (length msg - total_written) w
              in write_from msg (total_written + n) ws (out @ take n (drop total_written msg)))
      else (True, w # ws, out))"

section \<open>Payloads\<close>

text \<open>Reading \<open>n\<close> bytes of the payload from a position.\<close>

definition payload_span :: "byte list \<Rightarrow> nat \<Rightarrow> nat \<Rightarrow> byte list result" where
  "payload_span payload pos n = (if pos + n \<le> length payload then Inr (take n (drop pos payload)) else Inl Undefined_behaviour)"

definition payload_u16 :: "byte list \<Rightarrow> nat \<Rightarrow> u16 result" where
  "payload_u16 payload pos =
     bind_res (payload_span payload pos 2) (\<lambda>b. Inr (ucast (b ! 0) OR push_bit 8 (ucast (b ! 1))))"

definition payload_u32 :: "byte list \<Rightarrow> nat \<Rightarrow> u32 result" where
  "payload_u32 payload pos =
     bind_res (payload_span payload pos 4) (\<lambda>b. Inr (ucast (b ! 0) OR push_bit 8 (ucast (b ! 1))
       OR push_bit 16 (ucast (b ! 2)) OR push_bit 24 (ucast (b ! 3))))"

definition payload_u64 :: "byte list \<Rightarrow> nat \<Rightarrow> u64 result" where
  "payload_u64 payload pos =
     bind_res (payload_span payload pos 8) (\<lambda>b. Inr (fold (\<lambda>i v. v OR push_bit (i * 8) (ucast (b ! i))) [0..<8] 0))"

definition payload_key :: "byte list \<Rightarrow> u32 \<Rightarrow> string result" where
  "payload_key payload key_len = bind_res (payload_span payload 4 (unat key_len)) (\<lambda>b. Inr (string_of b))"

section \<open>Messages\<close>

datatype UdsType = UT_Get | UT_GetResponse | UT_Put | UT_PutResponse | UT_Delete | UT_DeleteResponse
  | UT_Check | UT_CheckResponse | UT_CreateSparse | UT_CreateSparseResponse | UT_WriteRange
  | UT_WriteRangeResponse | UT_Finalize | UT_FinalizeResponse

fun UdsType_value :: "UdsType \<Rightarrow> u16" where
  "UdsType_value UT_Get = 0x0100"
| "UdsType_value UT_GetResponse = 0x0101"
| "UdsType_value UT_Put = 0x0102"
| "UdsType_value UT_PutResponse = 0x0103"
| "UdsType_value UT_Delete = 0x0104"
| "UdsType_value UT_DeleteResponse = 0x0105"
| "UdsType_value UT_Check = 0x0106"
| "UdsType_value UT_CheckResponse = 0x0107"
| "UdsType_value UT_CreateSparse = 0x0108"
| "UdsType_value UT_CreateSparseResponse = 0x0109"
| "UdsType_value UT_WriteRange = 0x010A"
| "UdsType_value UT_WriteRangeResponse = 0x010B"
| "UdsType_value UT_Finalize = 0x010C"
| "UdsType_value UT_FinalizeResponse = 0x010D"

definition PROTO_MAGIC :: u32 where
  "PROTO_MAGIC = 0x454C4341"

definition PROTO_VERSION :: u16 where
  "PROTO_VERSION = 1"

definition uds_header :: "u64 \<Rightarrow> u16 \<Rightarrow> u32 \<Rightarrow> u32 \<Rightarrow> byte list" where
  "uds_header now_ms type payload_len request_id =
     encode_u32 PROTO_MAGIC @ encode_u16 PROTO_VERSION @ encode_u16 type @ encode_u32 payload_len
     @ encode_u32 request_id @ encode_u64 now_ms"

section \<open>The server and its answers\<close>

record UdsServer =
  us_cache :: "(string \<times> byte list) list"
  us_sparse :: SparseCache

text \<open>
  Each handler parses its payload, changes the maps and builds the payload of the answer. Both
  implementations have the same text for this part. \<open>None\<close> is the early return without an answer.
\<close>

type_synonym uds_reply = "(byte list option \<times> UdsServer) result"

abbreviation no_reply :: "UdsServer \<Rightarrow> uds_reply" where
  "no_reply srv \<equiv> Inr (None, srv)"

abbreviation reply_code :: "u32 \<Rightarrow> UdsServer \<Rightarrow> uds_reply" where
  "reply_code code srv \<equiv> Inr (Some (encode_u32 code), srv)"

definition SyncCache_put :: "string \<Rightarrow> byte list \<Rightarrow> UdsServer \<Rightarrow> UdsServer" where
  "SyncCache_put key v srv = srv\<lparr>us_cache := AList.update key v (us_cache srv)\<rparr>"

definition SyncCache_get :: "string \<Rightarrow> UdsServer \<Rightarrow> byte list option" where
  "SyncCache_get key srv = map_of (us_cache srv) key"

definition SyncCache_remove :: "string \<Rightarrow> UdsServer \<Rightarrow> bool \<times> UdsServer" where
  "SyncCache_remove key srv = (map_of (us_cache srv) key \<noteq> None, srv\<lparr>us_cache := AList.delete key (us_cache srv)\<rparr>)"

definition ranged :: "bool \<Rightarrow> u64 \<Rightarrow> u64 \<Rightarrow> byte list \<Rightarrow> byte list" where
  "ranged has_range offset len v =
     (if has_range then
        (if offset < vec_size v then
           (let available = vec_size v - offset;
                to_copy = (if len > 0 \<and> len < available then len else available)
            in take (unat to_copy) (drop (unat offset) v))
         else [])
      else v)"

definition get_response :: "bool \<Rightarrow> byte list \<Rightarrow> byte list" where
  "get_response found data = encode_u32 (if found then 0 else 1) @ [0] @ encode_u32 (ucast (vec_size data)) @ data"

definition get_reply :: "byte list \<Rightarrow> UdsServer \<Rightarrow> uds_reply" where
  "get_reply payload srv =
     (if length payload < 4 then no_reply srv
      else bind_res (payload_u32 payload 0) (\<lambda>key_len.
        if length payload < unat (4 + key_len + 2) then no_reply srv
        else bind_res (payload_key payload key_len) (\<lambda>key.
          let pos = unat (4 + key_len) + 1
          in bind_res (payload_span payload pos 1) (\<lambda>b.
            let has_range = b ! 0 \<noteq> 0; pos = pos + 1
            in bind_res (if has_range \<and> pos + 16 \<le> length payload
                         then bind_res (payload_u64 payload pos) (\<lambda>offset. bind_res (payload_u64 payload (pos + 8)) (\<lambda>len. Inr (offset, len)))
                         else Inr (0, 0)) (\<lambda>(offset, len).
              case SyncCache_get key srv of
                Some v \<Rightarrow> Inr (Some (get_response True (ranged has_range offset len v)), srv)
              | None \<Rightarrow> Inr (Some (get_response False []), srv))))))"

definition put_reply :: "byte list \<Rightarrow> UdsServer \<Rightarrow> uds_reply" where
  "put_reply payload srv =
     (if length payload < 8 then no_reply srv
      else bind_res (payload_u32 payload 0) (\<lambda>key_len.
        if length payload < unat (4 + key_len + 4) then no_reply srv
        else bind_res (payload_key payload key_len) (\<lambda>key.
          let pos = unat (4 + key_len)
          in bind_res (payload_u32 payload pos) (\<lambda>value_len.
            let pos = pos + 4
            in if length payload < pos + unat value_len then no_reply srv
               else bind_res (payload_span payload pos (unat value_len)) (\<lambda>v. reply_code 0 (SyncCache_put key v srv))))))"

definition delete_reply :: "byte list \<Rightarrow> UdsServer \<Rightarrow> uds_reply" where
  "delete_reply payload srv =
     (if length payload < 4 then no_reply srv
      else bind_res (payload_u32 payload 0) (\<lambda>key_len.
        if length payload < unat (4 + key_len) then no_reply srv
        else bind_res (payload_key payload key_len) (\<lambda>key. reply_code 0 (snd (SyncCache_remove key srv)))))"

definition create_sparse_reply :: "byte list \<Rightarrow> UdsServer \<Rightarrow> uds_reply" where
  "create_sparse_reply payload srv =
     (if length payload < 4 then no_reply srv
      else bind_res (payload_u32 payload 0) (\<lambda>key_len.
        if length payload < unat (4 + key_len + 8) then no_reply srv
        else bind_res (payload_key payload key_len) (\<lambda>key.
          bind_res (payload_u64 payload (unat (4 + key_len))) (\<lambda>total_size.
            case SparseCache_create key total_size (us_sparse srv) of
              (created, sp) \<Rightarrow> reply_code (if created then 0 else 1) (srv\<lparr>us_sparse := sp\<rparr>)))))"

definition write_range_reply :: "byte list \<Rightarrow> UdsServer \<Rightarrow> uds_reply" where
  "write_range_reply payload srv =
     (if length payload < 4 then no_reply srv
      else bind_res (payload_u32 payload 0) (\<lambda>key_len.
        if length payload < unat (4 + key_len + 8 + 4) then no_reply srv
        else bind_res (payload_key payload key_len) (\<lambda>key.
          let pos = unat (4 + key_len)
          in bind_res (payload_u64 payload pos) (\<lambda>offset.
            bind_res (payload_u32 payload (pos + 8)) (\<lambda>data_len.
              let pos = pos + 8 + 4
              in if length payload < pos + unat data_len then no_reply srv
                 else bind_res (payload_span payload pos (unat data_len)) (\<lambda>data.
                   bind_res (SparseCache_write_range key offset data (us_sparse srv)) (\<lambda>(success, sp).
                     reply_code (if \<not> success then (if \<not> SparseCache_exists key sp then 1 else 2) else 0)
                       (srv\<lparr>us_sparse := sp\<rparr>))))))))"

fun finalize_code :: "finalize_result \<Rightarrow> u32" where
  "finalize_code (Finalized data) = 0"
| "finalize_code FinalizeNotFound = 1"
| "finalize_code FinalizeIncomplete = 2"

definition finalize_reply :: "byte list \<Rightarrow> UdsServer \<Rightarrow> uds_reply" where
  "finalize_reply payload srv =
     (if length payload < 4 then no_reply srv
      else bind_res (payload_u32 payload 0) (\<lambda>key_len.
        if length payload < unat (4 + key_len) then no_reply srv
        else bind_res (payload_key payload key_len) (\<lambda>key.
          case SparseCache_finalize key (us_sparse srv) of
            (res, sp) \<Rightarrow>
              let srv = srv\<lparr>us_sparse := sp\<rparr>;
                  srv = (case res of Finalized data \<Rightarrow> SyncCache_put key data srv | _ \<Rightarrow> srv)
              in reply_code (finalize_code res) srv)))"

section \<open>The threaded implementation\<close>

definition uds_message :: "u64 \<Rightarrow> UdsType \<Rightarrow> u32 \<Rightarrow> byte list \<Rightarrow> byte list" where
  "uds_message now_ms type request_id payload =
     uds_header now_ms (UdsType_value type) (ucast (vec_size payload)) request_id @ payload"

definition send_response_sync :: "u64 \<Rightarrow> UdsType \<Rightarrow> u32 \<Rightarrow> byte list \<Rightarrow> Socket \<Rightarrow> bool \<times> Socket" where
  "send_response_sync now_ms type request_id payload s = write_all (uds_message now_ms type request_id payload) s"

type_synonym uds_step = "(Socket \<times> UdsServer) result"

text \<open>The end of every handler: the answer is sent, and whether that worked is ignored.\<close>

definition answer ::
    "(u64 \<Rightarrow> UdsType \<Rightarrow> u32 \<Rightarrow> byte list \<Rightarrow> Socket \<Rightarrow> bool \<times> Socket) \<Rightarrow> u64 \<Rightarrow> UdsType \<Rightarrow> u32 \<Rightarrow> uds_reply \<Rightarrow> Socket \<Rightarrow> uds_step" where
  "answer send now_ms type request_id reply s =
     bind_res reply (\<lambda>(payload, srv).
       Inr (case payload of None \<Rightarrow> (s, srv) | Some p \<Rightarrow> (snd (send now_ms type request_id p s), srv)))"

definition handle_get_thread :: "u64 \<Rightarrow> byte list \<Rightarrow> u32 \<Rightarrow> Socket \<Rightarrow> UdsServer \<Rightarrow> uds_step" where
  "handle_get_thread now_ms payload rid s srv = answer send_response_sync now_ms UT_GetResponse rid (get_reply payload srv) s"

definition handle_put_thread :: "u64 \<Rightarrow> byte list \<Rightarrow> u32 \<Rightarrow> Socket \<Rightarrow> UdsServer \<Rightarrow> uds_step" where
  "handle_put_thread now_ms payload rid s srv = answer send_response_sync now_ms UT_PutResponse rid (put_reply payload srv) s"

definition handle_delete_thread :: "u64 \<Rightarrow> byte list \<Rightarrow> u32 \<Rightarrow> Socket \<Rightarrow> UdsServer \<Rightarrow> uds_step" where
  "handle_delete_thread now_ms payload rid s srv = answer send_response_sync now_ms UT_DeleteResponse rid (delete_reply payload srv) s"

definition handle_create_sparse_thread :: "u64 \<Rightarrow> byte list \<Rightarrow> u32 \<Rightarrow> Socket \<Rightarrow> UdsServer \<Rightarrow> uds_step" where
  "handle_create_sparse_thread now_ms payload rid s srv =
     answer send_response_sync now_ms UT_CreateSparseResponse rid (create_sparse_reply payload srv) s"

definition handle_write_range_thread :: "u64 \<Rightarrow> byte list \<Rightarrow> u32 \<Rightarrow> Socket \<Rightarrow> UdsServer \<Rightarrow> uds_step" where
  "handle_write_range_thread now_ms payload rid s srv =
     answer send_response_sync now_ms UT_WriteRangeResponse rid (write_range_reply payload srv) s"

definition handle_finalize_thread :: "u64 \<Rightarrow> byte list \<Rightarrow> u32 \<Rightarrow> Socket \<Rightarrow> UdsServer \<Rightarrow> uds_step" where
  "handle_finalize_thread now_ms payload rid s srv =
     answer send_response_sync now_ms UT_FinalizeResponse rid (finalize_reply payload srv) s"

definition switch_thread :: "u64 \<Rightarrow> u16 \<Rightarrow> byte list \<Rightarrow> u32 \<Rightarrow> Socket \<Rightarrow> UdsServer \<Rightarrow> uds_step" where
  "switch_thread now_ms msg_type payload request_id s srv =
     (if msg_type = UdsType_value UT_Get then handle_get_thread now_ms payload request_id s srv
      else if msg_type = UdsType_value UT_Put then handle_put_thread now_ms payload request_id s srv
      else if msg_type = UdsType_value UT_Delete then handle_delete_thread now_ms payload request_id s srv
      else if msg_type = UdsType_value UT_CreateSparse then handle_create_sparse_thread now_ms payload request_id s srv
      else if msg_type = UdsType_value UT_WriteRange then handle_write_range_thread now_ms payload request_id s srv
      else if msg_type = UdsType_value UT_Finalize then handle_finalize_thread now_ms payload request_id s srv
      else Inr (s, srv))"

definition read_payload :: "u32 \<Rightarrow> Socket \<Rightarrow> byte list option \<times> Socket" where
  "read_payload payload_len s = (if payload_len > 0 then read_all (unat payload_len) s else (Some [], s))"

text \<open>One request: whether to go on, with the socket and the server.\<close>

definition process_request_thread :: "u64 \<Rightarrow> Socket \<Rightarrow> UdsServer \<Rightarrow> (bool \<times> Socket \<times> UdsServer) result" where
  "process_request_thread now_ms s srv =
     (case read_all HEADER_SIZE s of
        (None, s) \<Rightarrow> Inr (False, s, srv)
      | (Some header, s) \<Rightarrow>
          bind_res (payload_u32 header 0) (\<lambda>magic.
            if magic \<noteq> PROTO_MAGIC then Inr (False, s, srv)
            else bind_res (payload_u16 header 6) (\<lambda>msg_type.
              bind_res (payload_u32 header 8) (\<lambda>payload_len.
                bind_res (payload_u32 header 12) (\<lambda>request_id.
                  case read_payload payload_len s of
                    (None, s) \<Rightarrow> Inr (False, s, srv)
                  | (Some payload, s) \<Rightarrow>
                      bind_res
                        (switch_thread now_ms msg_type payload request_id s srv)
                        (\<lambda>(s, srv). Inr (True, s, srv)))))))"

section \<open>The implementation with coroutines\<close>

definition send_response :: "u64 \<Rightarrow> UdsType \<Rightarrow> u32 \<Rightarrow> byte list \<Rightarrow> Socket \<Rightarrow> bool \<times> Socket" where
  "send_response now_ms type request_id payload s =
     (case write_from (uds_message now_ms type request_id payload) 0 (sk_writes s) (sk_out s) of
        (ok, ws, out) \<Rightarrow> (ok, s\<lparr>sk_writes := ws, sk_out := out\<rparr>))"

definition uds_handle_get :: "u64 \<Rightarrow> byte list \<Rightarrow> u32 \<Rightarrow> Socket \<Rightarrow> UdsServer \<Rightarrow> uds_step" where
  "uds_handle_get now_ms payload rid s srv = answer send_response now_ms UT_GetResponse rid (get_reply payload srv) s"

definition uds_handle_put :: "u64 \<Rightarrow> byte list \<Rightarrow> u32 \<Rightarrow> Socket \<Rightarrow> UdsServer \<Rightarrow> uds_step" where
  "uds_handle_put now_ms payload rid s srv = answer send_response now_ms UT_PutResponse rid (put_reply payload srv) s"

definition uds_handle_delete :: "u64 \<Rightarrow> byte list \<Rightarrow> u32 \<Rightarrow> Socket \<Rightarrow> UdsServer \<Rightarrow> uds_step" where
  "uds_handle_delete now_ms payload rid s srv = answer send_response now_ms UT_DeleteResponse rid (delete_reply payload srv) s"

definition uds_handle_create_sparse :: "u64 \<Rightarrow> byte list \<Rightarrow> u32 \<Rightarrow> Socket \<Rightarrow> UdsServer \<Rightarrow> uds_step" where
  "uds_handle_create_sparse now_ms payload rid s srv =
     answer send_response now_ms UT_CreateSparseResponse rid (create_sparse_reply payload srv) s"

definition uds_handle_write_range :: "u64 \<Rightarrow> byte list \<Rightarrow> u32 \<Rightarrow> Socket \<Rightarrow> UdsServer \<Rightarrow> uds_step" where
  "uds_handle_write_range now_ms payload rid s srv =
     answer send_response now_ms UT_WriteRangeResponse rid (write_range_reply payload srv) s"

definition uds_handle_finalize :: "u64 \<Rightarrow> byte list \<Rightarrow> u32 \<Rightarrow> Socket \<Rightarrow> UdsServer \<Rightarrow> uds_step" where
  "uds_handle_finalize now_ms payload rid s srv =
     answer send_response now_ms UT_FinalizeResponse rid (finalize_reply payload srv) s"

definition switch_async :: "u64 \<Rightarrow> u16 \<Rightarrow> byte list \<Rightarrow> u32 \<Rightarrow> Socket \<Rightarrow> UdsServer \<Rightarrow> uds_step" where
  "switch_async now_ms msg_type payload request_id s srv =
     (if msg_type = UdsType_value UT_Get then uds_handle_get now_ms payload request_id s srv
      else if msg_type = UdsType_value UT_Put then uds_handle_put now_ms payload request_id s srv
      else if msg_type = UdsType_value UT_Delete then uds_handle_delete now_ms payload request_id s srv
      else if msg_type = UdsType_value UT_CreateSparse then uds_handle_create_sparse now_ms payload request_id s srv
      else if msg_type = UdsType_value UT_WriteRange then uds_handle_write_range now_ms payload request_id s srv
      else if msg_type = UdsType_value UT_Finalize then uds_handle_finalize now_ms payload request_id s srv
      else Inr (s, srv))"

text \<open>The contents of the buffers before they are read into do not matter; \<^verbatim>\<open>std::vector\<close> zeroes its bytes.\<close>

definition process_request :: "u64 \<Rightarrow> byte list \<Rightarrow> Socket \<Rightarrow> UdsServer \<Rightarrow> (bool \<times> Socket \<times> UdsServer) result" where
  "process_request now_ms stack s srv =
     (case read_into (take HEADER_SIZE (stack @ replicate HEADER_SIZE 0)) 0 (sk_in s) of
        (None, segs) \<Rightarrow> Inr (False, s\<lparr>sk_in := segs\<rparr>, srv)
      | (Some header, segs) \<Rightarrow>
          let s = s\<lparr>sk_in := segs\<rparr>
          in bind_res (payload_u32 header 0) (\<lambda>magic.
            if magic \<noteq> PROTO_MAGIC then Inr (False, s, srv)
            else bind_res (payload_u16 header 6) (\<lambda>msg_type.
              bind_res (payload_u32 header 8) (\<lambda>payload_len.
                bind_res (payload_u32 header 12) (\<lambda>request_id.
                  case (if payload_len > 0 then read_into (replicate (unat payload_len) 0) 0 (sk_in s) else (Some [], sk_in s)) of
                    (None, segs) \<Rightarrow> Inr (False, s\<lparr>sk_in := segs\<rparr>, srv)
                  | (Some payload, segs) \<Rightarrow>
                      let s = s\<lparr>sk_in := segs\<rparr>
                      in bind_res
                        (switch_async now_ms msg_type payload request_id s srv)
                        (\<lambda>(s, srv). Inr (True, s, srv)))))))"

section \<open>The loops of the two implementations\<close>

lemma read_into_read_loop:
  "got \<le> length buf \<Longrightarrow> read_into buf got segs = read_loop (length buf - got) (take got buf) segs"
proof (induction buf got segs rule: read_into.induct)
  case (1 buf got segs)
  show ?case
  proof (cases "got < length buf")
    case False
    then show ?thesis using "1.prems" by (simp add: read_into.simps [of buf] read_loop.simps)
  next
    case True
    show ?thesis
    proof (cases segs)
      case Nil
      then show ?thesis using True by (simp add: read_into.simps [of buf] read_loop.simps)
    next
      case (Cons seg segs')
      show ?thesis
      proof (cases "seg = []")
        case True
        then show ?thesis using Cons \<open>got < length buf\<close> by (simp add: read_into.simps [of buf] read_loop.simps [of _ _ "[] # segs'"])
      next
        case ne: False
        define n where "n = min (length buf - got) (length seg)"
        have n: "n \<le> length seg" "got + n \<le> length buf" "take (length buf - got) seg = take n seg"
          "length (take (length buf - got) seg) = n" "length seg \<le> length buf - got \<longleftrightarrow> n = length seg"
          "n \<noteq> length seg \<Longrightarrow> drop (length buf - got) seg = drop n seg"
          using True by (auto simp: n_def min_def)
        have o: "length (overwrite buf got (take n seg)) = length buf" "take (got + n) (overwrite buf got (take n seg)) = take got buf @ take n seg"
          using n by (simp_all add: overwrite_def)
        have "read_into buf got segs
            = read_into (overwrite buf got (take n seg)) (got + n) (if n = length seg then segs' else drop n seg # segs')"
          using True Cons ne by (simp add: read_into.simps [of buf] n_def Let_def)
        also have "\<dots> = read_loop (length buf - (got + n)) (take got buf @ take n seg) (if n = length seg then segs' else drop n seg # segs')"
          using "1.IH" [OF True Cons ne n_def] n(2) o by simp
        also have "\<dots> = read_loop (length buf - got - length (take (length buf - got) seg)) (take got buf @ take (length buf - got) seg)
            (if length seg \<le> length buf - got then segs' else drop (length buf - got) seg # segs')"
          using n by simp
        also have "\<dots> = read_loop (length buf - got) (take got buf) segs"
          using True Cons ne by (simp add: read_loop.simps [of "length buf - got" "take got buf" "seg # segs'"])
        finally show ?thesis .
      qed
    qed
  qed
qed

lemma write_from_send_loop:
  "t \<le> length msg \<Longrightarrow> write_from msg t ws out = send_loop (drop t msg) ws out"
proof (induction msg t ws out rule: write_from.induct)
  case (1 msg t out)
  then show ?case by (cases "drop t msg") auto
next
  case (2 msg t w ws out)
  show ?case
  proof (cases "t < length msg")
    case True
    then obtain b bs where d: "drop t msg = b # bs" by (cases "drop t msg") auto
    have len: "length (drop t msg) = length msg - t" by simp
    have "take (min (length msg - t) w) (drop t msg) = take w (drop t msg)" "drop w (drop t msg) = drop (t + min (length msg - t) w) msg"
      by (auto simp: min_def add.commute)
    then show ?thesis using 2 True d by (auto simp: Let_def)
  next
    case False
    then show ?thesis using "2.prems" by simp
  qed
qed

lemma read_loop_consumes:
  "read_loop need acc segs = (Some r, segs') \<Longrightarrow> length (concat segs) = need + length (concat segs')"
proof (induction need acc segs rule: read_loop.induct)
  case (1 need acc segs)
  show ?case
  proof (cases "need = 0 \<or> segs = [] \<or> hd segs = []")
    case True
    then show ?thesis using "1.prems" by (auto simp: read_loop.simps split: if_splits list.splits)
  next
    case False
    then obtain seg rest where s: "segs = seg # rest" "seg \<noteq> []" "need \<noteq> 0" by (cases segs) auto
    then show ?thesis using "1.IH" [OF s(3,1,2)] "1.prems" by (subst (asm) read_loop.simps) (auto split: if_splits)
  qed
qed

lemma switch_thread_input: "switch_thread now type payload rid s srv = Inr (s', srv') \<Longrightarrow> sk_in s' = sk_in s"
proof -
  have "sk_in (snd (send_response_sync now' type rid p t)) = sk_in t" for now' type rid p t
    by (simp add: send_response_sync_def write_all_def split: prod.split)
  then have "answer send_response_sync now' type rid reply t = Inr (t', u) \<Longrightarrow> sk_in t' = sk_in t" for now' type rid reply t t' u
    by (auto simp: answer_def bind_res_eq_Inr split: option.splits)
  then show "switch_thread now type payload rid s srv = Inr (s', srv') \<Longrightarrow> sk_in s' = sk_in s"
    by (auto simp: switch_thread_def handle_get_thread_def handle_put_thread_def handle_delete_thread_def
        handle_create_sparse_thread_def handle_write_range_thread_def handle_finalize_thread_def split: if_splits)
qed

lemma process_thread_cases:
  assumes "process_request_thread now s srv = Inr (b, s', srv')"
  obtains (Stopped) "\<not> b" "srv' = srv"
    | (Served) header segs n type payload rid s1 where "b" "read_loop HEADER_SIZE [] (sk_in s) = (Some header, segs)"
        "read_payload n (s\<lparr>sk_in := segs\<rparr>) = (Some payload, s1)" "switch_thread now type payload rid s1 srv = Inr (s', srv')"
proof -
  obtain h segs where h: "read_loop HEADER_SIZE [] (sk_in s) = (h, segs)" by fastforce
  show ?thesis
  proof (cases h)
    case None
    then show ?thesis using assms h Stopped by (simp add: process_request_thread_def read_all_def)
  next
    case (Some header)
    obtain magic where m: "payload_u32 header 0 = Inr magic"
      using assms h Some by (auto simp: process_request_thread_def read_all_def bind_res_eq_Inr)
    show ?thesis
    proof (cases "magic = PROTO_MAGIC")
      case False
      then show ?thesis using assms h Some m Stopped by (simp add: process_request_thread_def read_all_def)
    next
      case True
      then obtain type n rid where f: "payload_u16 header 6 = Inr type" "payload_u32 header 8 = Inr n" "payload_u32 header 12 = Inr rid"
        using assms h Some m by (auto simp: process_request_thread_def read_all_def bind_res_eq_Inr)
      obtain p s1 where p: "read_payload n (s\<lparr>sk_in := segs\<rparr>) = (p, s1)" by fastforce
      then show ?thesis
        using assms h Some m True f Stopped Served
        by (cases p) (auto simp: process_request_thread_def read_all_def bind_res_eq_Inr)
    qed
  qed
qed

lemma process_thread_consumes:
  assumes "process_request_thread now s srv = Inr (True, s', srv')"
  shows "length (concat (sk_in s')) < length (concat (sk_in s))"
  using assms
proof (cases rule: process_thread_cases)
  case (Served header segs n type payload rid s1)
  have "length (concat segs) < length (concat (sk_in s))"
    using read_loop_consumes [OF Served(2)] by (simp add: HEADER_SIZE_def)
  moreover have "length (concat (sk_in s1)) \<le> length (concat segs)"
    using Served(3) by (auto simp: read_payload_def read_all_def dest!: read_loop_consumes split: if_splits prod.splits)
  ultimately show ?thesis using switch_thread_input [OF Served(4)] by simp
qed simp

lemma send_response_agrees: "send_response = send_response_sync"
  by (simp add: fun_eq_iff send_response_def send_response_sync_def write_all_def write_from_send_loop)

lemma switch_agrees: "switch_async = switch_thread"
  by (simp add: fun_eq_iff switch_async_def switch_thread_def send_response_agrees
      uds_handle_get_def uds_handle_put_def uds_handle_delete_def uds_handle_create_sparse_def uds_handle_write_range_def uds_handle_finalize_def
      handle_get_thread_def handle_put_thread_def handle_delete_thread_def handle_create_sparse_thread_def
      handle_write_range_thread_def handle_finalize_thread_def)

lemma process_request_agrees: "process_request now stack s srv = process_request_thread now s srv"
proof -
  have h: "read_into (take HEADER_SIZE (stack @ replicate HEADER_SIZE 0)) 0 segs = read_loop HEADER_SIZE [] segs" for segs
  proof -
    have "length (take HEADER_SIZE (stack @ replicate HEADER_SIZE 0)) = HEADER_SIZE" by simp
    then show ?thesis by (simp only: read_into_read_loop diff_zero take_0)
  qed
  have p: "(if n > 0 then read_into (replicate (unat n) 0) 0 (sk_in t) else (Some [], sk_in t))
      = (fst (read_payload n t), sk_in (snd (read_payload n t)))"
    and u: "t\<lparr>sk_in := sk_in (snd (read_payload n (t\<lparr>sk_in := y\<rparr>)))\<rparr> = snd (read_payload n (t\<lparr>sk_in := y\<rparr>))" for n t y
    by (simp_all add: read_payload_def read_all_def read_into_read_loop split: prod.split)
  show ?thesis
    unfolding process_request_def process_request_thread_def read_all_def h p switch_agrees Let_def
    by (simp add: u case_prod_unfold cong: option.case_cong if_cong)
qed

section \<open>Serving a client\<close>

text \<open>
  The loop of a client's thread: \<open>running k\<close> is the flag before request \<open>k\<close> and \<open>now k\<close> the time of
  its answer.
\<close>

function handle_client_thread ::
    "(nat \<Rightarrow> bool) \<Rightarrow> (nat \<Rightarrow> u64) \<Rightarrow> nat \<Rightarrow> Socket \<Rightarrow> UdsServer \<Rightarrow> (Socket \<times> UdsServer) result" where
  "handle_client_thread running now k s srv =
     (if running k then
        (case process_request_thread (now k) s srv of
           Inl ex \<Rightarrow> Inl ex
         | Inr (ok, s', srv') \<Rightarrow> if ok then handle_client_thread running now (Suc k) s' srv' else Inr (s', srv'))
      else Inr (s, srv))"
  by pat_completeness auto
termination
  by (relation "measure (\<lambda>(running, now, k, s, srv). length (concat (sk_in s)))") (auto dest: process_thread_consumes)

declare handle_client_thread.simps [simp del]

function handle_client ::
    "(nat \<Rightarrow> bool) \<Rightarrow> (nat \<Rightarrow> u64) \<Rightarrow> (nat \<Rightarrow> byte list) \<Rightarrow> nat \<Rightarrow> Socket \<Rightarrow> UdsServer \<Rightarrow> (Socket \<times> UdsServer) result" where
  "handle_client running now stack k s srv =
     (if running k then
        (case process_request (now k) (stack k) s srv of
           Inl ex \<Rightarrow> Inl ex
         | Inr (ok, s', srv') \<Rightarrow> if ok then handle_client running now stack (Suc k) s' srv' else Inr (s', srv'))
      else Inr (s, srv))"
  by pat_completeness auto
termination
  by (relation "measure (\<lambda>(running, now, stack, k, s, srv). length (concat (sk_in s)))")
     (auto simp: process_request_agrees dest: process_thread_consumes)

declare handle_client.simps [simp del]

lemma handle_client_agrees: "handle_client running now stack k s srv = handle_client_thread running now k s srv"
proof (induction running now k s srv rule: handle_client_thread.induct)
  case (1 running now k s srv)
  then show ?case
    by (subst handle_client.simps, subst handle_client_thread.simps)
       (auto simp: process_request_agrees split: sum.split)
qed

section \<open>Properties\<close>

text \<open>
  C14. The two implementations of the server are equivalent: whatever a client sends and however the
  socket behaves, the loop with coroutines and the loop with threads write the same bytes, leave the
  same maps and the same unread input, and end in the same way.
\<close>

theorem uds_implementations_agree:
  "handle_client running now stack k s srv = handle_client_thread running now k s srv"
  by (rule handle_client_agrees)

section \<open>Well-formed payloads\<close>

named_theorems payload_at \<open>reading a field of a payload at its position\<close>

lemma payload_span_at [payload_at]: "pos = length xs \<Longrightarrow> n = length ys \<Longrightarrow> payload_span (xs @ ys @ rest) pos n = Inr ys"
  by (simp add: payload_span_def)

lemma encode_lengths [simp]: "length (encode_u16 a) = 2" "length (encode_u32 b) = 4" "length (encode_u64 c) = 8"
  by (simp_all add: encode_u16_def encode_u32_def encode_u64_def)

lemma payload_u16_at [payload_at]: "pos = length xs \<Longrightarrow> payload_u16 (xs @ encode_u16 v @ rest) pos = Inr v"
  using w16.dec_enc [THEN readsD, of v "[]"] by (simp add: payload_u16_def payload_span_at decode_u16_def)

lemma payload_u32_at [payload_at]: "pos = length xs \<Longrightarrow> payload_u32 (xs @ encode_u32 v @ rest) pos = Inr v"
  using w32.dec_enc [THEN readsD, of v "[]"] by (simp add: payload_u32_def payload_span_at decode_u32_def)

lemma payload_u64_at [payload_at]: "pos = length xs \<Longrightarrow> payload_u64 (xs @ encode_u64 v @ rest) pos = Inr v"
  using w64.dec_enc [THEN readsD, of v "[]"] by (simp add: payload_u64_def payload_span_at decode_u64_def)

text \<open>A key as a request carries it. The bound leaves room for the fixed fields in 32-bit arithmetic.\<close>

definition uds_key_ok :: "string \<Rightarrow> bool" where
  "uds_key_ok key \<longleftrightarrow> length key < 2 ^ 32 - 16"

lemma key_fields:
  assumes "uds_key_ok key"
  shows "payload_u32 (encode_string key @ rest) 0 = Inr (of_nat (length key))"
    and "payload_key (encode_string key @ rest) (of_nat (length key)) = Inr key"
    and "unat (4 + of_nat (length key) :: u32) = length (encode_string key)"
    and "n \<le> 12 \<Longrightarrow> unat (4 + of_nat (length key) + of_nat n :: u32) = length (encode_string key) + n"
    and "unat (4 + of_nat (length key) + 8 + 4 :: u32) = length (encode_string key) + 12"
proof -
  have len: "ucast (vec_size key) = (of_nat (length key) :: u32)"
    unfolding vec_size_def by transfer simp
  have n: "unat (of_nat (length key) :: u32) = length key"
    using assms by (simp add: uds_key_ok_def unat_of_nat)
  show "payload_u32 (encode_string key @ rest) 0 = Inr (of_nat (length key))"
    using payload_u32_at [of 0 "[]" "of_nat (length key)" "bytes_of key @ rest"] by (simp add: encode_string_def len)
  show "payload_key (encode_string key @ rest) (of_nat (length key)) = Inr key"
    unfolding payload_key_def encode_string_def len n append_assoc by (subst payload_span_at) simp_all
  have add: "unat (4 + of_nat (length key) + of_nat m :: u32) = 4 + length key + m" if "m \<le> 12" for m
  proof -
    have "4 + length key + m < 2 ^ 32" using assms that by (simp add: uds_key_ok_def)
    moreover have "4 + of_nat (length key) + of_nat m = (of_nat (4 + length key + m) :: u32)" by simp
    ultimately show ?thesis by (simp only: unat_of_nat) simp
  qed
  show "unat (4 + of_nat (length key) :: u32) = length (encode_string key)"
    using add [of 0] by (simp add: encode_string_def)
  show "n \<le> 12 \<Longrightarrow> unat (4 + of_nat (length key) + of_nat n :: u32) = length (encode_string key) + n"
    using add [of n] by (simp add: encode_string_def)
  show "unat (4 + of_nat (length key) + 8 + 4 :: u32) = length (encode_string key) + 12"
    using add [of 12] by (simp add: encode_string_def add.assoc)
qed

lemma encode_string_min: "4 \<le> length (encode_string key)"
  by (simp add: encode_string_def)

lemma put_reply_ok:
  assumes "uds_key_ok key" and "fits32 v"
  shows "put_reply (encode_string key @ encode_bytes v @ rest) srv = reply_code 0 (SyncCache_put key v srv)"
proof -
  note k = key_fields [OF assms(1)]
  have f: "payload_u32 (encode_string key @ encode_u32 (ucast (vec_size v)) @ v @ rest) (length (encode_string key)) = Inr (ucast (vec_size v))"
    by (rule payload_u32_at) simp
  have d: "payload_span ((encode_string key @ encode_u32 (ucast (vec_size v))) @ v @ rest) (length (encode_string key) + 4) (length v) = Inr v"
    by (rule payload_span_at) simp_all
  show ?thesis
    using encode_string_min [of key] d k(4) [of 4]
    by (simp add: put_reply_def encode_bytes_def k(1,2,3) f unat_size32 [OF assms(2)] Let_def)
qed

lemma delete_reply_ok:
  assumes "uds_key_ok key"
  shows "delete_reply (encode_string key @ rest) srv = reply_code 0 (snd (SyncCache_remove key srv))"
  using encode_string_min [of key] by (simp add: delete_reply_def key_fields [OF assms])

lemma get_reply_ok:
  assumes "uds_key_ok key"
  shows "get_reply (encode_string key @ [mo] @ [0] @ rest) srv
       = Inr (Some (case SyncCache_get key srv of Some v \<Rightarrow> get_response True v | None \<Rightarrow> get_response False []), srv)"
    and "get_reply (encode_string key @ [mo] @ [1] @ encode_u64 offset @ encode_u64 len @ rest) srv
       = Inr (Some (case SyncCache_get key srv of Some v \<Rightarrow> get_response True (ranged True offset len v) | None \<Rightarrow> get_response False []), srv)"
proof -
  note k = key_fields [OF assms]
  have b: "payload_span ((encode_string key @ [mo]) @ [x] @ ys) (length (encode_string key) + 1) 1 = Inr [x]" for x ys
    by (rule payload_span_at) simp_all
  have o: "payload_u64 ((encode_string key @ [mo] @ [1]) @ encode_u64 offset @ encode_u64 len @ rest) (length (encode_string key) + 2) = Inr offset"
    by (rule payload_u64_at) simp
  have l: "payload_u64 ((encode_string key @ [mo] @ [1] @ encode_u64 offset) @ encode_u64 len @ rest) (10 + length (encode_string key)) = Inr len"
    by (rule payload_u64_at) simp
  show "get_reply (encode_string key @ [mo] @ [0] @ rest) srv
       = Inr (Some (case SyncCache_get key srv of Some v \<Rightarrow> get_response True v | None \<Rightarrow> get_response False []), srv)"
    using encode_string_min [of key] k(4) [of 2] b [of 0 rest]
    by (simp add: get_reply_def k(1,2,3) Let_def ranged_def split: option.split)
  show "get_reply (encode_string key @ [mo] @ [1] @ encode_u64 offset @ encode_u64 len @ rest) srv
       = Inr (Some (case SyncCache_get key srv of Some v \<Rightarrow> get_response True (ranged True offset len v) | None \<Rightarrow> get_response False []), srv)"
    using encode_string_min [of key] k(4) [of 2] b [of 1 "encode_u64 offset @ encode_u64 len @ rest"] o l
    by (simp add: get_reply_def k(1,2,3) Let_def split: option.split)
qed

lemma create_sparse_reply_ok:
  assumes "uds_key_ok key"
  shows "create_sparse_reply (encode_string key @ encode_u64 n @ rest) srv =
     (case SparseCache_create key n (us_sparse srv) of (created, sp) \<Rightarrow> reply_code (if created then 0 else 1) (srv\<lparr>us_sparse := sp\<rparr>))"
proof -
  have "payload_u64 (encode_string key @ encode_u64 n @ rest) (length (encode_string key)) = Inr n"
    by (rule payload_u64_at) simp
  then show ?thesis
    using encode_string_min [of key] key_fields(4) [OF assms, of 8] by (simp add: create_sparse_reply_def key_fields(1,2,3) [OF assms])
qed

lemma write_range_reply_ok:
  assumes "uds_key_ok key" and "fits32 data"
  shows "write_range_reply (encode_string key @ encode_u64 offset @ encode_bytes data @ rest) srv =
     bind_res (SparseCache_write_range key offset data (us_sparse srv)) (\<lambda>(success, sp).
       reply_code (if \<not> success then (if \<not> SparseCache_exists key sp then 1 else 2) else 0) (srv\<lparr>us_sparse := sp\<rparr>))"
proof -
  note k = key_fields [OF assms(1)]
  have o: "payload_u64 (encode_string key @ encode_u64 offset @ encode_u32 (ucast (vec_size data)) @ data @ rest) (length (encode_string key)) = Inr offset"
    by (rule payload_u64_at) simp
  have f: "payload_u32 ((encode_string key @ encode_u64 offset) @ encode_u32 (ucast (vec_size data)) @ data @ rest) (length (encode_string key) + 8)
      = Inr (ucast (vec_size data))"
    by (rule payload_u32_at) simp
  have d: "payload_span ((encode_string key @ encode_u64 offset @ encode_u32 (ucast (vec_size data))) @ data @ rest) (12 + length (encode_string key)) (length data) = Inr data"
    by (rule payload_span_at) simp_all
  show ?thesis
    using encode_string_min [of key] k(5) o f d
    by (simp add: write_range_reply_def encode_bytes_def k(1,2,3) unat_size32 [OF assms(2)] Let_def)
qed

lemma finalize_reply_ok:
  assumes "uds_key_ok key"
  shows "finalize_reply (encode_string key @ rest) srv =
     (case SparseCache_finalize key (us_sparse srv) of (res, sp) \<Rightarrow>
        reply_code (finalize_code res)
          (case res of Finalized data \<Rightarrow> SyncCache_put key data (srv\<lparr>us_sparse := sp\<rparr>) | _ \<Rightarrow> srv\<lparr>us_sparse := sp\<rparr>))"
  using encode_string_min [of key] by (simp add: finalize_reply_def key_fields [OF assms] Let_def)

lemmas reply_ok = put_reply_ok delete_reply_ok get_reply_ok create_sparse_reply_ok write_range_reply_ok finalize_reply_ok

lemma uds_header_fields:
  "payload_u32 (uds_header t type n rid) 0 = Inr PROTO_MAGIC" "payload_u16 (uds_header t type n rid) 6 = Inr type"
  "payload_u32 (uds_header t type n rid) 8 = Inr n" "payload_u32 (uds_header t type n rid) 12 = Inr rid"
  "length (uds_header t type n rid) = HEADER_SIZE"
proof -
  let ?m = "encode_u32 PROTO_MAGIC" and ?v = "encode_u16 PROTO_VERSION" and ?t = "encode_u16 type"
  let ?n = "encode_u32 n" and ?r = "encode_u32 rid" and ?w = "encode_u64 t"
  show "payload_u32 (uds_header t type n rid) 0 = Inr PROTO_MAGIC"
    using payload_u32_at [of 0 "[]" PROTO_MAGIC "?v @ ?t @ ?n @ ?r @ ?w"] by (simp add: uds_header_def)
  show "payload_u16 (uds_header t type n rid) 6 = Inr type"
    using payload_u16_at [of 6 "?m @ ?v" type "?n @ ?r @ ?w"] by (simp add: uds_header_def)
  show "payload_u32 (uds_header t type n rid) 8 = Inr n"
    using payload_u32_at [of 8 "?m @ ?v @ ?t" n "?r @ ?w"] by (simp add: uds_header_def)
  show "payload_u32 (uds_header t type n rid) 12 = Inr rid"
    using payload_u32_at [of 12 "?m @ ?v @ ?t @ ?n" rid ?w] by (simp add: uds_header_def)
qed (simp add: uds_header_def HEADER_SIZE_def)

lemma process_message:
  assumes "segments_ok (sk_in s)" and "concat (sk_in s) = uds_message t type rid payload @ rest" and "fits32 payload"
  shows "\<exists>segs. process_request_thread now s srv
           = bind_res (switch_thread now (UdsType_value type) payload rid (s\<lparr>sk_in := segs\<rparr>) srv) (\<lambda>(s, srv). Inr (True, s, srv))
       \<and> concat segs = rest \<and> segments_ok segs"
proof -
  let ?h = "uds_header t (UdsType_value type) (ucast (vec_size payload)) rid"
  note len = uds_header_fields(5) [of t "UdsType_value type" "ucast (vec_size payload)" rid]
  have "HEADER_SIZE \<le> length (concat (sk_in s))" using assms(2) len by (simp add: uds_message_def)
  from read_loop_complete [OF assms(1) this, of "[]"] obtain segs1 where
    h: "read_loop HEADER_SIZE [] (sk_in s) = (Some ?h, segs1)" "concat segs1 = payload @ rest" "segments_ok segs1"
    using len by (auto simp: assms(2) uds_message_def)
  have "length payload \<le> length (concat segs1)" using h(2) by simp
  from read_loop_complete [OF h(3) this, of "[]"] obtain segs where
    p: "read_loop (length payload) [] segs1 = (Some payload, segs)" "concat segs = rest" "segments_ok segs"
    by (auto simp: h(2))
  have "\<exists>segs. read_payload (ucast (vec_size payload)) (s\<lparr>sk_in := segs1\<rparr>) = (Some payload, s\<lparr>sk_in := segs\<rparr>)
      \<and> concat segs = rest \<and> segments_ok segs"
  proof (cases "payload = []")
    case True
    then show ?thesis using h by (auto simp: read_payload_def vec_size_def)
  next
    case False
    then have "0 < (ucast (vec_size payload) :: u32)"
      using unat_size32 [OF assms(3)] by (simp add: word_less_nat_alt)
    then show ?thesis using p unat_size32 [OF assms(3)] by (auto simp: read_payload_def read_all_def)
  qed
  then obtain segs' where r: "read_payload (ucast (vec_size payload)) (s\<lparr>sk_in := segs1\<rparr>) = (Some payload, s\<lparr>sk_in := segs'\<rparr>)"
    "concat segs' = rest" "segments_ok segs'" by blast
  show ?thesis
    using r by (intro exI [of _ segs']) (simp add: process_request_thread_def read_all_def h(1) uds_header_fields)
qed

text \<open>
  C36. A request of 28 bytes makes the server read outside its buffer: the length check adds 4 to the
  key length in 32-bit arithmetic, so a key length near \<^verbatim>\<open>2^32\<close> passes it in both implementations.
\<close>

theorem oversized_key_length_crashes:
  "handle_client_thread (\<lambda>_. True) now 0 (Socket_new [uds_message t UT_Delete rid [0xFC, 0xFF, 0xFF, 0xFF]] ws) srv
     = Inl Undefined_behaviour"
proof -
  let ?p = "[0xFC, 0xFF, 0xFF, 0xFF] :: byte list"
  let ?s = "Socket_new [uds_message t UT_Delete rid ?p] ws"
  have "segments_ok (sk_in ?s)" by (simp add: Socket_new_def segments_ok_def uds_message_def)
  moreover have "concat (sk_in ?s) = uds_message t UT_Delete rid ?p @ []" by (simp add: Socket_new_def)
  ultimately obtain segs where p: "process_request_thread (now 0) ?s srv
      = bind_res (switch_thread (now 0) (UdsType_value UT_Delete) ?p rid (?s\<lparr>sk_in := segs\<rparr>) srv) (\<lambda>(s, srv). Inr (True, s, srv))"
    using process_message [of ?s t UT_Delete rid ?p "[]" "now 0" srv] by auto
  have "payload_u32 ?p 0 = Inr 0xFFFFFFFC" by (simp add: payload_u32_def payload_span_def)
  then have "delete_reply ?p srv = Inl Undefined_behaviour"
    by (simp add: delete_reply_def payload_key_def payload_span_def)
  then show ?thesis
    using p by (subst handle_client_thread.simps) (simp add: switch_thread_def handle_delete_thread_def answer_def)
qed

definition uds_server_ok :: "UdsServer \<Rightarrow> bool" where
  "uds_server_ok srv \<longleftrightarrow> distinct (map fst (us_cache srv)) \<and> distinct (map fst (us_sparse srv))
     \<and> list_all (entry_ok \<circ> snd) (us_sparse srv)"

definition sparse_ok :: "SparseCache \<Rightarrow> bool" where
  "sparse_ok c \<longleftrightarrow> distinct (map fst c) \<and> list_all (entry_ok \<circ> snd) c"

lemma sparse_ok_update: "sparse_ok c \<Longrightarrow> entry_ok e \<Longrightarrow> sparse_ok (AList.update key e c)"
  by (induction c) (auto simp: sparse_ok_def distinct_update dom_update image_iff)

lemma set_delete_subset: "set (AList.delete key c) \<subseteq> set c"
  by (auto simp: AList.delete_eq)

lemma sparse_ok_delete: "sparse_ok c \<Longrightarrow> sparse_ok (AList.delete key c)"
  using set_delete_subset [of key c] by (auto simp: sparse_ok_def distinct_delete list_all_iff)

lemma write_range_entry_ok: "entry_ok e \<Longrightarrow> SparseEntry_write_range offset buf e = Inr (b, e') \<Longrightarrow> entry_ok e'"
  by (cases b) (auto dest: write_range_bytes write_range_refused)

lemma sparse_ok_write:
  assumes "sparse_ok c" and "SparseCache_write_range key offset data c = Inr (b, c')"
  shows "sparse_ok c'"
proof (cases "map_of c key")
  case (Some e)
  then have "entry_ok e" using assms(1) by (auto simp: sparse_ok_def list_all_iff dest: map_of_SomeD)
  then show ?thesis
    using assms Some by (auto simp: SparseCache_write_range_def bind_res_eq_Inr intro: sparse_ok_update write_range_entry_ok)
qed (use assms in \<open>simp add: SparseCache_write_range_def\<close>)

lemma uds_ok_sparse: "uds_server_ok srv \<longleftrightarrow> distinct (map fst (us_cache srv)) \<and> sparse_ok (us_sparse srv)"
  by (simp add: uds_server_ok_def sparse_ok_def)

lemma reply_keeps_ok:
  assumes "uds_server_ok srv"
  shows "get_reply payload srv = Inr (p, srv') \<Longrightarrow> uds_server_ok srv'"
    and "put_reply payload srv = Inr (p, srv') \<Longrightarrow> uds_server_ok srv'"
    and "delete_reply payload srv = Inr (p, srv') \<Longrightarrow> uds_server_ok srv'"
    and "create_sparse_reply payload srv = Inr (p, srv') \<Longrightarrow> uds_server_ok srv'"
    and "write_range_reply payload srv = Inr (p, srv') \<Longrightarrow> uds_server_ok srv'"
    and "finalize_reply payload srv = Inr (p, srv') \<Longrightarrow> uds_server_ok srv'"
proof -
  note ok = assms [unfolded uds_ok_sparse]
  show "get_reply payload srv = Inr (p, srv') \<Longrightarrow> uds_server_ok srv'"
    using assms by (auto simp: get_reply_def bind_res_eq_Inr Let_def split: if_splits option.splits)
  show "put_reply payload srv = Inr (p, srv') \<Longrightarrow> uds_server_ok srv'"
    using ok by (auto simp: uds_ok_sparse put_reply_def SyncCache_put_def bind_res_eq_Inr Let_def distinct_update split: if_splits)
  show "delete_reply payload srv = Inr (p, srv') \<Longrightarrow> uds_server_ok srv'"
    using ok by (auto simp: uds_ok_sparse delete_reply_def SyncCache_remove_def bind_res_eq_Inr distinct_delete split: if_splits)
  show "create_sparse_reply payload srv = Inr (p, srv') \<Longrightarrow> uds_server_ok srv'"
    using ok by (auto simp: uds_ok_sparse create_sparse_reply_def SparseCache_create_def bind_res_eq_Inr intro!: sparse_ok_update split: if_splits)
  show "write_range_reply payload srv = Inr (p, srv') \<Longrightarrow> uds_server_ok srv'"
    using ok by (auto simp: uds_ok_sparse write_range_reply_def bind_res_eq_Inr Let_def dest: sparse_ok_write split: if_splits)
  have "sparse_ok (snd (SparseCache_finalize key (us_sparse srv)))" for key
    using ok by (auto simp: SparseCache_finalize_def intro: sparse_ok_delete split: option.split)
  moreover have "uds_server_ok (case res of Finalized data \<Rightarrow> SyncCache_put key data (srv\<lparr>us_sparse := sp\<rparr>) | _ \<Rightarrow> srv\<lparr>us_sparse := sp\<rparr>)"
    if "sparse_ok sp" for key res sp
    using ok that by (simp add: uds_ok_sparse SyncCache_put_def distinct_update split: finalize_result.split)
  ultimately show "finalize_reply payload srv = Inr (p, srv') \<Longrightarrow> uds_server_ok srv'"
    using assms by (auto simp: finalize_reply_def bind_res_eq_Inr Let_def case_prod_unfold split: if_splits)
qed

lemma answer_reply: "answer send now type rid reply s = Inr (s', srv') \<Longrightarrow> \<exists>p. reply = Inr (p, srv')"
  by (auto simp: answer_def bind_res_eq_Inr split: option.splits)

lemma switch_keeps_ok:
  assumes "uds_server_ok srv" and "switch_thread now type payload rid s srv = Inr (s', srv')"
  shows "uds_server_ok srv'"
  using assms
  by (auto simp: switch_thread_def handle_get_thread_def handle_put_thread_def handle_delete_thread_def
      handle_create_sparse_thread_def handle_write_range_thread_def handle_finalize_thread_def
      split: if_splits dest!: answer_reply dest: reply_keeps_ok [OF assms(1)])

lemma process_keeps_ok: "uds_server_ok srv \<Longrightarrow> process_request_thread now s srv = Inr (b, s', srv') \<Longrightarrow> uds_server_ok srv'"
  by (erule process_thread_cases) (auto dest: switch_keeps_ok)

section \<open>Memory safety\<close>

text \<open>
  The lengths of a request that the 32-bit sums of the handlers and the 64-bit sum of \<^verbatim>\<open>write_range\<close> do
  not wrap: the key length leaves room for the fixed fields, and the offset of a write for its data.
\<close>

definition lengths_ok :: "UdsType \<Rightarrow> byte list \<Rightarrow> bool" where
  "lengths_ok type payload =
     (case payload_u32 payload 0 of
        Inl _ \<Rightarrow> True
      | Inr key_len \<Rightarrow> unat key_len + 16 < 2 ^ 32 \<and>
          (type = UT_WriteRange \<longrightarrow>
             (case payload_u64 payload (4 + unat key_len) of Inl _ \<Rightarrow> True | Inr offset \<Rightarrow> unat offset + 2 ^ 32 \<le> 2 ^ 64)))"

lemma payload_total:
  "pos + 4 \<le> length payload \<Longrightarrow> \<exists>x. payload_u32 payload pos = Inr x"
  "pos + 8 \<le> length payload \<Longrightarrow> \<exists>x. payload_u64 payload pos = Inr x"
  "4 + unat key_len \<le> length payload \<Longrightarrow> \<exists>x. payload_key payload key_len = Inr x"
  "pos + n \<le> length payload \<Longrightarrow> payload_span payload pos n = Inr (take n (drop pos payload))"
  by (simp_all add: payload_u32_def payload_u64_def payload_key_def payload_span_def)

lemma key_len_sums:
  fixes key_len :: u32
  assumes "unat key_len + 16 < 2 ^ 32"
  shows "unat (4 + key_len) = 4 + unat key_len" "unat (6 + key_len) = 6 + unat key_len" "unat (8 + key_len) = 8 + unat key_len"
    "unat (12 + key_len) = 12 + unat key_len" "unat (16 + key_len) = 16 + unat key_len"
proof -
  have add: "unat (of_nat m + key_len) = m + unat key_len" if "m \<le> 16" for m
    using assms that by (simp add: unat_word_ariths unat_of_nat)
  show "unat (4 + key_len) = 4 + unat key_len" "unat (6 + key_len) = 6 + unat key_len" "unat (8 + key_len) = 8 + unat key_len"
    "unat (12 + key_len) = 12 + unat key_len" "unat (16 + key_len) = 16 + unat key_len"
    using add [of 4] add [of 6] add [of 8] add [of 12] add [of 16] by simp_all
qed

lemma write_range_total:
  assumes "entry_ok e" and "unat offset + 2 ^ 32 \<le> 2 ^ 64" and "length buf < 2 ^ 32"
  shows "\<exists>x. SparseEntry_write_range offset buf e = Inr x"
proof -
  have "unat (offset + vec_size buf) = unat offset + length buf"
    using assms(2,3) by (simp add: vec_size_def unat_word_ariths unat_of_nat)
  then show ?thesis
    using assms(1) by (auto simp: SparseEntry_write_range_def Let_def entry_ok_def word_less_nat_alt not_less)
qed

lemma sparse_write_total:
  assumes "sparse_ok c" and "unat offset + 2 ^ 32 \<le> 2 ^ 64" and "length data < 2 ^ 32"
  shows "\<exists>x. SparseCache_write_range key offset data c = Inr x"
proof (cases "map_of c key")
  case (Some e)
  then have "entry_ok e" using assms(1) by (auto simp: sparse_ok_def list_all_iff dest: map_of_SomeD)
  from write_range_total [OF this assms(2,3)] Some show ?thesis by (auto simp: SparseCache_write_range_def)
qed (auto simp: SparseCache_write_range_def)

lemma get_reply_total:
  assumes "lengths_ok type payload"
  shows "\<exists>x. get_reply payload srv = Inr x"
proof (cases "length payload < 4")
  case False
  then obtain key_len where l: "payload_u32 payload 0 = Inr key_len" using payload_total(1) [of 0 payload] by auto
  have k: "unat key_len + 16 < 2 ^ 32" using assms l by (simp add: lengths_ok_def)
  show ?thesis
  proof (cases "length payload < 6 + unat key_len")
    case True
    then show ?thesis using False by (simp add: get_reply_def l key_len_sums [OF k])
  next
    case fits: False
    then obtain key where key: "payload_key payload key_len = Inr key" using payload_total(3) [of key_len payload] by auto
    have range: "\<exists>x y. payload_u64 payload (6 + unat key_len) = Inr x \<and> payload_u64 payload (14 + unat key_len) = Inr y"
      if "22 + unat key_len \<le> length payload"
      using that payload_total(2) [of "6 + unat key_len" payload] payload_total(2) [of "14 + unat key_len" payload] by auto
    show ?thesis
      using False fits range payload_total(4) [of "5 + unat key_len" 1 payload]
      by (auto simp: get_reply_def l key_len_sums [OF k] key Let_def split: option.split)
  qed
qed (simp add: get_reply_def)

lemma put_reply_total:
  assumes "lengths_ok type payload"
  shows "\<exists>x. put_reply payload srv = Inr x"
proof (cases "length payload < 8")
  case False
  then obtain key_len where l: "payload_u32 payload 0 = Inr key_len" using payload_total(1) [of 0 payload] by auto
  have k: "unat key_len + 16 < 2 ^ 32" using assms l by (simp add: lengths_ok_def)
  show ?thesis
  proof (cases "length payload < 8 + unat key_len")
    case fits: False
    obtain key value_len where f: "payload_key payload key_len = Inr key" "payload_u32 payload (4 + unat key_len) = Inr value_len"
      using fits payload_total(3) [of key_len payload] payload_total(1) [of "4 + unat key_len" payload] by auto
    show ?thesis
      using False fits payload_total(4) [of "8 + unat key_len" "unat value_len" payload]
      by (auto simp: put_reply_def l key_len_sums [OF k] f Let_def)
  qed (use False in \<open>simp add: put_reply_def l key_len_sums [OF k]\<close>)
qed (simp add: put_reply_def)

lemma keyed_reply_total:
  assumes "lengths_ok type payload"
  shows "\<exists>x. delete_reply payload srv = Inr x" and "\<exists>x. finalize_reply payload srv = Inr x" and "\<exists>x. create_sparse_reply payload srv = Inr x"
proof -
  have "(\<exists>x. delete_reply payload srv = Inr x) \<and> (\<exists>x. finalize_reply payload srv = Inr x) \<and> (\<exists>x. create_sparse_reply payload srv = Inr x)"
  proof (cases "length payload < 4")
    case False
    then obtain key_len where l: "payload_u32 payload 0 = Inr key_len" using payload_total(1) [of 0 payload] by auto
    have k: "unat key_len + 16 < 2 ^ 32" using assms l by (simp add: lengths_ok_def)
    show ?thesis
      using False payload_total(3) [of key_len payload] payload_total(2) [of "4 + unat key_len" payload]
      by (auto simp: delete_reply_def finalize_reply_def create_sparse_reply_def l key_len_sums [OF k] Let_def split: prod.split)
  qed (simp add: delete_reply_def finalize_reply_def create_sparse_reply_def)
  then show "\<exists>x. delete_reply payload srv = Inr x" "\<exists>x. finalize_reply payload srv = Inr x" "\<exists>x. create_sparse_reply payload srv = Inr x"
    by simp_all
qed

lemma write_range_reply_total:
  assumes "lengths_ok UT_WriteRange payload" and "sparse_ok (us_sparse srv)"
  shows "\<exists>x. write_range_reply payload srv = Inr x"
proof (cases "length payload < 4")
  case False
  then obtain key_len where l: "payload_u32 payload 0 = Inr key_len" using payload_total(1) [of 0 payload] by auto
  have k: "unat key_len + 16 < 2 ^ 32" using assms l by (simp add: lengths_ok_def)
  show ?thesis
  proof (cases "length payload < 16 + unat key_len")
    case fits: False
    obtain key offset data_len where f: "payload_key payload key_len = Inr key" "payload_u64 payload (4 + unat key_len) = Inr offset"
      "payload_u32 payload (12 + unat key_len) = Inr data_len"
      using fits payload_total(3) [of key_len payload] payload_total(2) [of "4 + unat key_len" payload]
        payload_total(1) [of "12 + unat key_len" payload] by auto
    have o: "unat offset + 2 ^ 32 \<le> 2 ^ 64" using assms(1) l f(2) by (simp add: lengths_ok_def)
    have "\<exists>x. SparseCache_write_range key offset (take (unat data_len) (drop (16 + unat key_len) payload)) (us_sparse srv) = Inr x"
    proof (rule sparse_write_total [OF assms(2) o])
      have "unat data_len < 2 ^ 32" using unsigned_less [of data_len, where 'a = nat] by simp
      then show "length (take (unat data_len) (drop (16 + unat key_len) payload)) < 2 ^ 32" by simp
    qed
    then show ?thesis
      using False fits payload_total(4) [of "16 + unat key_len" "unat data_len" payload]
      by (auto simp: write_range_reply_def l key_len_sums [OF k] f Let_def)
  qed (use False in \<open>simp add: write_range_reply_def l key_len_sums [OF k]\<close>)
qed (simp add: write_range_reply_def)

lemma switch_total:
  assumes "lengths_ok type payload" and "uds_server_ok srv"
  shows "\<exists>s' srv'. switch_thread now (UdsType_value type) payload rid s srv = Inr (s', srv')"
proof -
  have a: "\<exists>s' srv'. answer send_response_sync now ty rid reply s = Inr (s', srv')" if "\<exists>x. reply = Inr x" for ty reply
    using that by (auto simp: answer_def split: prod.split option.split)
  show ?thesis
    using assms get_reply_total [OF assms(1)] put_reply_total [OF assms(1)] keyed_reply_total [OF assms(1)] write_range_reply_total
    by (cases type)
      (auto simp: switch_thread_def handle_get_thread_def handle_put_thread_def handle_delete_thread_def
        handle_create_sparse_thread_def handle_write_range_thread_def handle_finalize_thread_def uds_ok_sparse intro!: a)
qed



end
