(* ===== verification/Client_SDK.thy ===== *)
theory Client_SDK
  imports Unix_Server
begin

text \<open>
  The C client library: \<^verbatim>\<open>src/include/elcache/elcache_sdk.h\<close> and \<^verbatim>\<open>src/src/sdk/elcache_client.c\<close>. A client
  talks to the server over its socket: \<open>ec_sends\<close> is what the calls of \<^verbatim>\<open>send\<close> will return, \<open>ec_recvs\<close> what
  the calls of \<^verbatim>\<open>recv\<close> will return, \<open>ec_out\<close> the bytes sent so far. The receive buffer is kept with its
  contents, because answers are parsed in it; of the send buffer only the size matters. Writing past
  the end of a buffer, reading past it and \<^verbatim>\<open>memcpy\<close> between overlapping regions are
  \<open>Undefined_behaviour\<close>.

  The client pointer of a call is never null here; the other pointers may be, and are options. A
  buffer argument is its size. The results of a call include what it stored through its output
  pointers. \<open>now_ms\<close> is the wall clock of the header, \<open>ec_clock\<close> the readings of the monotonic clock.
\<close>

section \<open>State\<close>

datatype elcache_error = ELCACHE_OK | ERR_INVALID_ARG | ERR_NOT_FOUND | ERR_PARTIAL | ERR_TIMEOUT | ERR_CONNECTION
  | ERR_PROTOCOL | ERR_BUFFER_TOO_SMALL | ERR_KEY_TOO_LARGE | ERR_VALUE_TOO_LARGE | ERR_OUT_OF_MEMORY | ERR_INTERNAL

fun elcache_error_value :: "elcache_error \<Rightarrow> int" where
  "elcache_error_value ELCACHE_OK = 0"
| "elcache_error_value ERR_INVALID_ARG = -1"
| "elcache_error_value ERR_NOT_FOUND = -2"
| "elcache_error_value ERR_PARTIAL = -3"
| "elcache_error_value ERR_TIMEOUT = -4"
| "elcache_error_value ERR_CONNECTION = -5"
| "elcache_error_value ERR_PROTOCOL = -6"
| "elcache_error_value ERR_BUFFER_TOO_SMALL = -7"
| "elcache_error_value ERR_KEY_TOO_LARGE = -8"
| "elcache_error_value ERR_VALUE_TOO_LARGE = -9"
| "elcache_error_value ERR_OUT_OF_MEMORY = -10"
| "elcache_error_value ERR_INTERNAL = -11"

fun elcache_error_string :: "elcache_error \<Rightarrow> string" where
  "elcache_error_string ELCACHE_OK = ''Success''"
| "elcache_error_string ERR_INVALID_ARG = ''Invalid argument''"
| "elcache_error_string ERR_NOT_FOUND = ''Not found''"
| "elcache_error_string ERR_PARTIAL = ''Partial data''"
| "elcache_error_string ERR_TIMEOUT = ''Timeout''"
| "elcache_error_string ERR_CONNECTION = ''Connection error''"
| "elcache_error_string ERR_PROTOCOL = ''Protocol error''"
| "elcache_error_string ERR_BUFFER_TOO_SMALL = ''Buffer too small''"
| "elcache_error_string ERR_KEY_TOO_LARGE = ''Key too large''"
| "elcache_error_string ERR_VALUE_TOO_LARGE = ''Value too large''"
| "elcache_error_string ERR_OUT_OF_MEMORY = ''Out of memory''"
| "elcache_error_string ERR_INTERNAL = ''Internal error''"

record PutOptions =
  po_ttl_seconds :: int
  po_flags :: u32

record GetOptions =
  go_offset :: u64
  go_length :: u64

datatype send_event = Accept nat | Send_interrupted | Send_failed

datatype recv_event = Deliver "byte list" | Recv_interrupted | Recv_failed

record Client =
  ec_fd_open :: bool
  ec_shm_mapped :: bool
  ec_recv_buffer :: "byte list"
  ec_send_buffer_size :: u64
  ec_timeout_ms :: int
  ec_next_request_id :: u32
  ec_last_error :: string
  ec_hits :: u64
  ec_misses :: u64
  ec_partial_hits :: u64
  ec_bytes_read :: u64
  ec_bytes_written :: u64
  ec_total_latency_us :: u64
  ec_request_count :: u64
  ec_max_latency_us :: u64
  ec_sends :: "send_event list"
  ec_recvs :: "recv_event list"
  ec_out :: "byte list"
  ec_clock :: "nat \<Rightarrow> u64"
  ec_ticks :: nat

definition DEFAULT_BUFFER :: nat where
  "DEFAULT_BUFFER = 256 * 1024"

text \<open>\<open>garbage\<close> is what \<^verbatim>\<open>malloc\<close> left in the receive buffer.\<close>

definition elcache_client_create :: "byte list \<Rightarrow> (nat \<Rightarrow> u64) \<Rightarrow> Client" where
  "elcache_client_create garbage clock =
     \<lparr>ec_fd_open = False, ec_shm_mapped = False,
      ec_recv_buffer = take DEFAULT_BUFFER (garbage @ replicate DEFAULT_BUFFER 0), ec_send_buffer_size = of_nat DEFAULT_BUFFER,
      ec_timeout_ms = 30000, ec_next_request_id = 1, ec_last_error = [],
      ec_hits = 0, ec_misses = 0, ec_partial_hits = 0, ec_bytes_read = 0, ec_bytes_written = 0,
      ec_total_latency_us = 0, ec_request_count = 0, ec_max_latency_us = 0,
      ec_sends = [], ec_recvs = [], ec_out = [], ec_clock = clock, ec_ticks = 0\<rparr>"

abbreviation recv_buffer_size :: "Client \<Rightarrow> u64" where
  "recv_buffer_size c \<equiv> vec_size (ec_recv_buffer c)"

definition set_error :: "string \<Rightarrow> Client \<Rightarrow> Client" where
  "set_error msg c = c\<lparr>ec_last_error := take 255 msg\<rparr>"

definition elcache_client_disconnect :: "Client \<Rightarrow> Client" where
  "elcache_client_disconnect c = c\<lparr>ec_fd_open := False, ec_shm_mapped := False\<rparr>"

definition is_connected :: "Client \<Rightarrow> bool" where
  "is_connected c = (ec_fd_open c \<or> ec_shm_mapped c)"

text \<open>\<open>Some (sends, recvs)\<close> is a new socket; \<open>None\<close> for the socket and for the connection are failures.\<close>

definition elcache_client_connect_unix ::
    "string option \<Rightarrow> (send_event list \<times> recv_event list) option option \<Rightarrow> Client \<Rightarrow> elcache_error \<times> Client" where
  "elcache_client_connect_unix socket_path outcome c =
     (if socket_path = None then (ERR_INVALID_ARG, c)
      else
        let c = elcache_client_disconnect c
        in case outcome of
            None \<Rightarrow> (ERR_CONNECTION, set_error ''Failed to create socket'' c)
          | Some None \<Rightarrow> (ERR_CONNECTION, set_error ''Failed to connect'' c)
          | Some (Some (sends, recvs)) \<Rightarrow>
              (ELCACHE_OK, c\<lparr>ec_fd_open := True, ec_sends := sends, ec_recvs := recvs, ec_out := []\<rparr>))"

datatype shm_outcome = Shm_open_failed | Shm_stat_failed | Shm_map_failed | Shm_mapped u32

definition elcache_client_connect_shm :: "string option \<Rightarrow> shm_outcome \<Rightarrow> Client \<Rightarrow> elcache_error \<times> Client" where
  "elcache_client_connect_shm shm_path outcome c =
     (if shm_path = None then (ERR_INVALID_ARG, c)
      else
        let c = elcache_client_disconnect c
        in case outcome of
            Shm_open_failed \<Rightarrow> (ERR_CONNECTION, set_error ''Failed to open shared memory'' c)
          | Shm_stat_failed \<Rightarrow> (ERR_CONNECTION, set_error ''Failed to stat shared memory'' c)
          | Shm_map_failed \<Rightarrow> (ERR_CONNECTION, set_error ''Failed to map shared memory'' c)
          | Shm_mapped magic \<Rightarrow>
              if magic \<noteq> PROTO_MAGIC then (ERR_PROTOCOL, set_error ''Invalid shared memory format'' c)
              else (ELCACHE_OK, c\<lparr>ec_shm_mapped := True\<rparr>))"

definition set_timeout :: "int \<Rightarrow> Client \<Rightarrow> Client" where
  "set_timeout timeout_ms c = c\<lparr>ec_timeout_ms := timeout_ms\<rparr>"

text \<open>\<^verbatim>\<open>realloc\<close> keeps the common prefix; \<open>None\<close> is its failure.\<close>

definition set_recv_buffer :: "u64 \<Rightarrow> byte list option \<Rightarrow> Client \<Rightarrow> Client" where
  "set_recv_buffer n garbage c =
     (case garbage of
        Some g \<Rightarrow>
          if n > 0 then c\<lparr>ec_recv_buffer := take (unat n) (ec_recv_buffer c @ g @ replicate (unat n) 0)\<rparr> else c
      | None \<Rightarrow> c)"

definition set_send_buffer :: "u64 \<Rightarrow> bool \<Rightarrow> Client \<Rightarrow> Client" where
  "set_send_buffer n allocated c = (if n > 0 \<and> allocated then c\<lparr>ec_send_buffer_size := n\<rparr> else c)"

section \<open>Sending and receiving\<close>

fun client_send_loop :: "byte list \<Rightarrow> send_event list \<Rightarrow> byte list \<Rightarrow> bool \<times> send_event list \<times> byte list" where
  "client_send_loop data [] out = (data = [], [], out)"
| "client_send_loop data (ev # evs) out =
     (if data = [] then (True, ev # evs, out)
      else case ev of
          Accept n \<Rightarrow> client_send_loop (drop n data) evs (out @ take n data)
        | Send_interrupted \<Rightarrow> client_send_loop data evs out
        | Send_failed \<Rightarrow> (False, evs, out))"

definition client_send_all :: "byte list \<Rightarrow> Client \<Rightarrow> elcache_error \<times> Client" where
  "client_send_all data c =
     (if \<not> ec_fd_open c then (ERR_CONNECTION, set_error ''Send failed'' c)
      else case client_send_loop data (ec_sends c) (ec_out c) of
          (sent, evs, out) \<Rightarrow>
            let c = c\<lparr>ec_sends := evs, ec_out := out\<rparr>
            in if sent then (ELCACHE_OK, c) else (ERR_CONNECTION, set_error ''Send failed'' c))"

text \<open>The bytes received, and the error message if the loop gave up.\<close>

function client_recv_loop :: "nat \<Rightarrow> byte list \<Rightarrow> recv_event list \<Rightarrow> string option \<times> byte list \<times> recv_event list" where
  "client_recv_loop remaining got evs =
     (if remaining = 0 then (None, got, evs)
      else case evs of
          [] \<Rightarrow> (Some ''Receive failed'', got, [])
        | Recv_interrupted # evs' \<Rightarrow> client_recv_loop remaining got evs'
        | Recv_failed # evs' \<Rightarrow> (Some ''Receive failed'', got, evs')
        | Deliver seg # evs' \<Rightarrow>
            if seg = [] then (Some ''Connection closed'', got, evs')
            else client_recv_loop (remaining - length (take remaining seg)) (got @ take remaining seg)
                   (if length seg \<le> remaining then evs' else Deliver (drop remaining seg) # evs'))"
  by pat_completeness auto
termination
  by (relation "measure (\<lambda>(remaining, got, evs). remaining + length evs)") (auto simp: min_def)

declare client_recv_loop.simps [simp del]

definition client_recv_all :: "nat \<Rightarrow> nat \<Rightarrow> Client \<Rightarrow> (elcache_error \<times> Client) result" where
  "client_recv_all pos len c =
     (case client_recv_loop len [] (ec_recvs c) of
        (err, got, evs) \<Rightarrow>
          if length (ec_recv_buffer c) < pos + length got then Inl Undefined_behaviour
          else
            let c = c\<lparr>ec_recvs := evs, ec_recv_buffer := overwrite (ec_recv_buffer c) pos got\<rparr>
            in case err of None \<Rightarrow> Inr (ELCACHE_OK, c) | Some msg \<Rightarrow> Inr (ERR_CONNECTION, set_error msg c))"

text \<open>Go on only after success; \<open>fail\<close> turns the error into the result of the call.\<close>

definition on_ok ::
    "(elcache_error \<Rightarrow> 'a) \<Rightarrow> (elcache_error \<times> Client) result \<Rightarrow> (Client \<Rightarrow> ('a \<times> Client) result) \<Rightarrow> ('a \<times> Client) result" where
  "on_ok fail r f = bind_res r (\<lambda>(err, c). if err \<noteq> ELCACHE_OK then Inr (fail err, c) else f c)"

text \<open>Header and payload are laid out in the send buffer and sent from there.\<close>

definition send_request :: "u64 \<Rightarrow> UdsType \<Rightarrow> byte list \<Rightarrow> Client \<Rightarrow> (elcache_error \<times> Client) result" where
  "send_request now_ms type payload c =
     (if unat (ec_send_buffer_size c) < HEADER_SIZE + length payload then Inl Undefined_behaviour
      else Inr (client_send_all (uds_message now_ms type (ec_next_request_id c) payload)
             (c\<lparr>ec_next_request_id := ec_next_request_id c + 1\<rparr>)))"

text \<open>The way all calls but \<^verbatim>\<open>get\<close> wait for their answer: the length of the header is used unchecked.\<close>

definition recv_response :: "Client \<Rightarrow> (elcache_error \<times> Client) result" where
  "recv_response c =
     on_ok (\<lambda>e. e) (client_recv_all 0 HEADER_SIZE c) (\<lambda>c.
       bind_res (payload_u32 (ec_recv_buffer c) 8) (\<lambda>response_len. client_recv_all HEADER_SIZE (unat response_len) c))"

definition get_time_us :: "Client \<Rightarrow> u64 \<times> Client" where
  "get_time_us c = (ec_clock c (ec_ticks c), c\<lparr>ec_ticks := Suc (ec_ticks c)\<rparr>)"

definition count_latency :: "u64 \<Rightarrow> Client \<Rightarrow> Client" where
  "count_latency start_time c =
     (case get_time_us c of
        (t, c) \<Rightarrow>
          let latency = t - start_time
          in c\<lparr>ec_request_count := ec_request_count c + 1, ec_total_latency_us := ec_total_latency_us c + latency,
               ec_max_latency_us := (if latency > ec_max_latency_us c then latency else ec_max_latency_us c)\<rparr>)"

section \<open>Reading\<close>

definition key_field :: "byte list \<Rightarrow> byte list" where
  "key_field key = encode_u32 (ucast (vec_size key)) @ key"

definition get_request :: "byte list \<Rightarrow> GetOptions option \<Rightarrow> byte list" where
  "get_request key options =
     key_field key @ [0] @
     (case options of
        Some opts \<Rightarrow>
          if go_offset opts > 0 \<or> go_length opts > 0 then [1] @ encode_u64 (go_offset opts) @ encode_u64 (go_length opts) else [0]
      | None \<Rightarrow> [0])"

text \<open>What a read returns: the error, the bytes stored in the buffer and the length stored.\<close>

type_synonym get_result = "elcache_error \<times> byte list option \<times> u64 option"

abbreviation get_failed :: "elcache_error \<Rightarrow> get_result" where
  "get_failed err \<equiv> (err, None, None)"

text \<open>
  The answer in the receive buffer. \<open>into_recv\<close> says that the caller's buffer is the receive buffer
  itself, whose start then overlaps the data when there are more than 33 bytes of it.
\<close>

definition get_finish :: "u64 \<Rightarrow> bool \<Rightarrow> u64 \<Rightarrow> Client \<Rightarrow> (get_result \<times> Client) result" where
  "get_finish start_time into_recv buffer_size c =
     (let buf = ec_recv_buffer c
      in bind_res (payload_u32 buf HEADER_SIZE) (\<lambda>code.
        bind_res (payload_span buf (HEADER_SIZE + 4) 1) (\<lambda>meta.
          let pos = HEADER_SIZE + 5 + (if meta ! 0 \<noteq> 0 then 20 else 0)
          in bind_res (payload_u32 buf pos) (\<lambda>data_len.
            let pos = pos + 4
            in if code = 1 then
                 Inr (get_failed ERR_NOT_FOUND, set_error ''Key not found'' (c\<lparr>ec_misses := ec_misses c + 1\<rparr>))
               else if ucast data_len > buffer_size then
                 Inr ((ERR_BUFFER_TOO_SMALL, None, Some (ucast data_len)), set_error ''Buffer too small'' c)
               else bind_res (payload_span buf pos (unat data_len)) (\<lambda>data.
                 if into_recv \<and> pos < unat data_len then Inl Undefined_behaviour
                 else
                   let c = (if into_recv then c\<lparr>ec_recv_buffer := overwrite buf 0 data\<rparr> else c);
                       c = count_latency start_time c;
                       c = c\<lparr>ec_bytes_read := ec_bytes_read c + ucast data_len\<rparr>
                   in if code = 0 then Inr ((ELCACHE_OK, Some data, Some (ucast data_len)), c\<lparr>ec_hits := ec_hits c + 1\<rparr>)
                      else if code = 2 then
                        Inr ((ERR_PARTIAL, Some data, Some (ucast data_len)), c\<lparr>ec_partial_hits := ec_partial_hits c + 1\<rparr>)
                      else Inr ((ELCACHE_OK, Some data, Some (ucast data_len)), c))))))"

definition get_receive :: "u64 \<Rightarrow> bool \<Rightarrow> u64 \<Rightarrow> Client \<Rightarrow> (get_result \<times> Client) result" where
  "get_receive start_time into_recv buffer_size c =
     on_ok get_failed (client_recv_all 0 HEADER_SIZE c) (\<lambda>c.
       let buf = ec_recv_buffer c
       in bind_res (payload_u32 buf 0) (\<lambda>magic.
         if magic \<noteq> PROTO_MAGIC then Inr (get_failed ERR_PROTOCOL, set_error ''Invalid response magic'' c)
         else bind_res (payload_u16 buf 6) (\<lambda>msg_type.
           bind_res (payload_u32 buf 8) (\<lambda>response_len.
             if msg_type \<noteq> UdsType_value UT_GetResponse then
               Inr (get_failed ERR_PROTOCOL, set_error ''Unexpected response type'' c)
             else if ucast response_len > recv_buffer_size c - of_nat HEADER_SIZE then
               Inr (get_failed ERR_BUFFER_TOO_SMALL, set_error ''Response too large'' c)
             else on_ok get_failed (client_recv_all HEADER_SIZE (unat response_len) c) (get_finish start_time into_recv buffer_size)))))"

definition get_core :: "u64 \<Rightarrow> byte list option \<Rightarrow> bool \<Rightarrow> u64 option \<Rightarrow> GetOptions option \<Rightarrow> Client \<Rightarrow> (get_result \<times> Client) result" where
  "get_core now_ms key into_recv buffer options c =
     (case (key, buffer) of
        (Some k, Some buffer_size) \<Rightarrow>
          if 8192 < vec_size k then Inr (get_failed ERR_KEY_TOO_LARGE, set_error ''Key too large'' c)
          else if \<not> is_connected c then Inr (get_failed ERR_CONNECTION, set_error ''Not connected'' c)
          else (case get_time_us c of
              (start_time, c) \<Rightarrow>
                on_ok get_failed (send_request now_ms UT_Get (get_request k options) c) (get_receive start_time into_recv buffer_size))
      | _ \<Rightarrow> Inr (get_failed ERR_INVALID_ARG, c))"

definition elcache_client_get ::
    "u64 \<Rightarrow> byte list option \<Rightarrow> u64 option \<Rightarrow> GetOptions option \<Rightarrow> Client \<Rightarrow> (get_result \<times> Client) result" where
  "elcache_client_get now_ms key buffer options c = get_core now_ms key False buffer options c"

text \<open>
  \<^verbatim>\<open>get_alloc\<close>: the first try reads into the receive buffer. The length the second try uses is
  uninitialised when the first try did not store one. \<open>allocated\<close> is whether \<^verbatim>\<open>malloc\<close> succeeds.
\<close>

definition elcache_client_get_alloc ::
    "u64 \<Rightarrow> byte list option \<Rightarrow> bool \<Rightarrow> GetOptions option \<Rightarrow> Client \<Rightarrow> (get_result \<times> Client) result" where
  "elcache_client_get_alloc now_ms key allocated options c =
     (if key = None then Inr (get_failed ERR_INVALID_ARG, c)
      else bind_res (get_core now_ms key True (Some (recv_buffer_size c)) options c) (\<lambda>((err, data, len), c).
        if err = ELCACHE_OK \<or> err = ERR_PARTIAL then
          (if allocated then Inr ((err, data, len), c) else Inr (get_failed ERR_OUT_OF_MEMORY, c))
        else if err = ERR_BUFFER_TOO_SMALL then
          (case len of
             None \<Rightarrow> Inl Undefined_behaviour
           | Some n \<Rightarrow>
               if \<not> allocated then Inr (get_failed ERR_OUT_OF_MEMORY, c)
               else bind_res (elcache_client_get now_ms key (Some n) options c) (\<lambda>((err, data, len), c).
                 if err = ELCACHE_OK \<or> err = ERR_PARTIAL then Inr ((err, data, len), c) else Inr (get_failed err, c)))
        else Inr (get_failed err, c)))"

definition elcache_client_read_range :: "u64 \<Rightarrow> byte list option \<Rightarrow> u64 \<Rightarrow> u64 option \<Rightarrow> Client \<Rightarrow> (get_result \<times> Client) result" where
  "elcache_client_read_range now_ms key offset buffer c =
     elcache_client_get now_ms key buffer
       (Some \<lparr>go_offset = offset, go_length = (case buffer of Some n \<Rightarrow> n | None \<Rightarrow> 0)\<rparr>) c"

section \<open>Writing\<close>

definition put_trailer :: "PutOptions option \<Rightarrow> byte list" where
  "put_trailer options =
     (case options of
        Some opts \<Rightarrow>
          (if po_ttl_seconds opts > 0 then [1] @ encode_u64 (word_of_int (po_ttl_seconds opts)) else [0]) @ encode_u32 (po_flags opts)
      | None \<Rightarrow> [0] @ encode_u32 0)"

definition put_request :: "byte list \<Rightarrow> byte list \<Rightarrow> PutOptions option \<Rightarrow> byte list" where
  "put_request key v options = key_field key @ encode_u32 (ucast (vec_size v)) @ v @ put_trailer options"

definition elcache_client_put ::
    "u64 \<Rightarrow> byte list option \<Rightarrow> byte list option \<Rightarrow> PutOptions option \<Rightarrow> Client \<Rightarrow> (elcache_error \<times> Client) result" where
  "elcache_client_put now_ms key data options c =
     (case (key, data) of
        (Some k, Some v) \<Rightarrow>
          if 8192 < vec_size k then Inr (ERR_KEY_TOO_LARGE, set_error ''Key too large'' c)
          else if \<not> is_connected c then Inr (ERR_CONNECTION, set_error ''Not connected'' c)
          else (case get_time_us c of
              (start_time, c) \<Rightarrow>
                let needed = of_nat HEADER_SIZE + 4 + vec_size k + 4 + vec_size v + 1 + 8 + 4
                in if needed > ec_send_buffer_size c then Inr (ERR_VALUE_TOO_LARGE, set_error ''Value too large for buffer'' c)
                   else on_ok (\<lambda>e. e) (send_request now_ms UT_Put (put_request k v options) c) (\<lambda>c.
                     on_ok (\<lambda>e. e) (recv_response c) (\<lambda>c.
                       bind_res (payload_u32 (ec_recv_buffer c) HEADER_SIZE) (\<lambda>code.
                         let c = count_latency start_time c;
                             c = c\<lparr>ec_bytes_written := ec_bytes_written c + vec_size v\<rparr>
                         in if code \<noteq> 0 then Inr (ERR_INTERNAL, set_error ''Put failed'' c) else Inr (ELCACHE_OK, c)))))
      | _ \<Rightarrow> Inr (ERR_INVALID_ARG, c))"

definition elcache_client_delete :: "u64 \<Rightarrow> byte list option \<Rightarrow> Client \<Rightarrow> (elcache_error \<times> Client) result" where
  "elcache_client_delete now_ms key c =
     (case key of
        Some k \<Rightarrow>
          if \<not> is_connected c then Inr (ERR_CONNECTION, set_error ''Not connected'' c)
          else on_ok (\<lambda>e. e) (send_request now_ms UT_Delete (key_field k) c) recv_response
      | None \<Rightarrow> Inr (ERR_INVALID_ARG, c))"

definition create_request :: "byte list \<Rightarrow> u64 \<Rightarrow> PutOptions option \<Rightarrow> byte list" where
  "create_request key total_size options = key_field key @ encode_u64 total_size @ put_trailer options"

definition elcache_client_create_sparse ::
    "u64 \<Rightarrow> byte list option \<Rightarrow> u64 \<Rightarrow> PutOptions option \<Rightarrow> Client \<Rightarrow> (elcache_error \<times> Client) result" where
  "elcache_client_create_sparse now_ms key total_size options c =
     (case key of
        Some k \<Rightarrow>
          if 8192 < vec_size k then Inr (ERR_KEY_TOO_LARGE, set_error ''Key too large'' c)
          else if \<not> is_connected c then Inr (ERR_CONNECTION, set_error ''Not connected'' c)
          else on_ok (\<lambda>e. e) (send_request now_ms UT_CreateSparse (create_request k total_size options) c) (\<lambda>c.
            on_ok (\<lambda>e. e) (recv_response c) (\<lambda>c.
              bind_res (payload_u32 (ec_recv_buffer c) HEADER_SIZE) (\<lambda>code.
                if code \<noteq> 0 then Inr (ERR_INTERNAL, set_error ''Create sparse failed'' c) else Inr (ELCACHE_OK, c))))
      | None \<Rightarrow> Inr (ERR_INVALID_ARG, c))"

definition write_request :: "byte list \<Rightarrow> u64 \<Rightarrow> byte list \<Rightarrow> byte list" where
  "write_request key offset data = key_field key @ encode_u64 offset @ encode_u32 (ucast (vec_size data)) @ data"

definition elcache_client_write_range ::
    "u64 \<Rightarrow> byte list option \<Rightarrow> u64 \<Rightarrow> byte list option \<Rightarrow> Client \<Rightarrow> (elcache_error \<times> Client) result" where
  "elcache_client_write_range now_ms key offset data c =
     (case (key, data) of
        (Some k, Some d) \<Rightarrow>
          if 8192 < vec_size k then Inr (ERR_KEY_TOO_LARGE, set_error ''Key too large'' c)
          else if \<not> is_connected c then Inr (ERR_CONNECTION, set_error ''Not connected'' c)
          else if of_nat HEADER_SIZE + 4 + vec_size k + 8 + 4 + vec_size d > ec_send_buffer_size c then
            Inr (ERR_VALUE_TOO_LARGE, set_error ''Data too large for buffer'' c)
          else on_ok (\<lambda>e. e) (send_request now_ms UT_WriteRange (write_request k offset d) c) (\<lambda>c.
            on_ok (\<lambda>e. e) (recv_response c) (\<lambda>c.
              bind_res (payload_u32 (ec_recv_buffer c) HEADER_SIZE) (\<lambda>code.
                if code = 1 then Inr (ERR_NOT_FOUND, set_error ''Key not found or not sparse'' c)
                else if code = 2 then Inr (ERR_INVALID_ARG, set_error ''Invalid range'' c)
                else if code \<noteq> 0 then Inr (ERR_INTERNAL, set_error ''Write range failed'' c)
                else Inr (ELCACHE_OK, c\<lparr>ec_bytes_written := ec_bytes_written c + vec_size d\<rparr>))))
      | _ \<Rightarrow> Inr (ERR_INVALID_ARG, c))"

definition elcache_client_finalize :: "u64 \<Rightarrow> byte list option \<Rightarrow> Client \<Rightarrow> (elcache_error \<times> Client) result" where
  "elcache_client_finalize now_ms key c =
     (case key of
        Some k \<Rightarrow>
          if \<not> is_connected c then Inr (ERR_CONNECTION, set_error ''Not connected'' c)
          else on_ok (\<lambda>e. e) (send_request now_ms UT_Finalize (key_field k) c) (\<lambda>c.
            on_ok (\<lambda>e. e) (recv_response c) (\<lambda>c.
              bind_res (payload_u32 (ec_recv_buffer c) HEADER_SIZE) (\<lambda>code.
                if code = 1 then Inr (ERR_NOT_FOUND, set_error ''Key not found'' c)
                else if code = 2 then Inr (ERR_PARTIAL, set_error ''Not all ranges written'' c)
                else if code \<noteq> 0 then Inr (ERR_INTERNAL, set_error ''Finalize failed'' c)
                else Inr (ELCACHE_OK, c))))
      | None \<Rightarrow> Inr (ERR_INVALID_ARG, c))"

section \<open>Metadata and statistics\<close>

definition elcache_client_metadata :: "byte list option \<Rightarrow> elcache_error" where
  "elcache_client_metadata key = (if key = None then ERR_INVALID_ARG else ERR_INTERNAL)"

text \<open>The result and the flag stored through the output pointer.\<close>

definition elcache_client_exists :: "byte list option \<Rightarrow> elcache_error \<times> bool option" where
  "elcache_client_exists key =
     (if key = None then (ERR_INVALID_ARG, None)
      else let err = elcache_client_metadata key
           in (if err = ERR_NOT_FOUND then ELCACHE_OK else err, Some (err = ELCACHE_OK)))"

record ClientStats =
  es_hits :: u64
  es_misses :: u64
  es_partial_hits :: u64
  es_bytes_read :: u64
  es_bytes_written :: u64
  es_latency_us_avg :: u64
  es_latency_us_p99 :: u64

definition elcache_client_stats :: "Client \<Rightarrow> ClientStats" where
  "elcache_client_stats c =
     \<lparr>es_hits = ec_hits c, es_misses = ec_misses c, es_partial_hits = ec_partial_hits c,
      es_bytes_read = ec_bytes_read c, es_bytes_written = ec_bytes_written c,
      es_latency_us_avg = (if ec_request_count c > 0 then ec_total_latency_us c div ec_request_count c else 0),
      es_latency_us_p99 = ec_max_latency_us c\<rparr>"

definition elcache_client_reset_stats :: "Client \<Rightarrow> Client" where
  "elcache_client_reset_stats c =
     c\<lparr>ec_hits := 0, ec_misses := 0, ec_partial_hits := 0, ec_bytes_read := 0, ec_bytes_written := 0,
       ec_total_latency_us := 0, ec_request_count := 0, ec_max_latency_us := 0\<rparr>"

section \<open>Well-behaved sockets\<close>

text \<open>
  \<open>incoming\<close> is the byte stream the receive calls deliver; on a good socket they may be interrupted but
  neither fail nor report the end of the stream.
\<close>

fun incoming :: "recv_event list \<Rightarrow> byte list" where
  "incoming [] = []"
| "incoming (Deliver seg # evs) = seg @ incoming evs"
| "incoming (_ # evs) = incoming evs"

definition recv_ok :: "recv_event list \<Rightarrow> bool" where
  "recv_ok evs \<longleftrightarrow> Recv_failed \<notin> set evs \<and> Deliver [] \<notin> set evs"

lemma recv_ok_simps [simp]:
  "recv_ok []" "recv_ok (Recv_interrupted # evs) = recv_ok evs" "\<not> recv_ok (Recv_failed # evs)"
  "recv_ok (Deliver seg # evs) \<longleftrightarrow> seg \<noteq> [] \<and> recv_ok evs" "recv_ok (xs @ ys) \<longleftrightarrow> recv_ok xs \<and> recv_ok ys"
  "recv_ok (map Deliver segs) = segments_ok segs"
  by (auto simp: recv_ok_def segments_ok_def)

lemma incoming_append [simp]: "incoming (xs @ ys) = incoming xs @ incoming ys"
  by (induction xs rule: incoming.induct) simp_all

lemma incoming_map [simp]: "incoming (map Deliver segs) = concat segs"
  by (induction segs) simp_all

lemma recv_loop_ok:
  assumes "recv_ok evs" and "n \<le> length (incoming evs)"
  shows "\<exists>evs'. client_recv_loop n got evs = (None, got @ take n (incoming evs), evs')
      \<and> incoming evs' = drop n (incoming evs) \<and> recv_ok evs'"
  using assms
proof (induction n got evs rule: client_recv_loop.induct)
  case (1 n got evs)
  show ?case
  proof (cases "n = 0")
    case True
    then show ?thesis using "1.prems" by (subst client_recv_loop.simps) simp
  next
    case False
    then show ?thesis
    proof (cases evs)
      case (Cons ev evs')
      then show ?thesis
      proof (cases ev)
        case (Deliver seg)
        let ?evs = "if length seg \<le> n then evs' else Deliver (drop n seg) # evs'"
        have "recv_ok ?evs" "n - length (take n seg) \<le> length (incoming ?evs)" "seg \<noteq> []"
          using "1.prems" Cons Deliver by (auto split: if_splits)
        from "1.IH"(1) [OF False Cons Deliver this(3,1,2)] obtain evs'' where
          "client_recv_loop (n - length (take n seg)) (got @ take n seg) ?evs
             = (None, (got @ take n seg) @ take (n - length (take n seg)) (incoming ?evs), evs'')"
          "incoming evs'' = drop (n - length (take n seg)) (incoming ?evs)" "recv_ok evs''" by blast
        then show ?thesis
          using False Cons Deliver \<open>seg \<noteq> []\<close> by (subst client_recv_loop.simps) (auto simp: min_def)
      next
        case Recv_interrupted
        then show ?thesis
          using "1.IH"(2) [OF False Cons] "1.prems" False Cons by (subst client_recv_loop.simps) simp
      qed (use "1.prems" Cons in simp)
    qed (use "1.prems" in simp)
  qed
qed

lemma recv_loop_starved:
  "recv_ok evs \<Longrightarrow> incoming evs = [] \<Longrightarrow> 0 < n \<Longrightarrow> client_recv_loop n got evs = (Some ''Receive failed'', got, [])"
  by (induction evs rule: incoming.induct) (auto simp: client_recv_loop.simps)

lemma recv_all_ok:
  assumes "recv_ok (ec_recvs c)" and "incoming (ec_recvs c) = bs @ rest" and "pos + length bs \<le> length (ec_recv_buffer c)"
  shows "\<exists>evs. client_recv_all pos (length bs) c
           = Inr (ELCACHE_OK, c\<lparr>ec_recvs := evs, ec_recv_buffer := overwrite (ec_recv_buffer c) pos bs\<rparr>)
       \<and> incoming evs = rest \<and> recv_ok evs"
  using recv_loop_ok [OF assms(1), of "length bs" "[]"] assms(2,3) by (auto simp: client_recv_all_def)

lemma recv_all_starved:
  assumes "recv_ok (ec_recvs c)" and "incoming (ec_recvs c) = []" and "0 < n" and "pos \<le> length (ec_recv_buffer c)"
  shows "\<exists>c'. client_recv_all pos n c = Inr (ERR_CONNECTION, c') \<and> ec_out c' = ec_out c"
  using assms by (simp add: client_recv_all_def recv_loop_starved set_error_def)

text \<open>An answer as the receive buffer holds it.\<close>

lemma overwrite_twice:
  "length xs + length ys \<le> length buf \<Longrightarrow> overwrite (overwrite buf 0 xs) (length xs) ys = xs @ ys @ drop (length xs + length ys) buf"
  by (simp add: overwrite_def add.commute)

lemma payload_append:
  "pos + n \<le> length xs \<Longrightarrow> payload_span (xs @ ys) pos n = payload_span xs pos n"
  "pos + 2 \<le> length xs \<Longrightarrow> payload_u16 (xs @ ys) pos = payload_u16 xs pos"
  "pos + 4 \<le> length xs \<Longrightarrow> payload_u32 (xs @ ys) pos = payload_u32 xs pos"
  by (simp_all add: payload_span_def payload_u16_def payload_u32_def)

lemma message_fields:
  fixes t type n rid
  defines "h \<equiv> uds_header t type n rid"
  shows "payload_u32 (h @ rest) 0 = Inr PROTO_MAGIC" and "payload_u16 (h @ rest) 6 = Inr type"
    and "payload_u32 (h @ rest) 8 = Inr n"
  using uds_header_fields [of t type n rid] unfolding h_def by (simp_all add: payload_append HEADER_SIZE_def)

lemma recv_header_ok:
  assumes "recv_ok (ec_recvs c)" and "incoming (ec_recvs c) = uds_header t type n rid @ rest" and "HEADER_SIZE \<le> length (ec_recv_buffer c)"
  shows "\<exists>evs. client_recv_all 0 HEADER_SIZE c
           = Inr (ELCACHE_OK, c\<lparr>ec_recvs := evs, ec_recv_buffer := uds_header t type n rid @ drop HEADER_SIZE (ec_recv_buffer c)\<rparr>)
       \<and> incoming evs = rest \<and> recv_ok evs"
  using recv_all_ok [OF assms(1,2), of 0] assms(3) by (simp add: uds_header_fields overwrite_def)

lemma recv_answer_ok:
  assumes "recv_ok evs" and "incoming evs = p @ rest" and "length h = HEADER_SIZE" and "HEADER_SIZE + length p \<le> length (ec_recv_buffer c)"
  shows "\<exists>evs'. client_recv_all HEADER_SIZE (length p) (c\<lparr>ec_recvs := evs, ec_recv_buffer := h @ drop HEADER_SIZE (ec_recv_buffer c)\<rparr>)
           = Inr (ELCACHE_OK, c\<lparr>ec_recvs := evs', ec_recv_buffer := h @ p @ drop (HEADER_SIZE + length p) (ec_recv_buffer c)\<rparr>)
       \<and> incoming evs' = rest \<and> recv_ok evs'"
  using recv_all_ok [of "c\<lparr>ec_recvs := evs, ec_recv_buffer := h @ drop HEADER_SIZE (ec_recv_buffer c)\<rparr>" p rest HEADER_SIZE] assms
  by (simp add: overwrite_def add.commute)

lemma recv_response_ok:
  assumes "recv_ok (ec_recvs c)" and "incoming (ec_recvs c) = uds_message t type rid p @ rest"
    and "HEADER_SIZE + length p \<le> length (ec_recv_buffer c)" and "fits32 p"
  shows "\<exists>evs. recv_response c
           = Inr (ELCACHE_OK, c\<lparr>ec_recvs := evs, ec_recv_buffer := uds_message t type rid p @ drop (HEADER_SIZE + length p) (ec_recv_buffer c)\<rparr>)
       \<and> incoming evs = rest \<and> recv_ok evs"
proof -
  let ?h = "uds_header t (UdsType_value type) (ucast (vec_size p)) rid"
  obtain evs where h: "client_recv_all 0 HEADER_SIZE c = Inr (ELCACHE_OK, c\<lparr>ec_recvs := evs, ec_recv_buffer := ?h @ drop HEADER_SIZE (ec_recv_buffer c)\<rparr>)"
    "incoming evs = p @ rest" "recv_ok evs"
    using recv_header_ok [OF assms(1), of t "UdsType_value type" "ucast (vec_size p)" rid "p @ rest"] assms(2,3)
    by (auto simp: uds_message_def)
  from recv_answer_ok [OF h(3,2) uds_header_fields(5) assms(3)] show ?thesis
    by (auto simp: recv_response_def on_ok_def h(1) message_fields unat_size32 [OF assms(4)] uds_message_def)
qed

lemma recv_response_starved:
  assumes "recv_ok (ec_recvs c)" and "incoming (ec_recvs c) = []"
  shows "\<exists>c'. recv_response c = Inr (ERR_CONNECTION, c') \<and> ec_out c' = ec_out c"
  using recv_all_starved [OF assms, of HEADER_SIZE 0] by (auto simp: recv_response_def on_ok_def HEADER_SIZE_def)

lemma send_request_ok:
  assumes "ec_fd_open c" and "ec_sends c = [Accept (unat (ec_send_buffer_size c))]"
    and "HEADER_SIZE + length p \<le> unat (ec_send_buffer_size c)"
  shows "send_request t type p c = Inr (ELCACHE_OK, c\<lparr>ec_next_request_id := ec_next_request_id c + 1, ec_sends := [],
           ec_out := ec_out c @ uds_message t type (ec_next_request_id c) p\<rparr>)"
proof -
  let ?m = "uds_message t type (ec_next_request_id c) p"
  have "length ?m \<le> unat (ec_send_buffer_size c)" "?m \<noteq> []"
    using assms(3) uds_header_fields(5) [of t "UdsType_value type" "ucast (vec_size p)" "ec_next_request_id c"]
    by (auto simp: uds_message_def HEADER_SIZE_def simp del: length_0_conv simp flip: length_0_conv)
  then show ?thesis using assms by (simp add: send_request_def client_send_all_def)
qed

section \<open>A client and a server\<close>

text \<open>
  What the server answers to a request, and one call over a connection: the bytes the call sends
  before it waits are cut into segments and served, the answer is cut into segments and delivered
  after what the connection still holds. Each side's bytes are accepted by one call of \<^verbatim>\<open>send\<close> or \<^verbatim>\<open>write\<close>;
  only the receiving sides see them in pieces.
\<close>

fun uds_reply_to :: "UdsType \<Rightarrow> byte list \<Rightarrow> UdsServer \<Rightarrow> uds_reply" where
  "uds_reply_to UT_Get = get_reply"
| "uds_reply_to UT_Put = put_reply"
| "uds_reply_to UT_Delete = delete_reply"
| "uds_reply_to UT_CreateSparse = create_sparse_reply"
| "uds_reply_to UT_WriteRange = write_range_reply"
| "uds_reply_to UT_Finalize = finalize_reply"
| "uds_reply_to _ = (\<lambda>_ srv. Inr (None, srv))"

fun response_type :: "UdsType \<Rightarrow> UdsType" where
  "response_type UT_Get = UT_GetResponse"
| "response_type UT_Put = UT_PutResponse"
| "response_type UT_Delete = UT_DeleteResponse"
| "response_type UT_CreateSparse = UT_CreateSparseResponse"
| "response_type UT_WriteRange = UT_WriteRangeResponse"
| "response_type UT_Finalize = UT_FinalizeResponse"
| "response_type type = type"

text \<open>How much of an answer the server's socket takes at once: more than any answer of the protocol.\<close>

definition SOCKET_BUFFER :: nat where
  "SOCKET_BUFFER = 2 ^ 33"

definition serve_thread :: "u64 \<Rightarrow> byte list list \<Rightarrow> UdsServer \<Rightarrow> (byte list \<times> UdsServer) result" where
  "serve_thread now segs srv =
     bind_res (process_request_thread now (Socket_new segs [SOCKET_BUFFER]) srv) (\<lambda>(_, s, srv). Inr (sk_out s, srv))"

definition serve_coroutine :: "byte list \<Rightarrow> u64 \<Rightarrow> byte list list \<Rightarrow> UdsServer \<Rightarrow> (byte list \<times> UdsServer) result" where
  "serve_coroutine stack now segs srv =
     bind_res (process_request now stack (Socket_new segs [SOCKET_BUFFER]) srv) (\<lambda>(_, s, srv). Inr (sk_out s, srv))"

definition plugged :: "recv_event list \<Rightarrow> Client \<Rightarrow> Client" where
  "plugged evs c = c\<lparr>ec_sends := [Accept (unat (ec_send_buffer_size c))], ec_recvs := evs\<rparr>"

definition sdk_over ::
    "(u64 \<Rightarrow> byte list list \<Rightarrow> UdsServer \<Rightarrow> (byte list \<times> UdsServer) result) \<Rightarrow> (byte list \<Rightarrow> byte list list) \<Rightarrow>
     (Client \<Rightarrow> ('a \<times> Client) result) \<Rightarrow> u64 \<Rightarrow> Client \<times> UdsServer \<Rightarrow> ('a \<times> Client \<times> UdsServer) result" where
  "sdk_over serve pieces op t = (\<lambda>(c, srv).
     bind_res (op (plugged (ec_recvs c) c)) (\<lambda>(_, c0).
       bind_res (serve t (pieces (drop (length (ec_out c)) (ec_out c0))) srv) (\<lambda>(resp, srv).
         bind_res (op (plugged (ec_recvs c @ map Deliver (pieces resp)) c)) (\<lambda>(r, c). Inr (r, c, srv)))))"

definition fragments :: "(byte list \<Rightarrow> byte list list) \<Rightarrow> bool" where
  "fragments pieces \<longleftrightarrow> (\<forall>bs. concat (pieces bs) = bs \<and> segments_ok (pieces bs))"

text \<open>A client between two calls: connected, and with nothing left over from the last answer.\<close>

definition ready :: "Client \<Rightarrow> bool" where
  "ready c \<longleftrightarrow> ec_fd_open c \<and> recv_ok (ec_recvs c) \<and> incoming (ec_recvs c) = [] \<and> 64 \<le> length (ec_recv_buffer c)
     \<and> fits (ec_recv_buffer c)"

definition still_ready :: "Client \<Rightarrow> Client \<Rightarrow> bool" where
  "still_ready c c' \<longleftrightarrow> ready c' \<and> ec_send_buffer_size c' = ec_send_buffer_size c
     \<and> length (ec_recv_buffer c') = length (ec_recv_buffer c)"

text \<open>What the calls need of a server; both implementations provide it.\<close>

locale uds_service =
  fixes serve :: "u64 \<Rightarrow> byte list list \<Rightarrow> UdsServer \<Rightarrow> (byte list \<times> UdsServer) result"
  assumes serve_request:
    "segments_ok segs \<Longrightarrow> concat segs = uds_message t type rid payload \<Longrightarrow> fits32 payload \<Longrightarrow>
     uds_reply_to type payload srv = Inr (Some p, srv') \<Longrightarrow> HEADER_SIZE + length p \<le> SOCKET_BUFFER \<Longrightarrow>
     serve now segs srv = Inr (uds_message now (response_type type) rid p, srv')"
begin

lemma over_exchange:
  assumes "fragments pieces" and "ready c" and "ready c1" and "ec_recvs c1 = ec_recvs c" and "ec_out c1 = ec_out c"
    and op: "\<And>evs. op (plugged evs c) = on_ok fail (send_request t type payload (plugged evs c1)) f"
    and starved: "\<And>c. recv_ok (ec_recvs c) \<Longrightarrow> incoming (ec_recvs c) = [] \<Longrightarrow> \<exists>r c'. f c = Inr (r, c') \<and> ec_out c' = ec_out c"
    and len: "HEADER_SIZE + length payload \<le> unat (ec_send_buffer_size c1)" "fits32 payload"
    and reply: "uds_reply_to type payload srv = Inr (Some p, srv')" "HEADER_SIZE + length p \<le> SOCKET_BUFFER"
  shows "\<exists>evs. recv_ok evs \<and> incoming evs = uds_message now (response_type type) (ec_next_request_id c1) p
     \<and> sdk_over serve pieces op now (c, srv) = bind_res (f (c1\<lparr>ec_recvs := evs, ec_next_request_id := ec_next_request_id c1 + 1, ec_sends := [],
           ec_out := ec_out c @ uds_message t type (ec_next_request_id c1) payload\<rparr>)) (\<lambda>(r, c). Inr (r, c, srv'))"
proof -
  let ?m = "uds_message t type (ec_next_request_id c1) payload"
  let ?r = "uds_message now (response_type type) (ec_next_request_id c1) p"
  let ?c = "\<lambda>evs. c1\<lparr>ec_recvs := evs, ec_next_request_id := ec_next_request_id c1 + 1, ec_sends := [], ec_out := ec_out c @ ?m\<rparr>"
  have sent: "op (plugged evs c) = f (?c evs)" for evs
    using send_request_ok [of "plugged evs c1" payload t type] assms(3,5) len(1)
    unfolding op by (simp add: on_ok_def plugged_def ready_def)
  obtain r c0 where c0: "f (?c (ec_recvs c)) = Inr (r, c0)" "ec_out c0 = ec_out c @ ?m"
    using starved [of "?c (ec_recvs c)"] assms(2) by (auto simp: ready_def)
  have pieces: "concat (pieces bs) = bs" "segments_ok (pieces bs)" for bs using assms(1) by (auto simp: fragments_def)
  have "serve now (pieces ?m) srv = Inr (?r, srv')"
    by (rule serve_request [OF pieces(2) pieces(1) len(2) reply])
  moreover have "recv_ok (ec_recvs c @ map Deliver (pieces ?r))" "incoming (ec_recvs c @ map Deliver (pieces ?r)) = ?r"
    using assms(2) pieces by (simp_all add: ready_def)
  ultimately show ?thesis
    by (intro exI [of _ "ec_recvs c @ map Deliver (pieces ?r)"]) (simp add: sdk_over_def sent c0)
qed

end

lemma process_reply:
  assumes "segments_ok segs" and "concat segs = uds_message t type rid payload" and "fits32 payload"
    and "uds_reply_to type payload srv = Inr (Some p, srv')" and "HEADER_SIZE + length p \<le> SOCKET_BUFFER"
  shows "\<exists>s. process_request_thread now (Socket_new segs [SOCKET_BUFFER]) srv = Inr (True, s, srv')
     \<and> sk_out s = uds_message now (response_type type) rid p"
proof -
  let ?s = "Socket_new segs [SOCKET_BUFFER]"
  have out: "snd (send_response_sync now ty rid p (?s\<lparr>sk_in := segs'\<rparr>))
      = \<lparr>sk_in = segs', sk_writes = [], sk_out = uds_message now ty rid p\<rparr>" for ty segs'
  proof -
    have "length (uds_message now ty rid p) \<le> SOCKET_BUFFER" "uds_message now ty rid p \<noteq> []"
      using assms(5) uds_header_fields(5) [of now "UdsType_value ty" "ucast (vec_size p)" rid]
      by (auto simp: uds_message_def HEADER_SIZE_def simp del: length_0_conv simp flip: length_0_conv)
    then show ?thesis
      by (cases "uds_message now ty rid p") (simp_all add: send_response_sync_def write_all_def Socket_new_def)
  qed
  obtain segs' where p: "process_request_thread now ?s srv
      = bind_res (switch_thread now (UdsType_value type) payload rid (?s\<lparr>sk_in := segs'\<rparr>) srv) (\<lambda>(s, srv). Inr (True, s, srv))"
    using process_message [of ?s t type rid payload "[]" now srv] assms(1-3) by (auto simp: Socket_new_def)
  show ?thesis
    using assms(4) unfolding p
    by (cases type)
      (simp_all add: switch_thread_def handle_get_thread_def handle_put_thread_def handle_delete_thread_def
        handle_create_sparse_thread_def handle_write_range_thread_def handle_finalize_thread_def answer_def out)
qed

interpretation thread_server: uds_service serve_thread
proof
  fix segs t type rid payload srv p srv' now
  assume "segments_ok segs" "concat segs = uds_message t type rid payload" "fits32 payload"
    "uds_reply_to type payload srv = Inr (Some p, srv')" "HEADER_SIZE + length p \<le> SOCKET_BUFFER"
  from process_reply [OF this, of now] show "serve_thread now segs srv = Inr (uds_message now (response_type type) rid p, srv')"
    by (auto simp: serve_thread_def)
qed

interpretation coroutine_server: uds_service "serve_coroutine stack" for stack
proof
  fix segs t type rid payload srv p srv' now
  assume "segments_ok segs" "concat segs = uds_message t type rid payload" "fits32 payload"
    "uds_reply_to type payload srv = Inr (Some p, srv')" "HEADER_SIZE + length p \<le> SOCKET_BUFFER"
  from process_reply [OF this, of now] show "serve_coroutine stack now segs srv = Inr (uds_message now (response_type type) rid p, srv')"
    by (auto simp: serve_coroutine_def process_request_agrees)
qed

lemma key_field_string: "key_field (bytes_of key) = encode_string key"
  by (simp add: key_field_def encode_string_def vec_size_def)

lemma plugged_simps:
  "get_time_us (plugged evs c) = (fst (get_time_us c), plugged evs (snd (get_time_us c)))" "is_connected (plugged evs c) = is_connected c"
  "ec_send_buffer_size (plugged evs c) = ec_send_buffer_size c" "ec_send_buffer_size (snd (get_time_us c)) = ec_send_buffer_size c"
  "ec_recv_buffer (plugged evs c) = ec_recv_buffer c"
  by (cases c; simp add: plugged_def get_time_us_def is_connected_def)+

lemma ready_connected: "ready c \<Longrightarrow> is_connected c"
  by (simp add: ready_def is_connected_def)

lemma key_limit: "length key \<le> 8192 \<Longrightarrow> (8192 < vec_size (bytes_of key)) = False"
  by (simp add: word_less_nat_alt unat_vec_size not_less)

lemma not_too_large:
  assumes "n \<le> unat s"
  shows "(s < (of_nat n :: u64)) = False"
proof -
  have "n < 2 ^ 64" by (rule le_less_trans [OF assms]) simp
  then show ?thesis using assms by (simp add: word_less_nat_alt unat_simps not_less)
qed

text \<open>Reading an answer of \<^verbatim>\<open>get\<close>.\<close>

lemma ucast_size32: "fits32 xs \<Longrightarrow> ucast (ucast (vec_size xs) :: u32) = vec_size xs"
  by (rule word_unat_eq_iff [THEN iffD2])
    (simp add: unsigned_ucast_eq unsigned_take_bit_eq unat_simps take_bit_nat_eq_self)

lemma too_large_iff:
  assumes "fits buf" and "HEADER_SIZE \<le> length buf" and "fits32 p"
  shows "(ucast (ucast (vec_size p) :: u32) > vec_size buf - of_nat HEADER_SIZE) = (length buf < HEADER_SIZE + length p)"
proof -
  have "unat (vec_size buf - of_nat HEADER_SIZE) = length buf - HEADER_SIZE"
    using assms(1,2) by (simp add: unat_simps HEADER_SIZE_def)
  then show ?thesis using assms by (auto simp: word_less_nat_alt ucast_size32 unat_simps)
qed

lemma get_receive_ok:
  assumes "recv_ok (ec_recvs c)" and "incoming (ec_recvs c) = uds_message t UT_GetResponse rid p @ rest"
    and "HEADER_SIZE + length p \<le> length (ec_recv_buffer c)" and "fits32 p" and "fits (ec_recv_buffer c)"
  shows "\<exists>evs. get_receive start_time into_recv n c = get_finish start_time into_recv n
         (c\<lparr>ec_recvs := evs, ec_recv_buffer := uds_message t UT_GetResponse rid p @ drop (HEADER_SIZE + length p) (ec_recv_buffer c)\<rparr>)
       \<and> incoming evs = rest \<and> recv_ok evs"
proof -
  let ?h = "uds_header t (UdsType_value UT_GetResponse) (ucast (vec_size p)) rid"
  let ?buf = "?h @ drop HEADER_SIZE (ec_recv_buffer c)"
  obtain evs where h: "client_recv_all 0 HEADER_SIZE c = Inr (ELCACHE_OK, c\<lparr>ec_recvs := evs, ec_recv_buffer := ?buf\<rparr>)"
    "incoming evs = p @ rest" "recv_ok evs"
    using recv_header_ok [OF assms(1), of t "UdsType_value UT_GetResponse" "ucast (vec_size p)" rid "p @ rest"] assms(2,3)
    by (auto simp: uds_message_def)
  have "length ?buf = length (ec_recv_buffer c)" using assms(3) by (simp add: uds_header_fields)
  then have small: "(ucast (ucast (vec_size p) :: u32) > vec_size ?buf - of_nat HEADER_SIZE) = False"
    using too_large_iff [of ?buf p] assms(3-5) by simp
  show ?thesis
    using recv_answer_ok [OF h(3,2) uds_header_fields(5) assms(3), of t "UdsType_value UT_GetResponse" "ucast (vec_size p)" rid] small
    by (auto simp: get_receive_def on_ok_def h(1) message_fields unat_size32 [OF assms(4)] uds_message_def Let_def)
qed

lemma get_receive_too_large:
  assumes "recv_ok (ec_recvs c)" and "incoming (ec_recvs c) = uds_message t UT_GetResponse rid p @ rest"
    and "length (ec_recv_buffer c) < HEADER_SIZE + length p" and "fits32 p" and "fits (ec_recv_buffer c)" and "HEADER_SIZE \<le> length (ec_recv_buffer c)"
  shows "\<exists>evs buf. get_receive start_time into_recv n c
         = Inr (get_failed ERR_BUFFER_TOO_SMALL, set_error ''Response too large'' (c\<lparr>ec_recvs := evs, ec_recv_buffer := buf\<rparr>))
       \<and> incoming evs = p @ rest \<and> recv_ok evs \<and> length buf = length (ec_recv_buffer c)"
proof -
  let ?h = "uds_header t (UdsType_value UT_GetResponse) (ucast (vec_size p)) rid"
  let ?buf = "?h @ drop HEADER_SIZE (ec_recv_buffer c)"
  obtain evs where h: "client_recv_all 0 HEADER_SIZE c = Inr (ELCACHE_OK, c\<lparr>ec_recvs := evs, ec_recv_buffer := ?buf\<rparr>)"
    "incoming evs = p @ rest" "recv_ok evs"
    using recv_header_ok [OF assms(1), of t "UdsType_value UT_GetResponse" "ucast (vec_size p)" rid "p @ rest"] assms(2,6)
    by (auto simp: uds_message_def)
  have len: "length ?buf = length (ec_recv_buffer c)" using assms(6) by (simp add: uds_header_fields)
  then have "(ucast (ucast (vec_size p) :: u32) > vec_size ?buf - of_nat HEADER_SIZE) = True"
    using too_large_iff [of ?buf p] assms(3-6) by simp
  then show ?thesis
    using h len by (intro exI [of _ evs] exI [of _ ?buf]) (simp add: get_receive_def on_ok_def message_fields Let_def)
qed

lemma get_receive_starved:
  assumes "recv_ok (ec_recvs c)" and "incoming (ec_recvs c) = []"
  shows "\<exists>r c'. get_receive start_time into_recv n c = Inr (r, c') \<and> ec_out c' = ec_out c"
  using recv_all_starved [OF assms, of HEADER_SIZE 0] by (auto simp: get_receive_def on_ok_def HEADER_SIZE_def)

lemma get_answer_fields:
  fixes data rest found t rid
  assumes "length h = HEADER_SIZE"
  defines "buf \<equiv> h @ get_response found data @ rest"
  shows "payload_u32 buf HEADER_SIZE = Inr (if found then 0 else 1)" and "payload_span buf (HEADER_SIZE + 4) 1 = Inr [0]"
    and "payload_u32 buf (HEADER_SIZE + 5) = Inr (ucast (vec_size data))"
    and "payload_span buf (9 + HEADER_SIZE) (length data) = Inr data"
proof -
  let ?c = "encode_u32 (if found then 0 else 1)" and ?l = "encode_u32 (ucast (vec_size data))"
  show "payload_u32 buf HEADER_SIZE = Inr (if found then 0 else 1)"
    using payload_u32_at [of HEADER_SIZE h _ "[0] @ ?l @ data @ rest"] assms(1) by (simp add: buf_def get_response_def)
  show "payload_span buf (HEADER_SIZE + 4) 1 = Inr [0]"
    using payload_span_at [of "HEADER_SIZE + 4" "h @ ?c" 1 "[0]" "?l @ data @ rest"] assms(1) by (simp add: buf_def get_response_def)
  show "payload_u32 buf (HEADER_SIZE + 5) = Inr (ucast (vec_size data))"
    using payload_u32_at [of "HEADER_SIZE + 5" "h @ ?c @ [0]" _ "data @ rest"] assms(1) by (simp add: buf_def get_response_def)
  show "payload_span buf (9 + HEADER_SIZE) (length data) = Inr data"
    using payload_span_at [of "9 + HEADER_SIZE" "h @ ?c @ [0] @ ?l" "length data" data rest] assms(1) by (simp add: buf_def get_response_def)
qed

lemma get_finish_hit:
  assumes "ec_recv_buffer c = h @ get_response True data @ rest" and "length h = HEADER_SIZE" and "fits32 data" and "vec_size data \<le> n"
  shows "\<exists>c'. get_finish start_time False n c = Inr ((ELCACHE_OK, Some data, Some (vec_size data)), c')
     \<and> ec_recvs c' = ec_recvs c \<and> ec_recv_buffer c' = ec_recv_buffer c \<and> ec_fd_open c' = ec_fd_open c
     \<and> ec_send_buffer_size c' = ec_send_buffer_size c \<and> ec_hits c' = ec_hits c + 1"
proof -
  note f = get_answer_fields [OF assms(2), of True data rest, folded assms(1)]
  show ?thesis
    using assms(4) f
    by (simp add: get_finish_def Let_def unat_size32 [OF assms(3)] ucast_size32 [OF assms(3)] count_latency_def get_time_us_def not_less)
qed

lemma get_finish_overlap:
  assumes "ec_recv_buffer c = h @ get_response True data @ rest" and "length h = HEADER_SIZE" and "fits32 data"
    and "vec_size data \<le> n" and "33 < length data"
  shows "get_finish start_time True n c = Inl Undefined_behaviour"
proof -
  note f = get_answer_fields [OF assms(2), of True data rest, folded assms(1)]
  show ?thesis
    using assms(4,5) f by (simp add: get_finish_def Let_def unat_size32 [OF assms(3)] ucast_size32 [OF assms(3)] not_less HEADER_SIZE_def)
qed

text \<open>
  The part of a value that the options of a read ask for: the bytes from the offset on, at most as many
  as the length says, and all of them when the length is zero.
\<close>

definition requested_part :: "GetOptions option \<Rightarrow> byte list \<Rightarrow> byte list" where
  "requested_part options v =
     (case options of
        None \<Rightarrow> v
      | Some opts \<Rightarrow>
          let tail = drop (unat (go_offset opts)) v
          in if go_length opts = 0 then tail else take (unat (go_length opts)) tail)"

lemma requested_part_length: "length (requested_part options v) \<le> length v"
  by (auto simp: requested_part_def Let_def split: option.split)

lemma ranged_requested:
  assumes "fits v"
  shows "ranged (go_offset opts > 0 \<or> go_length opts > 0) (go_offset opts) (go_length opts) v = requested_part (Some opts) v"
proof (cases "go_offset opts < vec_size v")
  case True
  have n: "unat (vec_size v - go_offset opts) = length v - unat (go_offset opts)"
    using True assms by (simp add: unat_sub_if' unat_vec_size word_less_nat_alt)
  then have "go_length opts < vec_size v - go_offset opts \<longleftrightarrow> unat (go_length opts) < length v - unat (go_offset opts)"
    by (simp add: word_less_nat_alt)
  then show ?thesis
    using True n by (auto simp: ranged_def requested_part_def Let_def word_gt_0)
next
  case False
  then have "length v \<le> unat (go_offset opts)" using assms by (simp add: word_less_nat_alt unat_vec_size)
  then show ?thesis using False by (auto simp: ranged_def requested_part_def Let_def word_gt_0)
qed

lemma get_reply_hit:
  assumes "length key \<le> 8192" and "SyncCache_get key srv = Some v" and "fits v"
  shows "get_reply (get_request (bytes_of key) options) srv = Inr (Some (get_response True (requested_part options v)), srv)"
proof -
  have "uds_key_ok key" using assms(1) by (simp add: uds_key_ok_def)
  note r = get_reply_ok [OF this, where rest = "[]", simplified]
  note ranged_requested [OF assms(3), symmetric]
  moreover have "requested_part None v = v" by (simp add: requested_part_def)
  ultimately show ?thesis
    using assms(2) r(1) [of 0 srv] r(2) [of 0 _ _ srv]
    by (auto simp: get_request_def key_field_string ranged_def split: option.split)
qed

lemma get_response_length: "length (get_response found data) = 9 + length data"
  by (simp add: get_response_def)

text \<open>The calls that are answered by a code.\<close>

context uds_service
begin

lemma over_code:
  assumes "fragments pieces" and "ready c" and "ready c1" and "ec_recvs c1 = ec_recvs c" and "ec_out c1 = ec_out c"
    and op: "\<And>evs. op (plugged evs c) = on_ok (\<lambda>e. e) (send_request t type payload (plugged evs c1)) (\<lambda>c.
        on_ok (\<lambda>e. e) (recv_response c) (\<lambda>c. bind_res (payload_u32 (ec_recv_buffer c) HEADER_SIZE) (g c)))"
    and len: "HEADER_SIZE + length payload \<le> unat (ec_send_buffer_size c1)" "fits32 payload"
    and reply: "uds_reply_to type payload srv = reply_code code srv'"
  shows "\<exists>evs buf. recv_ok evs \<and> incoming evs = [] \<and> length buf = length (ec_recv_buffer c1)
     \<and> sdk_over serve pieces op now (c, srv)
       = bind_res (g (c1\<lparr>ec_next_request_id := ec_next_request_id c1 + 1, ec_sends := [],
           ec_out := ec_out c @ uds_message t type (ec_next_request_id c1) payload, ec_recvs := evs, ec_recv_buffer := buf\<rparr>) code)
           (\<lambda>(r, c). Inr (r, c, srv'))"
proof -
  let ?f = "\<lambda>c. on_ok (\<lambda>e. e) (recv_response c) (\<lambda>c. bind_res (payload_u32 (ec_recv_buffer c) HEADER_SIZE) (g c))"
  let ?p = "encode_u32 code"
  let ?r = "uds_message now (response_type type) (ec_next_request_id c1) ?p"
  have starved: "\<exists>r c'. ?f c = Inr (r, c') \<and> ec_out c' = ec_out c" if "recv_ok (ec_recvs c)" "incoming (ec_recvs c) = []" for c
    using recv_response_starved [OF that] by (auto simp: on_ok_def)
  obtain evs where e: "recv_ok evs" "incoming evs = ?r"
    and run: "sdk_over serve pieces op now (c, srv) = bind_res (?f (c1\<lparr>ec_recvs := evs, ec_next_request_id := ec_next_request_id c1 + 1, ec_sends := [],
           ec_out := ec_out c @ uds_message t type (ec_next_request_id c1) payload\<rparr>)) (\<lambda>(r, c). Inr (r, c, srv'))"
    using over_exchange [OF assms(1-5) op starved len, of srv ?p srv' now] reply by (auto simp: HEADER_SIZE_def SOCKET_BUFFER_def)
  let ?c = "c1\<lparr>ec_recvs := evs, ec_next_request_id := ec_next_request_id c1 + 1, ec_sends := [],
           ec_out := ec_out c @ uds_message t type (ec_next_request_id c1) payload\<rparr>"
  have "HEADER_SIZE + length ?p \<le> length (ec_recv_buffer ?c)" using assms(3) by (simp add: ready_def HEADER_SIZE_def)
  then obtain evs' where "recv_response ?c = Inr (ELCACHE_OK, ?c\<lparr>ec_recvs := evs', ec_recv_buffer := ?r @ drop (HEADER_SIZE + length ?p) (ec_recv_buffer ?c)\<rparr>)"
    "incoming evs' = []" "recv_ok evs'"
    using recv_response_ok [of ?c now "response_type type" "ec_next_request_id c1" ?p "[]"] e by auto
  moreover have "payload_u32 (?r @ rest) HEADER_SIZE = Inr code" for rest
    using payload_u32_at [of HEADER_SIZE "uds_header now (UdsType_value (response_type type)) (ucast (vec_size ?p)) (ec_next_request_id c1)" code rest]
    by (simp add: uds_message_def uds_header_fields)
  moreover have "length (?r @ drop (HEADER_SIZE + length ?p) (ec_recv_buffer ?c)) = length (ec_recv_buffer c1)"
    using assms(3) by (simp add: uds_message_def uds_header_fields ready_def HEADER_SIZE_def)
  ultimately show ?thesis
    by (intro exI [of _ evs'] exI [of _ "?r @ drop (HEADER_SIZE + length ?p) (ec_recv_buffer ?c)"]) (simp add: run on_ok_def)
qed

lemma over_put:
  assumes "fragments pieces" and "ready c" and "length key \<le> 8192" and "length v + 8213 < 2 ^ 32"
    and "length key + length v + 45 \<le> unat (ec_send_buffer_size c)"
  shows "\<exists>c'. sdk_over serve pieces (elcache_client_put t (Some (bytes_of key)) (Some v) options) now (c, srv)
           = Inr (ELCACHE_OK, c', SyncCache_put key v srv)
       \<and> still_ready c c'"
proof -
  let ?c1 = "snd (get_time_us c)" and ?p = "put_request (bytes_of key) v options"
  let ?g = "\<lambda>c' code. let c' = count_latency (fst (get_time_us c)) c'; c' = c'\<lparr>ec_bytes_written := ec_bytes_written c' + vec_size v\<rparr>
       in if code \<noteq> 0 then Inr (ERR_INTERNAL, set_error ''Put failed'' c') else Inr (ELCACHE_OK, c')"
  have "of_nat HEADER_SIZE + 4 + vec_size (bytes_of key) + 4 + vec_size v + 1 + 8 + 4 = (of_nat (length key + length v + 45) :: u64)"
    by (simp add: vec_size_def HEADER_SIZE_def)
  then have size: "(ec_send_buffer_size c < of_nat HEADER_SIZE + 4 + vec_size (bytes_of key) + 4 + vec_size v + 1 + 8 + 4) = False"
    using not_too_large [of "length key + length v + 45" "ec_send_buffer_size c"] assms(5) by (simp only:)
  have op: "elcache_client_put t (Some (bytes_of key)) (Some v) options (plugged evs c) = on_ok (\<lambda>e. e) (send_request t UT_Put ?p (plugged evs ?c1)) (\<lambda>c.
        on_ok (\<lambda>e. e) (recv_response c) (\<lambda>c. bind_res (payload_u32 (ec_recv_buffer c) HEADER_SIZE) (?g c)))" for evs
    unfolding elcache_client_put_def Let_def
    by (simp only: prod.case option.case key_limit [OF assms(3)] ready_connected [OF assms(2)] plugged_simps size if_False not_True_eq_False)
  have reply: "uds_reply_to UT_Put ?p srv = reply_code 0 (SyncCache_put key v srv)"
    using assms(3,4) put_reply_ok [of key v "put_trailer options" srv] by (simp add: put_request_def key_field_string encode_bytes_def uds_key_ok_def)
  have "length ?p \<le> 21 + length key + length v"
    by (simp add: put_request_def key_field_def put_trailer_def split: option.split)
  then have len: "HEADER_SIZE + length ?p \<le> unat (ec_send_buffer_size ?c1)" "fits32 ?p"
    using assms by (simp_all add: get_time_us_def HEADER_SIZE_def)
  have "ready ?c1" "ec_recvs ?c1 = ec_recvs c" "ec_out ?c1 = ec_out c" using assms(2) by (simp_all add: ready_def get_time_us_def)
  from over_code [where g = ?g, OF assms(1,2) this op len reply, of now] show ?thesis
    using assms(2) by (auto simp: get_time_us_def count_latency_def ready_def still_ready_def Let_def)
qed

lemma over_get:
  fixes srv t key n options into_recv
  assumes "fragments pieces" and "ready c" and "length key \<le> 8192" and "length key + 46 \<le> unat (ec_send_buffer_size c)"
    and reply: "get_reply (get_request (bytes_of key) options) srv = Inr (Some p, srv)" and p: "fits32 p"
  shows "\<exists>evs. recv_ok evs \<and> incoming evs = uds_message now UT_GetResponse (ec_next_request_id c) p
     \<and> sdk_over serve pieces (get_core t (Some (bytes_of key)) into_recv (Some n) options) now (c, srv)
       = bind_res (get_receive (fst (get_time_us c)) into_recv n (snd (get_time_us c)\<lparr>ec_recvs := evs, ec_next_request_id := ec_next_request_id c + 1, ec_sends := [],
           ec_out := ec_out c @ uds_message t UT_Get (ec_next_request_id c) (get_request (bytes_of key) options)\<rparr>)) (\<lambda>(r, c). Inr (r, c, srv))"
proof -
  let ?c1 = "snd (get_time_us c)" and ?q = "get_request (bytes_of key) options"
  have op: "get_core t (Some (bytes_of key)) into_recv (Some n) options (plugged evs c)
      = on_ok get_failed (send_request t UT_Get ?q (plugged evs ?c1)) (get_receive (fst (get_time_us c)) into_recv n)" for evs
    unfolding get_core_def
    by (simp only: prod.case option.case key_limit [OF assms(3)] ready_connected [OF assms(2)] plugged_simps if_False not_True_eq_False)
  have "length ?q \<le> 22 + length key" by (simp add: get_request_def key_field_def split: option.split)
  then have len: "HEADER_SIZE + length ?q \<le> unat (ec_send_buffer_size ?c1)" "fits32 ?q"
    using assms(3,4) by (simp_all add: plugged_simps HEADER_SIZE_def)
  have c1: "ready ?c1" "ec_recvs ?c1 = ec_recvs c" "ec_out ?c1 = ec_out c" "ec_next_request_id ?c1 = ec_next_request_id c"
    using assms(2) by (simp_all add: ready_def get_time_us_def)
  have "uds_reply_to UT_Get ?q srv = Inr (Some p, srv)" "HEADER_SIZE + length p \<le> SOCKET_BUFFER"
    using reply p by (simp_all add: HEADER_SIZE_def SOCKET_BUFFER_def)
  from over_exchange [OF assms(1,2) c1(1-3) op get_receive_starved len this, of now] show ?thesis
    by (simp add: c1(4))
qed

lemma over_get_hit:
  assumes "fragments pieces" and "ready c" and "length key \<le> 8192" and "length key + 46 \<le> unat (ec_send_buffer_size c)"
    and v: "SyncCache_get key srv = Some v" "length v + 33 \<le> length (ec_recv_buffer c)" "length v + 9 < 2 ^ 32"
    and n: "vec_size (requested_part options v) \<le> n"
  shows "\<exists>c'. sdk_over serve pieces (elcache_client_get t (Some (bytes_of key)) (Some n) options) now (c, srv)
         = Inr ((ELCACHE_OK, Some (requested_part options v), Some (vec_size (requested_part options v))), c', srv)
       \<and> still_ready c c'"
proof -
  let ?d = "requested_part options v" and ?p = "get_response True (requested_part options v)"
  let ?r = "uds_message now UT_GetResponse (ec_next_request_id c) ?p" and ?buf = "ec_recv_buffer c"
  have fits: "fits v" using v(3) by simp
  have p: "fits32 ?p" "HEADER_SIZE + length ?p \<le> length ?buf" "fits32 ?d" "fits ?buf"
    using requested_part_length [of options v] v assms(2) by (simp_all add: get_response_length HEADER_SIZE_def ready_def)
  obtain evs where e: "recv_ok evs" "incoming evs = ?r @ []" and run: "sdk_over serve pieces (elcache_client_get t (Some (bytes_of key)) (Some n) options) now (c, srv)
       = bind_res (get_receive (fst (get_time_us c)) False n (snd (get_time_us c)\<lparr>ec_recvs := evs, ec_next_request_id := ec_next_request_id c + 1, ec_sends := [],
           ec_out := ec_out c @ uds_message t UT_Get (ec_next_request_id c) (get_request (bytes_of key) options)\<rparr>)) (\<lambda>(r, c). Inr (r, c, srv))"
    using over_get [OF assms(1-4) get_reply_hit [OF assms(3) v(1) fits] p(1), of now t False n]
    by (auto simp: elcache_client_get_def [abs_def])
  let ?c = "snd (get_time_us c)\<lparr>ec_recvs := evs, ec_next_request_id := ec_next_request_id c + 1, ec_sends := [],
           ec_out := ec_out c @ uds_message t UT_Get (ec_next_request_id c) (get_request (bytes_of key) options)\<rparr>"
  have buf: "ec_recv_buffer ?c = ?buf" by (simp add: get_time_us_def)
  obtain evs' where f: "get_receive (fst (get_time_us c)) False n ?c = get_finish (fst (get_time_us c)) False n
         (?c\<lparr>ec_recvs := evs', ec_recv_buffer := ?r @ drop (HEADER_SIZE + length ?p) ?buf\<rparr>)" "incoming evs' = []" "recv_ok evs'"
    using get_receive_ok [of ?c now "ec_next_request_id c" ?p "[]" "fst (get_time_us c)" False n] e p buf by auto
  let ?c2 = "?c\<lparr>ec_recvs := evs', ec_recv_buffer := ?r @ drop (HEADER_SIZE + length ?p) ?buf\<rparr>"
  have "ec_recv_buffer ?c2 = uds_header now (UdsType_value UT_GetResponse) (ucast (vec_size ?p)) (ec_next_request_id c) @ ?p @ drop (HEADER_SIZE + length ?p) ?buf"
    by (simp add: uds_message_def)
  from get_finish_hit [OF this uds_header_fields(5) p(3) n, of "fst (get_time_us c)"]
  obtain c' where "get_finish (fst (get_time_us c)) False n ?c2 = Inr ((ELCACHE_OK, Some ?d, Some (vec_size ?d)), c')"
    "ec_recvs c' = ec_recvs ?c2" "ec_recv_buffer c' = ec_recv_buffer ?c2" "ec_fd_open c' = ec_fd_open ?c2"
    "ec_send_buffer_size c' = ec_send_buffer_size ?c2"
    by blast
  then show ?thesis
    using run f assms(2) p(2) by (simp add: still_ready_def ready_def get_time_us_def uds_message_def uds_header_fields)
qed

lemma over_create_sparse:
  assumes "fragments pieces" and "ready c" and "length key \<le> 8192" and "length key + 50 \<le> unat (ec_send_buffer_size c)"
    and "SparseCache_create key n (us_sparse srv) = (created, sp)"
  shows "\<exists>c'. sdk_over serve pieces (elcache_client_create_sparse t (Some (bytes_of key)) n options) now (c, srv)
           = Inr (if created then ELCACHE_OK else ERR_INTERNAL, c', srv\<lparr>us_sparse := sp\<rparr>) \<and> still_ready c c'"
proof -
  let ?p = "create_request (bytes_of key) n options"
  let ?g = "\<lambda>c code. if code \<noteq> 0 then Inr (ERR_INTERNAL, set_error ''Create sparse failed'' c) else Inr (ELCACHE_OK, c)"
  have op: "elcache_client_create_sparse t (Some (bytes_of key)) n options (plugged evs c) = on_ok (\<lambda>e. e) (send_request t UT_CreateSparse ?p (plugged evs c)) (\<lambda>c.
        on_ok (\<lambda>e. e) (recv_response c) (\<lambda>c. bind_res (payload_u32 (ec_recv_buffer c) HEADER_SIZE) (?g c)))" for evs
    unfolding elcache_client_create_sparse_def
    by (simp only: prod.case option.case key_limit [OF assms(3)] ready_connected [OF assms(2)] plugged_simps if_False not_True_eq_False)
  have "uds_key_ok key" using assms(3) by (simp add: uds_key_ok_def)
  then have reply: "uds_reply_to UT_CreateSparse ?p srv = reply_code (if created then 0 else 1) (srv\<lparr>us_sparse := sp\<rparr>)"
    using create_sparse_reply_ok [of key n "put_trailer options" srv] assms(5) by (simp add: create_request_def key_field_string)
  have "length ?p \<le> 25 + length key"
    by (simp add: create_request_def key_field_def put_trailer_def split: option.split)
  then have len: "HEADER_SIZE + length ?p \<le> unat (ec_send_buffer_size c)" "fits32 ?p" using assms(3,4) by (simp_all add: HEADER_SIZE_def)
  from over_code [where g = ?g, OF assms(1,2,2) refl refl op len reply, of now] show ?thesis
    using assms(2) by (auto simp: ready_def still_ready_def set_error_def)
qed

lemma over_write_range:
  assumes "fragments pieces" and "ready c" and "length key \<le> 8192" and "length data + 8208 < 2 ^ 32"
    and "length key + length data + 40 \<le> unat (ec_send_buffer_size c)"
    and "SparseCache_write_range key offset data (us_sparse srv) = Inr (written, sp)"
  shows "\<exists>c'. sdk_over serve pieces (elcache_client_write_range t (Some (bytes_of key)) offset (Some data)) now (c, srv)
           = Inr (if written then ELCACHE_OK else if SparseCache_exists key sp then ERR_INVALID_ARG else ERR_NOT_FOUND, c', srv\<lparr>us_sparse := sp\<rparr>)
       \<and> still_ready c c'"
proof -
  let ?p = "write_request (bytes_of key) offset data"
  let ?g = "\<lambda>c code. if code = 1 then Inr (ERR_NOT_FOUND, set_error ''Key not found or not sparse'' c)
                else if code = 2 then Inr (ERR_INVALID_ARG, set_error ''Invalid range'' c)
                else if code \<noteq> 0 then Inr (ERR_INTERNAL, set_error ''Write range failed'' c)
                else Inr (ELCACHE_OK, c\<lparr>ec_bytes_written := ec_bytes_written c + vec_size data\<rparr>)"
  have "of_nat HEADER_SIZE + 4 + vec_size (bytes_of key) + 8 + 4 + vec_size data = (of_nat (length key + length data + 40) :: u64)"
    by (simp add: vec_size_def HEADER_SIZE_def)
  then have size: "(ec_send_buffer_size c < of_nat HEADER_SIZE + 4 + vec_size (bytes_of key) + 8 + 4 + vec_size data) = False"
    using not_too_large [of "length key + length data + 40" "ec_send_buffer_size c"] assms(5) by (simp only:)
  have op: "elcache_client_write_range t (Some (bytes_of key)) offset (Some data) (plugged evs c) = on_ok (\<lambda>e. e) (send_request t UT_WriteRange ?p (plugged evs c)) (\<lambda>c.
        on_ok (\<lambda>e. e) (recv_response c) (\<lambda>c. bind_res (payload_u32 (ec_recv_buffer c) HEADER_SIZE) (?g c)))" for evs
    unfolding elcache_client_write_range_def
    by (simp only: prod.case option.case key_limit [OF assms(3)] ready_connected [OF assms(2)] plugged_simps size if_False not_True_eq_False)
  have "uds_key_ok key" "fits32 data" using assms(3,4) by (simp_all add: uds_key_ok_def)
  then have reply: "uds_reply_to UT_WriteRange ?p srv
      = reply_code (if \<not> written then (if \<not> SparseCache_exists key sp then 1 else 2) else 0) (srv\<lparr>us_sparse := sp\<rparr>)"
    using write_range_reply_ok [of key data offset "[]" srv] assms(6) by (simp add: write_request_def key_field_string encode_bytes_def)
  have len: "HEADER_SIZE + length ?p \<le> unat (ec_send_buffer_size c)" "fits32 ?p"
    using assms(3-5) by (simp_all add: write_request_def key_field_def HEADER_SIZE_def)
  from over_code [where g = ?g, OF assms(1,2,2) refl refl op len reply, of now] show ?thesis
    using assms(2) by (auto simp: ready_def still_ready_def set_error_def)
qed

lemma over_finalize:
  assumes "fragments pieces" and "ready c" and "length key \<le> 8192" and "length key + 28 \<le> unat (ec_send_buffer_size c)"
    and "SparseCache_finalize key (us_sparse srv) = (res, sp)"
  shows "\<exists>c'. sdk_over serve pieces (elcache_client_finalize t (Some (bytes_of key))) now (c, srv)
           = Inr (case res of Finalized data \<Rightarrow> (ELCACHE_OK, c', SyncCache_put key data (srv\<lparr>us_sparse := sp\<rparr>))
                  | FinalizeNotFound \<Rightarrow> (ERR_NOT_FOUND, c', srv\<lparr>us_sparse := sp\<rparr>)
                  | FinalizeIncomplete \<Rightarrow> (ERR_PARTIAL, c', srv\<lparr>us_sparse := sp\<rparr>))
       \<and> still_ready c c'"
proof -
  let ?p = "key_field (bytes_of key)"
  let ?g = "\<lambda>c code. if code = 1 then Inr (ERR_NOT_FOUND, set_error ''Key not found'' c)
                else if code = 2 then Inr (ERR_PARTIAL, set_error ''Not all ranges written'' c)
                else if code \<noteq> 0 then Inr (ERR_INTERNAL, set_error ''Finalize failed'' c)
                else Inr (ELCACHE_OK, c)"
  have op: "elcache_client_finalize t (Some (bytes_of key)) (plugged evs c) = on_ok (\<lambda>e. e) (send_request t UT_Finalize ?p (plugged evs c)) (\<lambda>c.
        on_ok (\<lambda>e. e) (recv_response c) (\<lambda>c. bind_res (payload_u32 (ec_recv_buffer c) HEADER_SIZE) (?g c)))" for evs
    unfolding elcache_client_finalize_def
    by (simp only: prod.case option.case ready_connected [OF assms(2)] plugged_simps if_False not_True_eq_False)
  have "uds_key_ok key" using assms(3) by (simp add: uds_key_ok_def)
  then have reply: "uds_reply_to UT_Finalize ?p srv = reply_code (finalize_code res)
          (case res of Finalized data \<Rightarrow> SyncCache_put key data (srv\<lparr>us_sparse := sp\<rparr>) | _ \<Rightarrow> srv\<lparr>us_sparse := sp\<rparr>)"
    using finalize_reply_ok [of key "[]" srv] assms(5) by (simp add: key_field_string)
  have len: "HEADER_SIZE + length ?p \<le> unat (ec_send_buffer_size c)" "fits32 ?p"
    using assms(3,4) by (simp_all add: key_field_def HEADER_SIZE_def)
  from over_code [where g = ?g, OF assms(1,2,2) refl refl op len reply, of now] show ?thesis
    using assms(2) by (cases res) (auto simp: ready_def still_ready_def set_error_def)
qed

end

lemma get_alloc_first_try:
  assumes "get_core t key True (Some (recv_buffer_size c)) options c = Inl e" and "key \<noteq> None"
  shows "elcache_client_get_alloc t key allocated options c = Inl e"
  using assms by (simp add: elcache_client_get_alloc_def)

definition new_connection :: Client where
  "new_connection = (elcache_client_create [] (\<lambda>_. 0))\<lparr>ec_fd_open := True\<rparr>"

lemma new_connection_ready:
  "ready new_connection" "length (ec_recv_buffer new_connection) = 262144" "unat (ec_send_buffer_size new_connection) = 262144"
  by (simp_all add: ready_def new_connection_def elcache_client_create_def DEFAULT_BUFFER_def)

lemma single_bytes: "fragments (map (\<lambda>b. [b]))"
proof -
  have "concat (map (\<lambda>b. [b]) bs) = bs" for bs :: "byte list" by (induction bs) simp_all
  then show ?thesis by (auto simp: fragments_def segments_ok_def)
qed

text \<open>
  C3. What a program stores through the client library it reads back, end to end: \<^verbatim>\<open>elcache_client_put\<close>
  succeeds and stores the value in the server's map, and a later \<^verbatim>\<open>elcache_client_get\<close> delivers exactly the
  part its options ask for, however the two byte streams are cut into segments, for every value that
  fits the send buffer and whose answer fits the receive buffer.
\<close>

theorem sdk_put_get:
  assumes "fragments pieces" and "ready c" and "length key \<le> 8192" and "length v + 8213 < 2 ^ 32"
    and "length key + length v + 46 \<le> unat (ec_send_buffer_size c)" and "length v + 33 \<le> length (ec_recv_buffer c)"
    and "vec_size (requested_part options v) \<le> n"
  shows "\<exists>c1 c2. sdk_over serve_thread pieces (elcache_client_put t1 (Some (bytes_of key)) (Some v) put_options) now1 (c, srv)
           = Inr (ELCACHE_OK, c1, SyncCache_put key v srv)
     \<and> sdk_over serve_thread pieces (elcache_client_get t2 (Some (bytes_of key)) (Some n) options) now2 (c1, SyncCache_put key v srv)
           = Inr ((ELCACHE_OK, Some (requested_part options v), Some (vec_size (requested_part options v))), c2, SyncCache_put key v srv)"
proof -
  obtain c1 where p: "sdk_over serve_thread pieces (elcache_client_put t1 (Some (bytes_of key)) (Some v) put_options) now1 (c, srv)
      = Inr (ELCACHE_OK, c1, SyncCache_put key v srv)" "still_ready c c1"
    using thread_server.over_put [OF assms(1-4)] assms(5) by fastforce
  have g: "SyncCache_get key (SyncCache_put key v srv) = Some v" by (simp add: SyncCache_get_def SyncCache_put_def update_conv')
  have c1: "ready c1" "length key + 46 \<le> unat (ec_send_buffer_size c1)" "length v + 33 \<le> length (ec_recv_buffer c1)" "length v + 9 < 2 ^ 32"
    using p(2) assms(4-6) by (simp_all add: still_ready_def)
  from thread_server.over_get_hit [OF assms(1) c1(1) assms(3) c1(2) g c1(3,4) assms(7)] p(1) show ?thesis by blast
qed

theorem sdk_put_get_witness:
  "\<exists>c1 c2. sdk_over serve_thread (map (\<lambda>b. [b])) (elcache_client_put 0 (Some (bytes_of ''k'')) (Some [1, 2, 3]) None) 0
         (new_connection, \<lparr>us_cache = [], us_sparse = []\<rparr>) = Inr (ELCACHE_OK, c1, \<lparr>us_cache = [(''k'', [1, 2, 3])], us_sparse = []\<rparr>)
     \<and> sdk_over serve_thread (map (\<lambda>b. [b])) (elcache_client_get 0 (Some (bytes_of ''k'')) (Some 2) (Some \<lparr>go_offset = 1, go_length = 0\<rparr>)) 0
         (c1, \<lparr>us_cache = [(''k'', [1, 2, 3])], us_sparse = []\<rparr>)
         = Inr ((ELCACHE_OK, Some [2, 3], Some 2), c2, \<lparr>us_cache = [(''k'', [1, 2, 3])], us_sparse = []\<rparr>)"
proof -
  have "requested_part (Some \<lparr>go_offset = 1, go_length = 0\<rparr>) [1, 2, 3] = [2, 3]"
    by (simp add: requested_part_def)
  moreover have "SyncCache_put ''k'' [1, 2, 3] \<lparr>us_cache = [], us_sparse = []\<rparr> = \<lparr>us_cache = [(''k'', [1, 2, 3])], us_sparse = []\<rparr>"
    by (simp add: SyncCache_put_def)
  ultimately show ?thesis
    using sdk_put_get [OF single_bytes new_connection_ready(1), of "''k''" "[1, 2, 3]" "Some \<lparr>go_offset = 1, go_length = 0\<rparr>" 2 0 None 0
        "\<lparr>us_cache = [], us_sparse = []\<rparr>" 0 0] new_connection_ready(2,3)
    by (simp add: vec_size_def)
qed

text \<open>
  C13. The sparse calls of the client library carry out the operations of the server's sparse store and
  report their outcome: a creation that is refused is \<^verbatim>\<open>INTERNAL\<close>, a write that is refused is
  \<^verbatim>\<open>INVALID_ARG\<close> or \<^verbatim>\<open>NOT_FOUND\<close>, and finalizing stores the assembled value, or reports \<^verbatim>\<open>NOT_FOUND\<close> or \<^verbatim>\<open>PARTIAL\<close>.
\<close>

theorem sdk_sparse_refines:
  assumes "fragments pieces" and "ready c" and "length key \<le> 8192" and "length data + 8208 < 2 ^ 32"
    and "length key + length data + 50 \<le> unat (ec_send_buffer_size c)"
    and "SparseCache_create key sz (us_sparse srv) = (created, sp1)"
    and "SparseCache_write_range key offset data (us_sparse srv) = Inr (written, sp2)"
    and "SparseCache_finalize key (us_sparse srv) = (res, sp3)"
  shows "\<exists>c1 c2 c3. sdk_over serve_thread pieces (elcache_client_create_sparse t (Some (bytes_of key)) sz options) now (c, srv)
           = Inr (if created then ELCACHE_OK else ERR_INTERNAL, c1, srv\<lparr>us_sparse := sp1\<rparr>)
     \<and> sdk_over serve_thread pieces (elcache_client_write_range t (Some (bytes_of key)) offset (Some data)) now (c, srv)
           = Inr (if written then ELCACHE_OK else if SparseCache_exists key sp2 then ERR_INVALID_ARG else ERR_NOT_FOUND, c2, srv\<lparr>us_sparse := sp2\<rparr>)
     \<and> sdk_over serve_thread pieces (elcache_client_finalize t (Some (bytes_of key))) now (c, srv)
           = Inr (case res of Finalized v \<Rightarrow> (ELCACHE_OK, c3, SyncCache_put key v (srv\<lparr>us_sparse := sp3\<rparr>))
                  | FinalizeNotFound \<Rightarrow> (ERR_NOT_FOUND, c3, srv\<lparr>us_sparse := sp3\<rparr>)
                  | FinalizeIncomplete \<Rightarrow> (ERR_PARTIAL, c3, srv\<lparr>us_sparse := sp3\<rparr>))
     \<and> still_ready c c1 \<and> still_ready c c2 \<and> still_ready c c3"
proof -
  have len: "length key + 50 \<le> unat (ec_send_buffer_size c)" "length key + length data + 40 \<le> unat (ec_send_buffer_size c)"
    "length key + 28 \<le> unat (ec_send_buffer_size c)" using assms(5) by simp_all
  show ?thesis
    using thread_server.over_create_sparse [OF assms(1-3) len(1) assms(6), of t options now]
      thread_server.over_write_range [OF assms(1-4) len(2) assms(7), of t now]
      thread_server.over_finalize [OF assms(1-3) len(3) assms(8), of t now]
    by blast
qed

theorem sdk_sparse_refines_witness:
  "\<exists>c3. sdk_over serve_thread (map (\<lambda>b. [b])) (elcache_client_finalize 0 (Some (bytes_of ''k''))) 0
      (new_connection, \<lparr>us_cache = [], us_sparse = [(''k'', \<lparr>se_total_size = 1, se_data = [7], se_written = [True], se_finalized = False\<rparr>)]\<rparr>)
     = Inr (ELCACHE_OK, c3, \<lparr>us_cache = [(''k'', [7])], us_sparse = []\<rparr>) \<and> still_ready new_connection c3"
proof -
  let ?sp = "[(''k'', \<lparr>se_total_size = 1, se_data = [7 :: byte], se_written = [True], se_finalized = False\<rparr>)]"
  let ?srv = "\<lparr>us_cache = [], us_sparse = ?sp\<rparr>"
  have "SparseCache_create ''k'' 1 (us_sparse ?srv) = (False, ?sp)" by (simp add: SparseCache_create_def)
  moreover have "SparseCache_write_range ''k'' 0 [7] (us_sparse ?srv) = Inr (True, ?sp)"
    by (simp add: SparseCache_write_range_def SparseEntry_write_range_def overwrite_def vec_size_def)
  moreover have "SparseCache_finalize ''k'' (us_sparse ?srv) = (Finalized [7], [])"
    by (simp add: SparseCache_finalize_def SparseEntry_is_complete_def)
  ultimately show ?thesis
    using sdk_sparse_refines [OF single_bytes new_connection_ready(1), of "''k''" "[7]" 1 ?srv False ?sp 0 True ?sp "Finalized [7]" "[]" 0 None 0]
      new_connection_ready(3) by (auto simp: SyncCache_put_def)
qed

text \<open>What a call of \<^verbatim>\<open>get\<close> does once its request is sent.\<close>

lemma get_core_sent:
  assumes "ec_fd_open c" and "length key \<le> 8192" and "length key + 46 \<le> unat (ec_send_buffer_size c)"
  shows "get_core t (Some (bytes_of key)) into_recv (Some n) options (plugged evs c)
     = get_receive (fst (get_time_us c)) into_recv n (plugged evs (snd (get_time_us c))\<lparr>ec_next_request_id := ec_next_request_id c + 1, ec_sends := [],
           ec_out := ec_out c @ uds_message t UT_Get (ec_next_request_id c) (get_request (bytes_of key) options)\<rparr>)"
proof -
  let ?c1 = "plugged evs (snd (get_time_us c))" and ?q = "get_request (bytes_of key) options"
  have "length ?q \<le> 22 + length key" by (simp add: get_request_def key_field_def split: option.split)
  then have "HEADER_SIZE + length ?q \<le> unat (ec_send_buffer_size ?c1)" using assms(3) by (simp add: plugged_simps HEADER_SIZE_def)
  moreover have c1: "ec_fd_open ?c1" "ec_sends ?c1 = [Accept (unat (ec_send_buffer_size ?c1))]"
    "ec_next_request_id ?c1 = ec_next_request_id c" "ec_out ?c1 = ec_out c"
    using assms(1) by (simp_all add: plugged_def get_time_us_def)
  ultimately have sent: "send_request t UT_Get ?q ?c1 = Inr (ELCACHE_OK, ?c1\<lparr>ec_next_request_id := ec_next_request_id c + 1, ec_sends := [],
      ec_out := ec_out c @ uds_message t UT_Get (ec_next_request_id c) ?q\<rparr>)"
    using send_request_ok [of ?c1 ?q t UT_Get] by simp
  have "is_connected c" using assms(1) by (simp add: is_connected_def)
  then show ?thesis by (simp add: get_core_def key_limit [OF assms(2)] plugged_simps sent on_ok_def)
qed

text \<open>
  C38. \<^verbatim>\<open>elcache_client_get_alloc\<close> is undefined for every value of more than 33 bytes: its first try passes the
  receive buffer as the destination, and \<^verbatim>\<open>memcpy\<close> then copies the value from offset 33 of that buffer
  onto its own start.
\<close>

theorem sdk_get_alloc_overlaps:
  assumes "ec_fd_open c" and "length key \<le> 8192" and "length key + 46 \<le> unat (ec_send_buffer_size c)"
    and "recv_ok evs" and "incoming evs = uds_message now UT_GetResponse rid (get_response True v) @ rest"
    and "33 < length v" and "length v + 33 \<le> length (ec_recv_buffer c)" and "length v + 9 < 2 ^ 32" and "fits (ec_recv_buffer c)"
  shows "elcache_client_get_alloc t (Some (bytes_of key)) allocated options (plugged evs c) = Inl Undefined_behaviour"
proof -
  let ?p = "get_response True v" and ?n = "vec_size (ec_recv_buffer c)" and ?t = "fst (get_time_us c)"
  let ?c = "plugged evs (snd (get_time_us c))\<lparr>ec_next_request_id := ec_next_request_id c + 1, ec_sends := [],
           ec_out := ec_out c @ uds_message t UT_Get (ec_next_request_id c) (get_request (bytes_of key) options)\<rparr>"
  have c: "ec_recvs ?c = evs" "ec_recv_buffer ?c = ec_recv_buffer c" by (simp_all add: plugged_def get_time_us_def)
  have p: "HEADER_SIZE + length ?p \<le> length (ec_recv_buffer ?c)" "fits32 ?p" "fits (ec_recv_buffer ?c)"
    using assms(7-9) c(2) by (simp_all add: get_response_length HEADER_SIZE_def)
  from get_receive_ok [of ?c now rid ?p rest ?t True ?n, OF _ _ p] obtain evs' where
    r: "get_receive ?t True ?n ?c = get_finish ?t True ?n
      (?c\<lparr>ec_recvs := evs', ec_recv_buffer := uds_message now UT_GetResponse rid ?p @ drop (HEADER_SIZE + length ?p) (ec_recv_buffer ?c)\<rparr>)"
    using assms(4,5) c(1) by auto
  have "vec_size v \<le> ?n" using assms(7-9) by (simp add: word_le_nat_alt unat_simps)
  then have "get_finish ?t True ?n (?c\<lparr>ec_recvs := evs', ec_recv_buffer := uds_message now UT_GetResponse rid ?p @ drop (HEADER_SIZE + length ?p) (ec_recv_buffer ?c)\<rparr>)
      = Inl Undefined_behaviour"
    using assms(6,8) uds_header_fields(5)
    by (intro get_finish_overlap [where data = v]) (auto simp: uds_message_def)
  then show ?thesis
    using get_core_sent [OF assms(1-3), of t True ?n options evs] r by (intro get_alloc_first_try) (simp_all add: plugged_simps)
qed

theorem sdk_get_alloc_overlaps_witness:
  "elcache_client_get_alloc 0 (Some (bytes_of ''k'')) True None
     (plugged [Deliver (uds_message 0 UT_GetResponse 1 (get_response True (replicate 34 7)))] new_connection) = Inl Undefined_behaviour"
proof (rule sdk_get_alloc_overlaps [where rid = 1 and now = 0 and v = "replicate 34 7" and rest = "[]"])
  show "recv_ok [Deliver (uds_message 0 UT_GetResponse 1 (get_response True (replicate 34 7)))]"
    by (simp add: uds_message_def get_response_def)
qed (use new_connection_ready in \<open>auto simp: ready_def\<close>)

lemma get_receive_bad_magic:
  assumes "recv_ok (ec_recvs c)" and "incoming (ec_recvs c) = bs @ rest" and "length bs = HEADER_SIZE"
    and "payload_u32 bs 0 = Inr m" and "m \<noteq> PROTO_MAGIC" and "HEADER_SIZE \<le> length (ec_recv_buffer c)"
  shows "\<exists>c'. get_receive start_time into_recv n c = Inr (get_failed ERR_PROTOCOL, set_error ''Invalid response magic'' c')"
proof -
  have "0 + length bs \<le> length (ec_recv_buffer c)" using assms(3,6) by simp
  from recv_all_ok [OF assms(1,2) this] obtain evs where
    "client_recv_all 0 HEADER_SIZE c = Inr (ELCACHE_OK, c\<lparr>ec_recvs := evs, ec_recv_buffer := overwrite (ec_recv_buffer c) 0 bs\<rparr>)"
    using assms(3) by auto
  moreover have "payload_u32 (overwrite (ec_recv_buffer c) 0 bs) 0 = Inr m"
    using assms(3,4) by (simp add: overwrite_def payload_append HEADER_SIZE_def)
  ultimately show ?thesis using assms(5) by (auto simp: get_receive_def on_ok_def Let_def)
qed

context uds_service
begin

lemma over_get_too_large:
  assumes "fragments pieces" and "ready c" and "length key \<le> 8192" and "length key + 46 \<le> unat (ec_send_buffer_size c)"
    and v: "SyncCache_get key srv = Some v" "length (ec_recv_buffer c) < length v + 33" "length v + 9 < 2 ^ 32"
  shows "\<exists>c'. sdk_over serve pieces (elcache_client_get t (Some (bytes_of key)) (Some n) None) now (c, srv)
         = Inr (get_failed ERR_BUFFER_TOO_SMALL, c', srv)
       \<and> recv_ok (ec_recvs c') \<and> incoming (ec_recvs c') = get_response True v \<and> ec_fd_open c'
       \<and> length (ec_recv_buffer c') = length (ec_recv_buffer c) \<and> ec_send_buffer_size c' = ec_send_buffer_size c"
proof -
  let ?p = "get_response True v"
  have r: "get_reply (get_request (bytes_of key) None) srv = Inr (Some ?p, srv)"
    using get_reply_hit [OF assms(3) v(1), of None] v(3) by (simp add: requested_part_def)
  have p: "length (ec_recv_buffer c) < HEADER_SIZE + length ?p" "fits32 ?p" "fits (ec_recv_buffer c)" "HEADER_SIZE \<le> length (ec_recv_buffer c)"
    using v assms(2) by (simp_all add: get_response_length HEADER_SIZE_def ready_def)
  let ?c = "\<lambda>evs. snd (get_time_us c)\<lparr>ec_recvs := evs, ec_next_request_id := ec_next_request_id c + 1, ec_sends := [],
           ec_out := ec_out c @ uds_message t UT_Get (ec_next_request_id c) (get_request (bytes_of key) None)\<rparr>"
  obtain evs where e: "recv_ok evs" "incoming evs = uds_message now UT_GetResponse (ec_next_request_id c) ?p @ []"
    and run: "sdk_over serve pieces (elcache_client_get t (Some (bytes_of key)) (Some n) None) now (c, srv)
       = bind_res (get_receive (fst (get_time_us c)) False n (?c evs)) (\<lambda>(r, c). Inr (r, c, srv))"
    using over_get [OF assms(1-4) r p(2), of now t False n] by (auto simp: elcache_client_get_def [abs_def])
  have c: "ec_recvs (?c evs) = evs" "ec_recv_buffer (?c evs) = ec_recv_buffer c" by (simp_all add: get_time_us_def)
  from get_receive_too_large [of "?c evs" now "ec_next_request_id c" ?p "[]" "fst (get_time_us c)" False n] e p
  obtain evs' buf where "get_receive (fst (get_time_us c)) False n (?c evs)
      = Inr (get_failed ERR_BUFFER_TOO_SMALL, set_error ''Response too large'' (?c evs\<lparr>ec_recvs := evs', ec_recv_buffer := buf\<rparr>))"
    "incoming evs' = ?p" "recv_ok evs'" "length buf = length (ec_recv_buffer c)"
    unfolding c by auto
  then show ?thesis using run assms(2) by (simp add: set_error_def ready_def get_time_us_def)
qed

end

text \<open>
  C37. An answer that does not fit the receive buffer ruins the connection: the call reports
  \<^verbatim>\<open>BUFFER_TOO_SMALL\<close> and leaves the whole payload unread, so the next read takes the payload for a header
  and fails with a protocol error, whatever arrives after it.
\<close>

theorem oversized_answer_desynchronises:
  assumes "fragments pieces" and "ready c" and "length key \<le> 8192" and "length key + 46 \<le> unat (ec_send_buffer_size c)"
    and "SyncCache_get key srv = Some v" and "length (ec_recv_buffer c) < length v + 33" and "length v + 9 < 2 ^ 32"
    and "length key2 \<le> 8192" and "length key2 + 46 \<le> unat (ec_send_buffer_size c)" and "recv_ok evs"
  shows "\<exists>c1 c2. sdk_over serve_thread pieces (elcache_client_get t1 (Some (bytes_of key)) (Some n) None) now (c, srv)
           = Inr (get_failed ERR_BUFFER_TOO_SMALL, c1, srv)
     \<and> elcache_client_get t2 (Some (bytes_of key2)) (Some n2) options (plugged (ec_recvs c1 @ evs) c1) = Inr (get_failed ERR_PROTOCOL, c2)
     \<and> ec_last_error c2 = ''Invalid response magic''"
proof -
  obtain c1 where c1: "sdk_over serve_thread pieces (elcache_client_get t1 (Some (bytes_of key)) (Some n) None) now (c, srv)
      = Inr (get_failed ERR_BUFFER_TOO_SMALL, c1, srv)" "recv_ok (ec_recvs c1)" "incoming (ec_recvs c1) = get_response True v" "ec_fd_open c1"
      "length (ec_recv_buffer c1) = length (ec_recv_buffer c)" "ec_send_buffer_size c1 = ec_send_buffer_size c"
    using thread_server.over_get_too_large [OF assms(1-7)] by blast
  let ?p = "get_response True v" and ?evs = "ec_recvs c1 @ evs"
  let ?c = "plugged ?evs (snd (get_time_us c1))\<lparr>ec_next_request_id := ec_next_request_id c1 + 1, ec_sends := [],
           ec_out := ec_out c1 @ uds_message t2 UT_Get (ec_next_request_id c1) (get_request (bytes_of key2) options)\<rparr>"
  have r: "recv_ok (ec_recvs ?c)" "incoming (ec_recvs ?c) = take HEADER_SIZE ?p @ (drop HEADER_SIZE ?p @ incoming evs)"
    "HEADER_SIZE \<le> length (ec_recv_buffer ?c)"
    using c1(2,3,5) assms(2,10) by (simp_all add: plugged_def get_time_us_def ready_def HEADER_SIZE_def)
  have l: "length (take HEADER_SIZE ?p) = HEADER_SIZE"
    using assms(2,6) by (simp add: get_response_length ready_def HEADER_SIZE_def)
  have "payload_u32 ?p 0 = Inr 0"
    using payload_u32_at [of 0 "[]" 0 "[0] @ encode_u32 (ucast (vec_size v)) @ v"] by (simp add: get_response_def)
  then have m: "payload_u32 (take HEADER_SIZE ?p) 0 = Inr 0"
    using payload_append(3) [of 0 "take HEADER_SIZE ?p" "drop HEADER_SIZE ?p"] l by (simp add: HEADER_SIZE_def)
  obtain c2 where "get_receive (fst (get_time_us c1)) False n2 ?c = Inr (get_failed ERR_PROTOCOL, set_error ''Invalid response magic'' c2)"
    using get_receive_bad_magic [OF r(1,2) l m _ r(3), of "fst (get_time_us c1)" False n2] by (auto simp: PROTO_MAGIC_def)
  then have "elcache_client_get t2 (Some (bytes_of key2)) (Some n2) options (plugged ?evs c1)
      = Inr (get_failed ERR_PROTOCOL, set_error ''Invalid response magic'' c2)"
    using get_core_sent [OF c1(4) assms(8), of t2 False n2 options ?evs] assms(9) c1(6) by (simp add: elcache_client_get_def)
  then show ?thesis using c1(1) by (auto simp: set_error_def)
qed

theorem oversized_answer_desynchronises_witness:
  "\<exists>c1 c2. sdk_over serve_thread (map (\<lambda>b. [b])) (elcache_client_get 0 (Some (bytes_of ''k'')) (Some 100) None) 0
        (set_recv_buffer 64 (Some []) new_connection, \<lparr>us_cache = [(''k'', replicate 40 7)], us_sparse = []\<rparr>)
      = Inr (get_failed ERR_BUFFER_TOO_SMALL, c1, \<lparr>us_cache = [(''k'', replicate 40 7)], us_sparse = []\<rparr>)
     \<and> elcache_client_get 0 (Some (bytes_of ''j'')) (Some 100) None (plugged (ec_recvs c1 @ []) c1) = Inr (get_failed ERR_PROTOCOL, c2)
     \<and> ec_last_error c2 = ''Invalid response magic''"
proof (rule oversized_answer_desynchronises [OF single_bytes, where v = "replicate 40 7"])
  have "length (ec_recv_buffer (set_recv_buffer 64 (Some []) new_connection)) = 64"
    "ec_send_buffer_size (set_recv_buffer 64 (Some []) new_connection) = ec_send_buffer_size new_connection"
    using new_connection_ready(2) by (simp_all add: set_recv_buffer_def)
  then show "ready (set_recv_buffer 64 (Some []) new_connection)"
    "length ''k'' + 46 \<le> unat (ec_send_buffer_size (set_recv_buffer 64 (Some []) new_connection))"
    "length ''j'' + 46 \<le> unat (ec_send_buffer_size (set_recv_buffer 64 (Some []) new_connection))"
    "length (ec_recv_buffer (set_recv_buffer 64 (Some []) new_connection)) < length (replicate 40 7) + 33"
    using new_connection_ready by (simp_all add: ready_def) (simp_all add: set_recv_buffer_def)
qed (simp_all add: SyncCache_get_def)

lemma recv_response_overflow:
  assumes "recv_ok (ec_recvs c)" and "incoming (ec_recvs c) = uds_header now type n rid @ body" and "unat n \<le> length body"
    and "length (ec_recv_buffer c) < HEADER_SIZE + unat n" and "HEADER_SIZE \<le> length (ec_recv_buffer c)"
  shows "recv_response c = Inl Undefined_behaviour"
proof -
  let ?h = "uds_header now type n rid"
  obtain evs where h: "client_recv_all 0 HEADER_SIZE c = Inr (ELCACHE_OK, c\<lparr>ec_recvs := evs, ec_recv_buffer := ?h @ drop HEADER_SIZE (ec_recv_buffer c)\<rparr>)"
    "incoming evs = body" "recv_ok evs"
    using recv_header_ok [OF assms(1,2,5)] by auto
  obtain evs' where "client_recv_loop (unat n) [] evs = (None, take (unat n) body, evs')"
    using recv_loop_ok [OF h(3), of "unat n" "[]"] h(2) assms(3) by auto
  then have "client_recv_all HEADER_SIZE (unat n) (c\<lparr>ec_recvs := evs, ec_recv_buffer := ?h @ drop HEADER_SIZE (ec_recv_buffer c)\<rparr>)
      = Inl Undefined_behaviour"
    using assms(3-5) by (simp add: client_recv_all_def uds_header_fields)
  then show ?thesis by (simp add: recv_response_def on_ok_def h(1) message_fields)
qed

lemma sent_overflow:
  assumes "ec_fd_open c" and "HEADER_SIZE + length p \<le> unat (ec_send_buffer_size c)"
    and "recv_ok evs" and "incoming evs = uds_header now type n rid @ body" and "unat n \<le> length body"
    and "length (ec_recv_buffer c) < HEADER_SIZE + unat n" and "HEADER_SIZE \<le> length (ec_recv_buffer c)"
  shows "on_ok (\<lambda>e. e) (send_request t ty p (plugged evs c)) recv_response = Inl Undefined_behaviour"
    and "on_ok (\<lambda>e. e) (send_request t ty p (plugged evs c)) (\<lambda>c. on_ok (\<lambda>e. e) (recv_response c) f) = Inl Undefined_behaviour"
proof -
  have s: "send_request t ty p (plugged evs c) = Inr (ELCACHE_OK, plugged evs c\<lparr>ec_next_request_id := ec_next_request_id (plugged evs c) + 1, ec_sends := [],
      ec_out := ec_out (plugged evs c) @ uds_message t ty (ec_next_request_id (plugged evs c)) p\<rparr>)" (is "_ = Inr (_, ?c)")
    using assms(1,2) by (intro send_request_ok) (simp_all add: plugged_def)
  have "recv_response ?c = Inl Undefined_behaviour"
    using assms(3-7) by (intro recv_response_overflow [of _ now type n rid body]) (simp_all add: plugged_def)
  then show "on_ok (\<lambda>e. e) (send_request t ty p (plugged evs c)) recv_response = Inl Undefined_behaviour"
    and "on_ok (\<lambda>e. e) (send_request t ty p (plugged evs c)) (\<lambda>c. on_ok (\<lambda>e. e) (recv_response c) f) = Inl Undefined_behaviour"
    by (simp_all add: s on_ok_def)
qed

text \<open>
  C39. Every call but the reads trusts the length in the header of its answer: an answer that announces
  and delivers more than the receive buffer holds is written past the end of the buffer.
\<close>

theorem sdk_unchecked_answer_length:
  assumes "ec_fd_open c" and "length key \<le> 8192" and "length key + length data + 50 \<le> unat (ec_send_buffer_size c)"
    and "recv_ok evs" and "incoming evs = uds_header now type n rid @ body" and "unat n \<le> length body"
    and "length (ec_recv_buffer c) < HEADER_SIZE + unat n" and "HEADER_SIZE \<le> length (ec_recv_buffer c)"
  shows "elcache_client_put t (Some (bytes_of key)) (Some data) options (plugged evs c) = Inl Undefined_behaviour
     \<and> elcache_client_delete t (Some (bytes_of key)) (plugged evs c) = Inl Undefined_behaviour
     \<and> elcache_client_create_sparse t (Some (bytes_of key)) sz options (plugged evs c) = Inl Undefined_behaviour
     \<and> elcache_client_write_range t (Some (bytes_of key)) offset (Some data) (plugged evs c) = Inl Undefined_behaviour
     \<and> elcache_client_finalize t (Some (bytes_of key)) (plugged evs c) = Inl Undefined_behaviour"
proof (intro conjI)
  let ?c1 = "snd (get_time_us c)"
  have conn: "is_connected c = True" using assms(1) by (simp add: is_connected_def)
  have size: "(ec_send_buffer_size c < of_nat HEADER_SIZE + 4 + vec_size (bytes_of key) + 4 + vec_size data + 1 + 8 + 4) = False"
    "(ec_send_buffer_size c < of_nat HEADER_SIZE + 4 + vec_size (bytes_of key) + 8 + 4 + vec_size data) = False"
    using not_too_large [of "length key + length data + 45" "ec_send_buffer_size c"]
      not_too_large [of "length key + length data + 40" "ec_send_buffer_size c"] assms(3)
    by (simp_all add: vec_size_def HEADER_SIZE_def ac_simps)
  note guards = prod.case option.case key_limit [OF assms(2)] conn plugged_simps size if_False not_True_eq_False
  have len: "HEADER_SIZE + length (put_request (bytes_of key) data options) \<le> unat (ec_send_buffer_size ?c1)"
    "HEADER_SIZE + length (key_field (bytes_of key)) \<le> unat (ec_send_buffer_size c)"
    "HEADER_SIZE + length (create_request (bytes_of key) sz options) \<le> unat (ec_send_buffer_size c)"
    "HEADER_SIZE + length (write_request (bytes_of key) offset data) \<le> unat (ec_send_buffer_size c)"
    using assms(3) by (simp_all add: put_request_def create_request_def write_request_def key_field_def put_trailer_def plugged_simps HEADER_SIZE_def split: option.split)
  have c1: "ec_fd_open ?c1" "ec_recv_buffer ?c1 = ec_recv_buffer c" using assms(1) by (simp_all add: get_time_us_def)
  note over = sent_overflow [OF assms(1) _ assms(4-8)] sent_overflow(2) [OF c1(1) _ assms(4-6), unfolded c1(2), OF _ assms(7,8)]
  show "elcache_client_put t (Some (bytes_of key)) (Some data) options (plugged evs c) = Inl Undefined_behaviour"
    unfolding elcache_client_put_def Let_def guards using len(1) by (rule over(3))
  show "elcache_client_delete t (Some (bytes_of key)) (plugged evs c) = Inl Undefined_behaviour"
    unfolding elcache_client_delete_def guards using len(2) by (rule over(1))
  show "elcache_client_create_sparse t (Some (bytes_of key)) sz options (plugged evs c) = Inl Undefined_behaviour"
    unfolding elcache_client_create_sparse_def guards using len(3) by (rule over(2))
  show "elcache_client_write_range t (Some (bytes_of key)) offset (Some data) (plugged evs c) = Inl Undefined_behaviour"
    unfolding elcache_client_write_range_def guards using len(4) by (rule over(2))
  show "elcache_client_finalize t (Some (bytes_of key)) (plugged evs c) = Inl Undefined_behaviour"
    unfolding elcache_client_finalize_def guards using len(2) by (rule over(2))
qed

theorem sdk_unchecked_answer_length_witness:
  "elcache_client_delete 0 (Some (bytes_of ''k'')) (plugged [Deliver (uds_header 0 0x0105 300000 1), Deliver (replicate 300000 0)] new_connection)
     = Inl Undefined_behaviour"
proof -
  let ?evs = "[Deliver (uds_header 0 0x0105 300000 1), Deliver (replicate 300000 0)]"
  have "uds_header 0 0x0105 300000 1 \<noteq> []"
    using uds_header_fields(5) [of 0 "0x0105" 300000 1] by (auto simp: HEADER_SIZE_def)
  then have "recv_ok ?evs" "incoming ?evs = uds_header 0 0x0105 300000 1 @ replicate 300000 0" by simp_all
  then show ?thesis
    using sdk_unchecked_answer_length [of new_connection "''k''" "[]" ?evs 0 "0x0105" 300000 1 "replicate 300000 0"] new_connection_ready
    by (simp add: ready_def HEADER_SIZE_def)
qed

text \<open>A client that is attached to shared memory has no socket, and every request fails when it is sent.\<close>

lemma shm_transport_unusable:
  assumes "elcache_client_connect_shm path outcome c = (ELCACHE_OK, c')" and "length key \<le> 8192" and "length key + 46 \<le> unat (ec_send_buffer_size c)"
  shows "is_connected c' \<and> (\<exists>c''. elcache_client_get t (Some (bytes_of key)) (Some n) options c' = Inr (get_failed ERR_CONNECTION, c''))"
proof -
  have c': "\<not> ec_fd_open c'" "ec_shm_mapped c'" "ec_send_buffer_size c' = ec_send_buffer_size c"
    using assms(1) by (auto simp: elcache_client_connect_shm_def elcache_client_disconnect_def Let_def split: if_splits shm_outcome.splits)
  have "length (get_request (bytes_of key) options) \<le> 22 + length key"
    by (simp add: get_request_def key_field_def split: option.split)
  then show ?thesis
    using c' assms(2,3) key_limit [OF assms(2)]
    by (auto simp: is_connected_def elcache_client_get_def get_core_def get_time_us_def send_request_def client_send_all_def on_ok_def HEADER_SIZE_def)
qed

end
