(* ===== verification/Stream_Format.thy ===== *)
theory Stream_Format
  imports Cxx_Strings Binary64
begin

text \<open>
  How the standard library prints numbers: integers in decimal, and doubles the way \<^verbatim>\<open>std::fixed\<close> with
  a precision, \<^verbatim>\<open>std::to_string\<close> and the default format of streams do. The decimal digits are those of the
  exact value, rounded half to even.
\<close>

definition show_u64 :: "u64 \<Rightarrow> string" where
  "show_u64 w = to_base 10 (unat w)"

definition point_at :: "nat \<Rightarrow> nat \<Rightarrow> string" where
  "point_at p n = (if p = 0 then to_base 10 n else to_base 10 (n div 10 ^ p) @ ''.'' @ pad_left p (to_base 10 (n mod 10 ^ p)))"

definition with_sign :: "double \<Rightarrow> string \<Rightarrow> string" where
  "with_sign x s = (if x < 0 then ''-'' @ s else s)"

definition show_fixed :: "nat \<Rightarrow> double \<Rightarrow> string" where
  "show_fixed p x = with_sign x (point_at p (nat (round_half_even (\<bar>x\<bar> * 10 ^ p))))"

definition to_string_double :: "double \<Rightarrow> string" where
  "to_string_double x = show_fixed 6 x"

text \<open>The default format: six significant digits, no trailing zeros, an exponent when it is large.\<close>

definition strip_zeros :: "string \<Rightarrow> string" where
  "strip_zeros s =
     (if CHR ''.'' \<in> set s then
        (let t = rev (dropWhile (\<lambda>c. c = CHR ''0'') (rev s)) in if last t = CHR ''.'' then butlast t else t)
      else s)"

definition decimal_exponent :: "double \<Rightarrow> int" where
  "decimal_exponent x =
     (if 1 \<le> x then int (length (to_base 10 (nat \<lfloor>x\<rfloor>))) - 1
      else (case List.find (\<lambda>k. 1 \<le> x * 10 ^ k) [1..<400] of Some k \<Rightarrow> - int k | None \<Rightarrow> 0))"

definition six_digits :: "double \<Rightarrow> nat \<times> int" where
  "six_digits x =
     (let e = decimal_exponent x; m = nat (round_half_even (x * 10 powi (5 - e)))
      in if m = 10 ^ 6 then (10 ^ 5, e + 1) else (m, e))"

definition show_exponent :: "int \<Rightarrow> string" where
  "show_exponent e = ''e'' @ (if e < 0 then ''-'' else ''+'') @ pad_left 2 (to_base 10 (nat \<bar>e\<bar>))"

definition show_double :: "double \<Rightarrow> string" where
  "show_double x =
     (if x = 0 then ''0''
      else case six_digits \<bar>x\<bar> of (m, e) \<Rightarrow>
        with_sign x
          (if e < - 4 \<or> 6 \<le> e then strip_zeros (point_at 5 m) @ show_exponent e
           else strip_zeros (point_at (nat (5 - e)) m)))"

lemma show_u64_digits: "show_u64 w \<noteq> [] \<and> (\<forall>c\<in>set (show_u64 w). is_base_digit 10 c)"
  by (auto simp: show_u64_def to_base_def intro!: is_base_digit_digit_char dest: base_digits_bound [of 10, rotated])

lemma stoull_show_u64: "stoull 10 (show_u64 w) = Inr w"
  using stoull_pad_to_base [of "unat w" 10 0] by (simp add: show_u64_def pad_left_def)

end
