(* ===== verification/Metrics.thy ===== *)
theory Metrics
  imports Stream_Format Coordinator
begin

text \<open>
  Metrics: \<^verbatim>\<open>src/include/elcache/metrics.hpp\<close> and \<^verbatim>\<open>src/src/http/metrics.cpp\<close>. Every operation on an atomic is
  one step. A bucket bound of \<open>None\<close> is \<^verbatim>\<open>+Inf\<close>; an observed latency is a finite number. The global
  instance is a record that is passed along; \<open>now\<close> is the steady clock in nanoseconds.
\<close>

section \<open>Histograms, counters and gauges\<close>

record LatencyHistogram =
  lh_buckets :: "(double option \<times> u64) list"
  lh_count :: u64
  lh_sum :: double

definition DEFAULT_BUCKETS :: "double list" where
  "DEFAULT_BUCKETS = [fl (1 / 10), 1 / 2, 1, 5 / 2, 5, 10, 25, 50, 100, 250, 500, 1000, 2500, 5000, 10000]"

definition LatencyHistogram_new :: LatencyHistogram where
  "LatencyHistogram_new = \<lparr>lh_buckets = map (\<lambda>b. (Some b, 0)) DEFAULT_BUCKETS @ [(None, 0)], lh_count = 0, lh_sum = 0\<rparr>"

fun below :: "double \<Rightarrow> double option \<Rightarrow> bool" where
  "below x None = True"
| "below x (Some b) = (x \<le> b)"

fun observe_bucket :: "double \<Rightarrow> (double option \<times> u64) list \<Rightarrow> (double option \<times> u64) list" where
  "observe_bucket x [] = []"
| "observe_bucket x ((b, n) # bs) = (if below x b then (b, n + 1) # bs else (b, n) # observe_bucket x bs)"

definition observe :: "double \<Rightarrow> LatencyHistogram \<Rightarrow> LatencyHistogram" where
  "observe value_ms h =
     h\<lparr>lh_buckets := observe_bucket value_ms (lh_buckets h), lh_count := lh_count h + 1, lh_sum := fl (lh_sum h + value_ms)\<rparr>"

record Snapshot =
  sn_buckets :: "(double option \<times> u64) list"
  sn_count :: u64
  sn_sum :: double

fun cumulate :: "u64 \<Rightarrow> (double option \<times> u64) list \<Rightarrow> (double option \<times> u64) list" where
  "cumulate cumulative [] = []"
| "cumulate cumulative ((b, n) # bs) = (b, cumulative + n) # cumulate (cumulative + n) bs"

definition snapshot :: "LatencyHistogram \<Rightarrow> Snapshot" where
  "snapshot h = \<lparr>sn_buckets = cumulate 0 (lh_buckets h), sn_count = lh_count h, sn_sum = lh_sum h\<rparr>"

definition LatencyHistogram_reset :: "LatencyHistogram \<Rightarrow> LatencyHistogram" where
  "LatencyHistogram_reset h = h\<lparr>lh_buckets := map (\<lambda>(b, n). (b, 0)) (lh_buckets h), lh_count := 0, lh_sum := 0\<rparr>"

definition Counter_inc :: "u64 \<Rightarrow> u64 \<Rightarrow> u64" where
  "Counter_inc n v = v + n"

definition Gauge_inc :: "double \<Rightarrow> double \<Rightarrow> double" where
  "Gauge_inc n v = fl (v + n)"

definition Gauge_dec :: "double \<Rightarrow> double \<Rightarrow> double" where
  "Gauge_dec n v = Gauge_inc (- n) v"

text \<open>The timer observes the milliseconds between its construction and its destruction.\<close>

definition LatencyTimer_end :: "int \<Rightarrow> int \<Rightarrow> LatencyHistogram \<Rightarrow> LatencyHistogram" where
  "LatencyTimer_end start now h = observe (fl (fl (of_int (now - start)) / 10 ^ 6)) h"

section \<open>The metrics and their collector\<close>

record Metrics =
  me_cache_hits_total :: u64
  me_cache_misses_total :: u64
  me_cache_partial_hits_total :: u64
  me_cache_gets_total :: u64
  me_cache_puts_total :: u64
  me_cache_deletes_total :: u64
  me_bytes_read_total :: u64
  me_bytes_written_total :: u64
  me_memory_cache_size_bytes :: double
  me_memory_cache_capacity_bytes :: double
  me_memory_cache_entries :: double
  me_disk_cache_size_bytes :: double
  me_disk_cache_capacity_bytes :: double
  me_disk_cache_entries :: double
  me_memory_evictions_total :: u64
  me_disk_evictions_total :: u64
  me_get_latency_ms :: LatencyHistogram
  me_put_latency_ms :: LatencyHistogram
  me_delete_latency_ms :: LatencyHistogram
  me_cluster_nodes_total :: double
  me_cluster_nodes_active :: double
  me_cluster_messages_sent_total :: u64
  me_cluster_messages_received_total :: u64
  me_cluster_bytes_sent_total :: u64
  me_cluster_bytes_received_total :: u64
  me_http_requests_total :: u64
  me_http_errors_total :: u64
  me_http_request_latency_ms :: LatencyHistogram
  me_http_connections_active :: double
  me_chunks_read_total :: u64
  me_chunks_written_total :: u64
  me_chunks_deleted_total :: u64
  me_chunks_in_memory :: double
  me_chunks_on_disk :: double
  me_start_time :: int

definition Metrics_new :: "int \<Rightarrow> Metrics" where
  "Metrics_new now =
     \<lparr>me_cache_hits_total = 0, me_cache_misses_total = 0, me_cache_partial_hits_total = 0, me_cache_gets_total = 0,
      me_cache_puts_total = 0, me_cache_deletes_total = 0, me_bytes_read_total = 0, me_bytes_written_total = 0,
      me_memory_cache_size_bytes = 0, me_memory_cache_capacity_bytes = 0, me_memory_cache_entries = 0,
      me_disk_cache_size_bytes = 0, me_disk_cache_capacity_bytes = 0, me_disk_cache_entries = 0,
      me_memory_evictions_total = 0, me_disk_evictions_total = 0,
      me_get_latency_ms = LatencyHistogram_new, me_put_latency_ms = LatencyHistogram_new, me_delete_latency_ms = LatencyHistogram_new,
      me_cluster_nodes_total = 0, me_cluster_nodes_active = 0, me_cluster_messages_sent_total = 0,
      me_cluster_messages_received_total = 0, me_cluster_bytes_sent_total = 0, me_cluster_bytes_received_total = 0,
      me_http_requests_total = 0, me_http_errors_total = 0, me_http_request_latency_ms = LatencyHistogram_new,
      me_http_connections_active = 0, me_chunks_read_total = 0, me_chunks_written_total = 0, me_chunks_deleted_total = 0,
      me_chunks_in_memory = 0, me_chunks_on_disk = 0, me_start_time = now\<rparr>"

definition uptime_seconds :: "int \<Rightarrow> Metrics \<Rightarrow> double" where
  "uptime_seconds now m = fl (fl (of_int (now - me_start_time m)) / 10 ^ 9)"

text \<open>The two sources of the collector may be unset.\<close>

definition collect_cache :: "Coordinator option \<Rightarrow> Metrics \<Rightarrow> Metrics" where
  "collect_cache cache m =
     (case cache of
        None \<Rightarrow> m
      | Some co \<Rightarrow>
          let stats = Coordinator_stats co;
              m = m\<lparr>me_memory_cache_entries := double_of_u64 (cs_entry_count stats),
                    me_memory_cache_size_bytes := double_of_u64 (cs_size_bytes stats),
                    me_memory_cache_capacity_bytes := double_of_u64 (cs_capacity_bytes stats)\<rparr>
          in case co_disk co of
              None \<Rightarrow> m
            | Some dc \<Rightarrow>
                let disk_stats = DiskCache_stats dc
                in m\<lparr>me_disk_cache_entries := double_of_u64 (cs_entry_count disk_stats),
                     me_disk_cache_size_bytes := double_of_u64 (cs_size_bytes disk_stats),
                     me_disk_cache_capacity_bytes := double_of_u64 (cs_capacity_bytes disk_stats)\<rparr>)"

definition collect :: "Coordinator option \<Rightarrow> Cluster option \<Rightarrow> Metrics \<Rightarrow> Metrics" where
  "collect cache cluster m =
     (let m = collect_cache cache m
      in case cluster of
          None \<Rightarrow> m
        | Some c \<Rightarrow>
            let stats = Cluster_stats c
            in m\<lparr>me_cluster_nodes_total := double_of_u64 (st_total_nodes stats),
                 me_cluster_nodes_active := double_of_u64 (st_active_nodes stats)\<rparr>)"

section \<open>Export\<close>

definition eol :: string where
  "eol = [CHR 0x0A]"

definition metric_head :: "string \<Rightarrow> string \<Rightarrow> string \<Rightarrow> string" where
  "metric_head name help kind = ''# HELP '' @ name @ '' '' @ help @ eol @ ''# TYPE '' @ name @ '' '' @ kind @ eol"

definition write_counter :: "string \<Rightarrow> string \<Rightarrow> u64 \<Rightarrow> string" where
  "write_counter name help v = metric_head name help ''counter'' @ name @ '' '' @ show_u64 v @ eol"

definition write_gauge :: "string \<Rightarrow> string \<Rightarrow> double \<Rightarrow> string" where
  "write_gauge name help v = metric_head name help ''gauge'' @ name @ '' '' @ show_fixed 2 v @ eol"

definition write_histogram :: "string \<Rightarrow> string \<Rightarrow> Snapshot \<Rightarrow> string" where
  "write_histogram name help snap =
     metric_head name help ''histogram''
     @ concat (map (\<lambda>(bound, count). name @ ''_bucket{le=\"'' @ (case bound of None \<Rightarrow> ''+Inf'' | Some b \<Rightarrow> show_fixed 1 b)
         @ ''\"} '' @ show_u64 count @ eol) (sn_buckets snap))
     @ name @ ''_sum '' @ show_fixed 3 (sn_sum snap) @ eol
     @ name @ ''_count '' @ show_u64 (sn_count snap) @ eol"

definition hit_rate :: "Metrics \<Rightarrow> double" where
  "hit_rate m =
     (let total_gets = me_cache_hits_total m + me_cache_misses_total m + me_cache_partial_hits_total m
      in if total_gets > 0 then fl (double_of_u64 (me_cache_hits_total m) / double_of_u64 total_gets) else 0)"

definition export_prometheus :: "int \<Rightarrow> Metrics \<Rightarrow> string" where
  "export_prometheus now m = concat
     [write_counter ''elcache_cache_hits_total'' ''Total number of cache hits'' (me_cache_hits_total m),
      write_counter ''elcache_cache_misses_total'' ''Total number of cache misses'' (me_cache_misses_total m),
      write_counter ''elcache_cache_partial_hits_total'' ''Total number of partial cache hits'' (me_cache_partial_hits_total m),
      write_counter ''elcache_cache_gets_total'' ''Total number of get operations'' (me_cache_gets_total m),
      write_counter ''elcache_cache_puts_total'' ''Total number of put operations'' (me_cache_puts_total m),
      write_counter ''elcache_cache_deletes_total'' ''Total number of delete operations'' (me_cache_deletes_total m),
      write_counter ''elcache_bytes_read_total'' ''Total bytes read from cache'' (me_bytes_read_total m),
      write_counter ''elcache_bytes_written_total'' ''Total bytes written to cache'' (me_bytes_written_total m),
      write_gauge ''elcache_memory_cache_size_bytes'' ''Current size of memory cache in bytes'' (me_memory_cache_size_bytes m),
      write_gauge ''elcache_memory_cache_capacity_bytes'' ''Capacity of memory cache in bytes'' (me_memory_cache_capacity_bytes m),
      write_gauge ''elcache_memory_cache_entries'' ''Number of entries in memory cache'' (me_memory_cache_entries m),
      write_gauge ''elcache_disk_cache_size_bytes'' ''Current size of disk cache in bytes'' (me_disk_cache_size_bytes m),
      write_gauge ''elcache_disk_cache_capacity_bytes'' ''Capacity of disk cache in bytes'' (me_disk_cache_capacity_bytes m),
      write_gauge ''elcache_disk_cache_entries'' ''Number of entries in disk cache'' (me_disk_cache_entries m),
      write_counter ''elcache_memory_evictions_total'' ''Total memory cache evictions'' (me_memory_evictions_total m),
      write_counter ''elcache_disk_evictions_total'' ''Total disk cache evictions'' (me_disk_evictions_total m),
      write_histogram ''elcache_get_latency_ms'' ''Get operation latency in milliseconds'' (snapshot (me_get_latency_ms m)),
      write_histogram ''elcache_put_latency_ms'' ''Put operation latency in milliseconds'' (snapshot (me_put_latency_ms m)),
      write_histogram ''elcache_delete_latency_ms'' ''Delete operation latency in milliseconds'' (snapshot (me_delete_latency_ms m)),
      write_gauge ''elcache_cluster_nodes_total'' ''Total number of nodes in cluster'' (me_cluster_nodes_total m),
      write_gauge ''elcache_cluster_nodes_active'' ''Number of active nodes in cluster'' (me_cluster_nodes_active m),
      write_counter ''elcache_cluster_messages_sent_total'' ''Total cluster messages sent'' (me_cluster_messages_sent_total m),
      write_counter ''elcache_cluster_messages_received_total'' ''Total cluster messages received'' (me_cluster_messages_received_total m),
      write_counter ''elcache_http_requests_total'' ''Total HTTP requests handled'' (me_http_requests_total m),
      write_counter ''elcache_http_errors_total'' ''Total HTTP errors'' (me_http_errors_total m),
      write_histogram ''elcache_http_request_latency_ms'' ''HTTP request latency in milliseconds'' (snapshot (me_http_request_latency_ms m)),
      write_gauge ''elcache_http_connections_active'' ''Active HTTP connections'' (me_http_connections_active m),
      write_counter ''elcache_chunks_read_total'' ''Total chunks read'' (me_chunks_read_total m),
      write_counter ''elcache_chunks_written_total'' ''Total chunks written'' (me_chunks_written_total m),
      write_gauge ''elcache_chunks_in_memory'' ''Chunks currently in memory'' (me_chunks_in_memory m),
      write_gauge ''elcache_chunks_on_disk'' ''Chunks currently on disk'' (me_chunks_on_disk m),
      write_gauge ''elcache_uptime_seconds'' ''Time since server start in seconds'' (uptime_seconds now m),
      write_gauge ''elcache_cache_hit_rate'' ''Cache hit rate (hits / total requests)'' (hit_rate m)]"

text \<open>A line of the JSON text, and the average the text gives for a histogram.\<close>

definition json_line :: "nat \<Rightarrow> string \<Rightarrow> string \<Rightarrow> bool \<Rightarrow> string" where
  "json_line indent name v comma =
     replicate indent (CHR '' '') @ ''\"'' @ name @ ''\": '' @ v @ (if comma then '','' else []) @ eol"

definition average_ms :: "LatencyHistogram \<Rightarrow> double" where
  "average_ms h =
     (let s = snapshot h in if sn_count s > 0 then fl (sn_sum s / double_of_u64 (sn_count s)) else 0)"

definition show_whole :: "double \<Rightarrow> string" where
  "show_whole x = show_u64 (u64_of_double x)"

definition export_json :: "int \<Rightarrow> Metrics \<Rightarrow> string" where
  "export_json now m = concat
     [''{'', eol,
      json_line 2 ''cache'' ''{'' False,
      json_line 4 ''hits'' (show_u64 (me_cache_hits_total m)) True,
      json_line 4 ''misses'' (show_u64 (me_cache_misses_total m)) True,
      json_line 4 ''partial_hits'' (show_u64 (me_cache_partial_hits_total m)) True,
      json_line 4 ''gets'' (show_u64 (me_cache_gets_total m)) True,
      json_line 4 ''puts'' (show_u64 (me_cache_puts_total m)) True,
      json_line 4 ''deletes'' (show_u64 (me_cache_deletes_total m)) True,
      json_line 4 ''bytes_read'' (show_u64 (me_bytes_read_total m)) True,
      json_line 4 ''bytes_written'' (show_u64 (me_bytes_written_total m)) False,
      ''  },'', eol,
      json_line 2 ''memory_cache'' ''{'' False,
      json_line 4 ''size_bytes'' (show_whole (me_memory_cache_size_bytes m)) True,
      json_line 4 ''capacity_bytes'' (show_whole (me_memory_cache_capacity_bytes m)) True,
      json_line 4 ''entries'' (show_whole (me_memory_cache_entries m)) True,
      json_line 4 ''evictions'' (show_u64 (me_memory_evictions_total m)) False,
      ''  },'', eol,
      json_line 2 ''disk_cache'' ''{'' False,
      json_line 4 ''size_bytes'' (show_whole (me_disk_cache_size_bytes m)) True,
      json_line 4 ''capacity_bytes'' (show_whole (me_disk_cache_capacity_bytes m)) True,
      json_line 4 ''entries'' (show_whole (me_disk_cache_entries m)) True,
      json_line 4 ''evictions'' (show_u64 (me_disk_evictions_total m)) False,
      ''  },'', eol,
      json_line 2 ''cluster'' ''{'' False,
      json_line 4 ''nodes_total'' (show_whole (me_cluster_nodes_total m)) True,
      json_line 4 ''nodes_active'' (show_whole (me_cluster_nodes_active m)) True,
      json_line 4 ''messages_sent'' (show_u64 (me_cluster_messages_sent_total m)) True,
      json_line 4 ''messages_received'' (show_u64 (me_cluster_messages_received_total m)) False,
      ''  },'', eol,
      json_line 2 ''http'' ''{'' False,
      json_line 4 ''requests'' (show_u64 (me_http_requests_total m)) True,
      json_line 4 ''errors'' (show_u64 (me_http_errors_total m)) True,
      json_line 4 ''connections_active'' (show_whole (me_http_connections_active m)) False,
      ''  },'', eol,
      json_line 2 ''latency_ms'' ''{'' False,
      json_line 4 ''get_avg'' (show_fixed 3 (average_ms (me_get_latency_ms m))) True,
      json_line 4 ''put_avg'' (show_fixed 3 (average_ms (me_put_latency_ms m))) False,
      ''  },'', eol,
      json_line 2 ''uptime_seconds'' (show_fixed 1 (uptime_seconds now m)) False,
      ''}'', eol]"

section \<open>What a histogram reports\<close>

definition bounds_ascend :: "(double option \<times> u64) list \<Rightarrow> bool" where
  "bounds_ascend bs = sorted_wrt (\<lambda>p q. \<forall>x. below x (fst p) \<longrightarrow> below x (fst q)) bs"

lemma observe_bucket_bounds: "map fst (observe_bucket x bs) = map fst bs"
  by (induction x bs rule: observe_bucket.induct) auto

lemma cumulate_shift:
  "\<forall>p\<in>set bs. below x (fst p) \<Longrightarrow> cumulate (a + 1) bs = map (\<lambda>(b, n). (b, if below x b then n + 1 else n)) (cumulate a bs)"
  by (induction a bs rule: cumulate.induct) (auto simp: ac_simps)

lemma cumulate_observe:
  "bounds_ascend bs \<Longrightarrow> cumulate a (observe_bucket x bs) = map (\<lambda>(b, n). (b, if below x b then n + 1 else n)) (cumulate a bs)"
proof (induction a bs rule: cumulate.induct)
  case (2 a b n bs)
  then show ?case
    using cumulate_shift [of bs x "a + n"] by (auto simp: bounds_ascend_def ac_simps)
qed simp

lemma observe_keeps_bounds: "bounds_ascend (observe_bucket x bs) = bounds_ascend bs"
proof -
  have "bounds_ascend bs = sorted_wrt (\<lambda>b c. \<forall>x. below x b \<longrightarrow> below x c) (map fst bs)" for bs
    by (simp add: bounds_ascend_def sorted_wrt_map)
  then show ?thesis by (simp add: observe_bucket_bounds)
qed

lemma default_bounds_ascend: "bounds_ascend (lh_buckets LatencyHistogram_new)"
proof -
  have "fl (1 / 10) \<le> (1 / 2 :: rat)" by code_simp
  then show ?thesis by (auto simp: bounds_ascend_def LatencyHistogram_new_def DEFAULT_BUCKETS_def sorted_wrt_append)
qed

lemma cumulate_fold:
  assumes "bounds_ascend (lh_buckets h)"
  shows "sn_buckets (snapshot (fold observe xs h))
       = map (\<lambda>(b, n). (b, n + of_nat (length (filter (\<lambda>x. below x b) xs)))) (sn_buckets (snapshot h))
     \<and> sn_count (snapshot (fold observe xs h)) = sn_count (snapshot h) + of_nat (length xs)"
  using assms
proof (induction xs arbitrary: h)
  case (Cons x xs)
  have "bounds_ascend (lh_buckets (observe x h))" using Cons.prems by (simp add: observe_def observe_keeps_bounds)
  from Cons.IH [OF this] show ?case
    using cumulate_observe [OF Cons.prems, of 0 x] by (auto simp: snapshot_def observe_def ac_simps)
qed (auto simp: snapshot_def)

text \<open>
  C24. A histogram reports what it observed: after any sequence of latencies the entry of the snapshot
  for each bound is the number of latencies up to that bound, modulo \<^verbatim>\<open>2^64\<close>, the last entry is the
  number of all of them, and so is the count.
\<close>

theorem histogram_exact:
  "sn_buckets (snapshot (fold observe xs LatencyHistogram_new))
     = map (\<lambda>b. (b, of_nat (length (filter (\<lambda>x. below x b) xs)))) (map Some DEFAULT_BUCKETS @ [None])
   \<and> sn_count (snapshot (fold observe xs LatencyHistogram_new)) = of_nat (length xs)"
proof -
  have "cumulate 0 (map (\<lambda>b. (b, 0)) bs) = map (\<lambda>b. (b, 0)) bs" for bs
    by (induction bs) simp_all
  from this [of "map Some DEFAULT_BUCKETS @ [None]"]
  have "sn_buckets (snapshot LatencyHistogram_new) = map (\<lambda>b. (b, 0)) (map Some DEFAULT_BUCKETS @ [None])"
    by (simp add: snapshot_def LatencyHistogram_new_def comp_def)
  moreover have "sn_count (snapshot LatencyHistogram_new) = 0" by (simp add: snapshot_def LatencyHistogram_new_def)
  ultimately show ?thesis using cumulate_fold [OF default_bounds_ascend, of xs] by (simp add: comp_def)
qed

text \<open>
  The collector sets gauges only, and no other code of the program touches the metrics: the counters
  and histograms of the export stay at zero, whatever the cache does.
\<close>

lemma collect_counts_nothing:
  "me_cache_hits_total (collect cache cluster m) = me_cache_hits_total m
   \<and> me_cache_gets_total (collect cache cluster m) = me_cache_gets_total m
   \<and> me_get_latency_ms (collect cache cluster m) = me_get_latency_ms m \<and> hit_rate (collect cache cluster m) = hit_rate m"
  by (simp add: collect_def collect_cache_def hit_rate_def Let_def split: option.split)

end
