(* ===== verification/Http_Api.thy ===== *)
theory Http_Api
  imports Metrics Sparse_Cache Coordinator_Properties
begin

text \<open>
  The HTTP interface: \<^verbatim>\<open>src/include/elcache/http_api.hpp\<close> and \<^verbatim>\<open>src/src/http/http_api.cpp\<close>. A handler reads
  the request, calls the coordinator or the sparse store and builds the response. Its result is \<open>None\<close>
  when the coordinator waits forever, and an exception where one escapes the handler (a number in a
  header or query that does not parse, a path that is too short). The headers of a request are listed
  in the iteration order of the unordered map. Function arguments are evaluated from right to left.

  The Elio library is not modelled: its request is the record \<open>ElioRequest\<close> of the values its accessors
  return, and its response is what the adapter hands over.
\<close>

section \<open>Requests\<close>

datatype elio_method = M_GET | M_POST | M_PUT | M_DELETE | M_HEAD | M_OPTIONS | M_PATCH | M_OTHER

record ElioRequest =
  er_method :: elio_method
  er_path :: string
  er_query :: string
  er_headers :: "(string \<times> string) list"
  er_body :: "byte list"

record HttpRequest =
  hr_method :: string
  hr_path :: string
  hr_query :: string
  hr_headers :: "(string \<times> string) list"
  hr_body :: "byte list"

fun method_name :: "elio_method \<Rightarrow> string" where
  "method_name M_GET = ''GET''"
| "method_name M_POST = ''POST''"
| "method_name M_PUT = ''PUT''"
| "method_name M_DELETE = ''DELETE''"
| "method_name M_HEAD = ''HEAD''"
| "method_name M_OPTIONS = ''OPTIONS''"
| "method_name M_PATCH = ''PATCH''"
| "method_name M_OTHER = ''UNKNOWN''"

definition from_context :: "ElioRequest \<Rightarrow> HttpRequest" where
  "from_context ctx =
     (let (path, query) =
        (case str_find (er_path ctx) ''?'' 0 of
           Some query_pos \<Rightarrow> (take query_pos (er_path ctx), drop (query_pos + 1) (er_path ctx))
         | None \<Rightarrow> (er_path ctx, er_query ctx))
      in \<lparr>hr_method = method_name (er_method ctx), hr_path = path, hr_query = query,
          hr_headers = fold (\<lambda>(name, v). AList.update name v) (er_headers ctx) [], hr_body = er_body ctx\<rparr>)"

definition to_lower :: "char \<Rightarrow> char" where
  "to_lower c = (let n = (of_char c :: nat) in if 65 \<le> n \<and> n \<le> 90 then char_of (n + 32) else c)"

definition header :: "HttpRequest \<Rightarrow> string \<Rightarrow> string" where
  "header req name =
     (case map_of (hr_headers req) name of
        Some v \<Rightarrow> v
      | None \<Rightarrow>
          (case List.find (\<lambda>(k, v). map to_lower k = map to_lower name) (hr_headers req) of
             Some (k, v) \<Rightarrow> v
           | None \<Rightarrow> []))"

definition content_length :: "HttpRequest \<Rightarrow> u64 option result" where
  "content_length req =
     (let cl = header req ''Content-Length'' in if cl = [] then Inr None else bind_res (stoull 10 cl) (\<lambda>n. Inr (Some n)))"

definition has_range_header :: "HttpRequest \<Rightarrow> bool" where
  "has_range_header req = (header req ''Range'' \<noteq> [])"

definition parse_range_value :: "string \<Rightarrow> u64 \<Rightarrow> Range result" where
  "parse_range_value range_str total_size =
     (let whole = Inr \<lparr>r_offset = 0, r_length = total_size\<rparr>
      in case str_find range_str ''='' 0 of
          None \<Rightarrow> whole
        | Some eq \<Rightarrow>
            let range_val = drop (eq + 1) range_str
            in case str_find range_val ''-'' 0 of
                None \<Rightarrow> whole
              | Some dash \<Rightarrow>
                  bind_res (if dash > 0 then stoull 10 (take dash range_val) else Inr 0) (\<lambda>start.
                    bind_res (if dash < length range_val - 1 then stoull 10 (drop (dash + 1) range_val) else Inr (total_size - 1)) (\<lambda>stop.
                      let (start, stop) = (if dash = 0 then (total_size - stop, total_size - 1) else (start, stop))
                      in Inr \<lparr>r_offset = start, r_length = stop - start + 1\<rparr>)))"

definition parse_range_header :: "HttpRequest \<Rightarrow> u64 \<Rightarrow> Range result" where
  "parse_range_header req total_size =
     (let range_str = header req ''Range''
      in if range_str = [] then Inr \<lparr>r_offset = 0, r_length = total_size\<rparr> else parse_range_value range_str total_size)"

section \<open>Responses\<close>

record HttpResponse =
  hp_status_code :: nat
  hp_status_text :: string
  hp_headers :: "(string \<times> string) list"
  hp_body :: "byte list"

definition response :: "nat \<Rightarrow> string \<Rightarrow> byte list \<Rightarrow> HttpResponse" where
  "response code status_text body = \<lparr>hp_status_code = code, hp_status_text = status_text, hp_headers = [], hp_body = body\<rparr>"

definition set_header :: "string \<Rightarrow> string \<Rightarrow> HttpResponse \<Rightarrow> HttpResponse" where
  "set_header name v resp = resp\<lparr>hp_headers := AList.update name v (hp_headers resp)\<rparr>"

definition set_content_type :: "string \<Rightarrow> HttpResponse \<Rightarrow> HttpResponse" where
  "set_content_type type = set_header ''Content-Type'' type"

definition set_content_length :: "u64 \<Rightarrow> HttpResponse \<Rightarrow> HttpResponse" where
  "set_content_length len = set_header ''Content-Length'' (show_u64 len)"

definition set_range_headers :: "Range \<Rightarrow> u64 \<Rightarrow> HttpResponse \<Rightarrow> HttpResponse" where
  "set_range_headers r n resp =
     set_header ''Accept-Ranges'' ''bytes''
       (set_header ''Content-Range''
         (''bytes '' @ show_u64 (r_offset r) @ ''-'' @ show_u64 (r_offset r + r_length r - 1) @ ''/'' @ show_u64 n) resp)"

definition resp_ok :: "byte list \<Rightarrow> HttpResponse" where
  "resp_ok body = response 200 ''OK'' body"

definition resp_created :: HttpResponse where
  "resp_created = response 201 ''Created'' []"

definition no_content :: HttpResponse where
  "no_content = response 204 ''No Content'' []"

definition partial_content :: "byte list \<Rightarrow> Range \<Rightarrow> u64 \<Rightarrow> HttpResponse" where
  "partial_content body r n = set_range_headers r n (response 206 ''Partial Content'' body)"

definition text_response :: "nat \<Rightarrow> string \<Rightarrow> string \<Rightarrow> HttpResponse" where
  "text_response code status_text msg = set_content_type ''text/plain'' (response code status_text (bytes_of msg))"

definition not_found :: "string \<Rightarrow> HttpResponse" where
  "not_found msg = text_response 404 ''Not Found'' msg"

definition bad_request :: "string \<Rightarrow> HttpResponse" where
  "bad_request msg = text_response 400 ''Bad Request'' msg"

definition internal_error :: "string \<Rightarrow> HttpResponse" where
  "internal_error msg = text_response 500 ''Internal Server Error'' msg"

definition service_unavailable :: "string \<Rightarrow> HttpResponse" where
  "service_unavailable msg = text_response 503 ''Service Unavailable'' msg"

definition json_response :: "string \<Rightarrow> HttpResponse" where
  "json_response body = set_content_type ''application/json'' (resp_ok (bytes_of body))"

text \<open>What the adapter hands to the library: the status, the headers it sets in turn and the body.\<close>

definition to_elio_response :: "HttpResponse \<Rightarrow> nat \<times> (string \<times> string) list \<times> string" where
  "to_elio_response resp = (hp_status_code resp, hp_headers resp, string_of (hp_body resp))"

section \<open>The cache endpoints\<close>

text \<open>
  The coordinator, the sparse store all connections share, the global metrics, and the collector: which of
  its two sources are set, or \<open>None\<close> if there is no collector.
\<close>

record HttpState =
  hs_cache :: Coordinator
  hs_sparse :: SparseCache
  hs_metrics :: Metrics
  hs_collector :: "(bool \<times> bool) option"

type_synonym http_step = "(HttpResponse result \<times> HttpState) option"

abbreviation reply :: "HttpResponse \<Rightarrow> HttpState \<Rightarrow> http_step" where
  "reply resp s \<equiv> Some (Inr resp, s)"

text \<open>An exception leaves the handler.\<close>

definition attempt :: "'a result \<Rightarrow> HttpState \<Rightarrow> ('a \<Rightarrow> http_step) \<Rightarrow> http_step" where
  "attempt r s f = (case r of Inl ex \<Rightarrow> Some (Inl ex, s) | Inr x \<Rightarrow> f x)"

definition call_cache :: "('a result \<times> Coordinator) option \<Rightarrow> HttpState \<Rightarrow> ('a \<Rightarrow> HttpState \<Rightarrow> http_step) \<Rightarrow> http_step" where
  "call_cache r s f = Option.bind r (\<lambda>(res, co). attempt res (s\<lparr>hs_cache := co\<rparr>) (\<lambda>x. f x (s\<lparr>hs_cache := co\<rparr>)))"

text \<open>\<^verbatim>\<open>req.path.substr(n)\<close>, and the refusal of an empty key.\<close>

definition with_key :: "nat \<Rightarrow> string \<Rightarrow> HttpRequest \<Rightarrow> HttpState \<Rightarrow> (string \<Rightarrow> http_step) \<Rightarrow> http_step" where
  "with_key n msg req s f =
     (if length (hr_path req) < n then Some (Inl Out_of_range, s)
      else let key = drop n (hr_path req) in if key = [] then reply (bad_request msg) s else f key)"

definition query_range :: "string \<Rightarrow> Range option result" where
  "query_range query =
     (case str_find query ''range='' 0 of
        None \<Rightarrow> Inr None
      | Some range_pos \<Rightarrow>
          let range_str = drop (range_pos + 6) query
          in case str_find range_str ''-'' 0 of
              None \<Rightarrow> Inr None
            | Some dash \<Rightarrow>
                bind_res (stoull 10 (take dash range_str)) (\<lambda>offset.
                  bind_res (stoull 10 (drop (dash + 1) range_str)) (\<lambda>len.
                    Inr (Some \<lparr>r_offset = offset, r_length = len\<rparr>))))"

definition read_options :: "HttpRequest \<Rightarrow> CacheKey \<Rightarrow> Coordinator \<Rightarrow> ReadOptions result" where
  "read_options req key co =
     bind_res
       (if has_range_header req then
          (case Coordinator_metadata key co of
             Some meta \<Rightarrow> bind_res (parse_range_header req (md_total_size meta)) (\<lambda>r. Inr (Some r))
           | None \<Rightarrow> Inr None)
        else Inr None) (\<lambda>header_range.
       bind_res (if hr_query req \<noteq> [] then query_range (hr_query req) else Inr None) (\<lambda>q.
         Inr (ReadOptions_new\<lparr>ro_allow_partial := True, ro_range := (case q of Some r \<Rightarrow> Some r | None \<Rightarrow> header_range)\<rparr>)))"

definition hit_source :: "CacheResult \<Rightarrow> string" where
  "hit_source res = (if res = Hit then ''hit'' else if res = PartialHit then ''partial'' else ''miss'')"

definition read_response :: "ReadOptions \<Rightarrow> ReadResult \<Rightarrow> HttpResponse" where
  "read_response opts res =
     (if rr_result res = Miss then not_found ''Key not found''
      else
        let resp =
              (if rr_result res = PartialHit \<or> ro_range opts \<noteq> None then
                 partial_content (rr_data res) (rr_actual_range res)
                   (case rr_metadata res of Some md \<Rightarrow> md_total_size md | None \<Rightarrow> vec_size (rr_data res))
               else resp_ok (rr_data res));
            resp = set_header ''X-ElCache-Hit'' (hit_source (rr_result res)) resp;
            resp = (case rr_metadata res of
                      Some md \<Rightarrow> set_header ''X-ElCache-Chunks'' (show_u64 (md_chunk_count md))
                                  (set_header ''X-ElCache-Size'' (show_u64 (md_total_size md)) resp)
                    | None \<Rightarrow> resp);
            resp = set_content_type ''application/octet-stream'' resp
        in set_content_length (vec_size (hp_body resp)) resp)"

definition http_handle_get :: "hasher \<Rightarrow> Timestamp \<Rightarrow> u64 \<Rightarrow> HttpRequest \<Rightarrow> HttpState \<Rightarrow> http_step" where
  "http_handle_get H now now_ms req s =
     with_key 7 ''Missing cache key'' req s (\<lambda>key.
       attempt (read_options req (CacheKey_new H key) (hs_cache s)) s (\<lambda>opts.
         call_cache (Coordinator_get H now now_ms (CacheKey_new H key) opts (hs_cache s)) s (\<lambda>res. reply (read_response opts res))))"

definition parse_ttl :: "HttpRequest \<Rightarrow> int option result" where
  "parse_ttl req =
     (let ttl_header = header req ''X-ElCache-TTL''
      in if ttl_header = [] then Inr None else bind_res (stoll ttl_header) (\<lambda>n. Inr (Some n)))"

definition write_options :: "HttpRequest \<Rightarrow> WriteOptions result" where
  "write_options req =
     bind_res (parse_ttl req) (\<lambda>ttl.
       bind_res (if header req ''X-ElCache-Flags'' = [] then Inr (wo_flags WriteOptions_new)
                 else bind_res (stoull 10 (header req ''X-ElCache-Flags'')) (\<lambda>n. Inr (ucast n))) (\<lambda>flags.
         Inr (WriteOptions_new\<lparr>wo_ttl := (case ttl of None \<Rightarrow> wo_ttl WriteOptions_new | Some n \<Rightarrow> Some n), wo_flags := flags,
           wo_no_memory := (header req ''X-ElCache-No-Memory'' = ''true''),
           wo_no_disk := (header req ''X-ElCache-No-Disk'' = ''true''),
           wo_no_cluster := (header req ''X-ElCache-No-Cluster'' = ''true'')\<rparr>)))"

definition http_handle_put :: "hasher \<Rightarrow> Timestamp \<Rightarrow> u64 \<Rightarrow> HttpRequest \<Rightarrow> HttpState \<Rightarrow> http_step" where
  "http_handle_put H now now_ms req s =
     with_key 7 ''Missing cache key'' req s (\<lambda>key.
       if MAX_KEY_SIZE < vec_size key then reply (bad_request ''Key too large'') s
       else attempt (write_options req) s (\<lambda>opts.
         call_cache (Coordinator_put H now now_ms (CacheKey_new H key) (hr_body req) opts (hs_cache s)) s (\<lambda>status.
           reply (if Status_is_ok status then resp_created else internal_error (st_message status)))))"

definition http_handle_delete :: "hasher \<Rightarrow> u64 \<Rightarrow> HttpRequest \<Rightarrow> HttpState \<Rightarrow> http_step" where
  "http_handle_delete H now_ms req s =
     with_key 7 ''Missing cache key'' req s (\<lambda>key.
       call_cache (Coordinator_remove H now_ms (CacheKey_new H key) DeleteOptions_new (hs_cache s)) s (\<lambda>status.
         reply (if Status_is_ok status then no_content
                else if st_code status = NotFound then not_found ''Key not found''
                else internal_error (st_message status))))"

definition handle_head :: "hasher \<Rightarrow> HttpRequest \<Rightarrow> HttpState \<Rightarrow> http_step" where
  "handle_head H req s =
     with_key 7 ''Missing cache key'' req s (\<lambda>key.
       reply (case Coordinator_metadata (CacheKey_new H key) (hs_cache s) of
           None \<Rightarrow> not_found ''Key not found''
         | Some meta \<Rightarrow>
             set_content_length (md_total_size meta)
               (set_header ''Accept-Ranges'' ''bytes''
                 (set_header ''X-ElCache-Chunks'' (show_u64 (md_chunk_count meta))
                   (set_header ''X-ElCache-Size'' (show_u64 (md_total_size meta)) (response 200 ''OK'' []))))) s)"

definition handle_options :: "HttpRequest \<Rightarrow> HttpState \<Rightarrow> http_step" where
  "handle_options req s =
     reply (set_header ''Accept-Ranges'' ''bytes''
       (set_header ''Allow'' ''GET, PUT, POST, DELETE, HEAD, OPTIONS'' (response 200 ''OK'' []))) s"

section \<open>The administrative endpoints\<close>

definition hit_rate_percent :: "CacheStats \<Rightarrow> double" where
  "hit_rate_percent stats =
     (if cs_hits stats + cs_misses stats > 0
      then fl (fl (double_of_u64 (cs_hits stats) / double_of_u64 (cs_hits stats + cs_misses stats)) * 100) else 0)"

definition handle_stats :: "HttpRequest \<Rightarrow> HttpState \<Rightarrow> http_step" where
  "handle_stats req s =
     (let stats = Coordinator_stats (hs_cache s)
      in reply (json_response (concat
        [''{'', eol,
         json_line 2 ''hits'' (show_u64 (cs_hits stats)) True,
         json_line 2 ''misses'' (show_u64 (cs_misses stats)) True,
         json_line 2 ''partial_hits'' (show_u64 (cs_partial_hits stats)) True,
         json_line 2 ''bytes_read'' (show_u64 (cs_bytes_read stats)) True,
         json_line 2 ''bytes_written'' (show_u64 (cs_bytes_written stats)) True,
         json_line 2 ''evictions'' (show_u64 (cs_evictions stats)) True,
         json_line 2 ''entry_count'' (show_u64 (cs_entry_count stats)) True,
         json_line 2 ''size_bytes'' (show_u64 (cs_size_bytes stats)) True,
         json_line 2 ''capacity_bytes'' (show_u64 (cs_capacity_bytes stats)) True,
         json_line 2 ''hit_rate_percent'' (show_double (hit_rate_percent stats)) False,
         ''}'', eol])) s)"

definition handle_health :: "HttpRequest \<Rightarrow> HttpState \<Rightarrow> http_step" where
  "handle_health req s = reply (json_response ''{\"status\": \"healthy\"}'') s"

definition handle_cluster :: "HttpRequest \<Rightarrow> HttpState \<Rightarrow> http_step" where
  "handle_cluster req s =
     reply (json_response
       (case co_cluster (hs_cache s) of
          None \<Rightarrow> ''{\"mode\": \"standalone\"}''
        | Some c \<Rightarrow>
            let stats = Cluster_stats c
            in concat
              [''{'', eol,
               json_line 2 ''mode'' ''\"cluster\"'' True,
               json_line 2 ''total_nodes'' (show_u64 (st_total_nodes stats)) True,
               json_line 2 ''active_nodes'' (show_u64 (st_active_nodes stats)) True,
               json_line 2 ''total_memory_capacity'' (show_u64 (st_total_memory_capacity stats)) True,
               json_line 2 ''total_disk_capacity'' (show_u64 (st_total_disk_capacity stats)) True,
               json_line 2 ''total_memory_used'' (show_u64 (st_total_memory_used stats)) True,
               json_line 2 ''total_disk_used'' (show_u64 (st_total_disk_used stats)) False,
               ''}'', eol])) s"

definition handle_metrics :: "int \<Rightarrow> HttpRequest \<Rightarrow> HttpState \<Rightarrow> http_step" where
  "handle_metrics steady_now req s =
     (case hs_collector s of
        None \<Rightarrow> reply (service_unavailable ''Metrics not configured'') s
      | Some (has_cache, has_cluster) \<Rightarrow>
          let m = collect (if has_cache then Some (hs_cache s) else None) (if has_cluster then co_cluster (hs_cache s) else None) (hs_metrics s);
              s = s\<lparr>hs_metrics := m\<rparr>
          in if str_find (header req ''Accept'') ''application/json'' 0 \<noteq> None
             then reply (set_content_type ''application/json'' (resp_ok (bytes_of (export_json steady_now m)))) s
             else reply (set_content_type ''text/plain; version=0.0.4; charset=utf-8'' (resp_ok (bytes_of (export_prometheus steady_now m)))) s)"

section \<open>The sparse endpoints\<close>

definition handle_sparse_create :: "HttpRequest \<Rightarrow> HttpState \<Rightarrow> http_step" where
  "handle_sparse_create req s =
     with_key 8 ''Missing key'' req s (\<lambda>key.
       let size_header = header req ''X-ElCache-Size''
       in if size_header = [] then reply (bad_request ''X-ElCache-Size header required'') s
          else case stoull 10 size_header of
              Inl ex \<Rightarrow> reply (bad_request ''Invalid X-ElCache-Size value'') s
            | Inr total_size \<Rightarrow>
                if total_size = 0 then reply (bad_request ''Size must be greater than 0'') s
                else (case SparseCache_create key total_size (hs_sparse s) of
                    (created, sp) \<Rightarrow>
                      if \<not> created then reply (text_response 409 ''Conflict'' ''Sparse entry already exists'') (s\<lparr>hs_sparse := sp\<rparr>)
                      else reply (set_header ''X-ElCache-Size'' (show_u64 total_size) resp_created) (s\<lparr>hs_sparse := sp\<rparr>)))"

text \<open>The offset of a range write, or the message of the refusal.\<close>

definition write_offset :: "HttpRequest \<Rightarrow> string + u64" where
  "write_offset req =
     (let content_range = header req ''Content-Range''
      in if content_range \<noteq> [] then
           (case str_find content_range ''bytes '' 0 of
              None \<Rightarrow> Inr 0
            | Some bytes_pos \<Rightarrow>
                let range_part = drop (bytes_pos + 6) content_range
                in case str_find range_part ''-'' 0 of
                    None \<Rightarrow> Inr 0
                  | Some dash_pos \<Rightarrow>
                      (case stoull 10 (take dash_pos range_part) of Inl ex \<Rightarrow> Inl ''Invalid Content-Range'' | Inr n \<Rightarrow> Inr n))
         else
           (case str_find (hr_query req) ''offset='' 0 of
              None \<Rightarrow> Inr 0
            | Some offset_pos \<Rightarrow>
                (case stoull 10 (drop (offset_pos + 7) (hr_query req)) of Inl ex \<Rightarrow> Inl ''Invalid offset parameter'' | Inr n \<Rightarrow> Inr n)))"

definition completion_header :: "string \<Rightarrow> SparseCache \<Rightarrow> HttpResponse \<Rightarrow> HttpResponse" where
  "completion_header key sp = set_header ''X-ElCache-Completion'' (to_string_double (SparseCache_get_completion key sp) @ ''%'')"

definition handle_sparse_write :: "HttpRequest \<Rightarrow> HttpState \<Rightarrow> http_step" where
  "handle_sparse_write req s =
     with_key 8 ''Missing key'' req s (\<lambda>key.
       case write_offset req of
         Inl msg \<Rightarrow> reply (bad_request msg) s
       | Inr offset \<Rightarrow>
           if hr_body req = [] then reply (bad_request ''Request body is empty'') s
           else attempt (SparseCache_write_range key offset (hr_body req) (hs_sparse s)) s (\<lambda>(success, sp).
             let s = s\<lparr>hs_sparse := sp\<rparr>
             in if \<not> success then
                  (if \<not> SparseCache_exists key sp then reply (not_found ''Sparse entry not found'') s
                   else reply (bad_request ''Invalid range (offset + size exceeds total)'') s)
                else reply (completion_header key sp (response 202 ''Accepted'' [])) s))"

text \<open>\<^verbatim>\<open>s.rfind(pat)\<close>.\<close>

definition str_rfind :: "string \<Rightarrow> string \<Rightarrow> nat option" where
  "str_rfind s pat = List.find (\<lambda>i. take (length pat) (drop i s) = pat) (rev [0..<Suc (length s)])"

definition store_finalized ::
    "hasher \<Rightarrow> Timestamp \<Rightarrow> u64 \<Rightarrow> HttpRequest \<Rightarrow> string \<Rightarrow> byte list \<Rightarrow> HttpState \<Rightarrow> http_step" where
  "store_finalized H now now_ms req key data s =
     attempt (parse_ttl req) s (\<lambda>ttl.
       call_cache (Coordinator_put H now now_ms (CacheKey_new H key) data
           (WriteOptions_new\<lparr>wo_ttl := (case ttl of None \<Rightarrow> wo_ttl WriteOptions_new | Some n \<Rightarrow> Some n)\<rparr>) (hs_cache s)) s (\<lambda>status.
         reply (if \<not> Status_is_ok status then internal_error (''Failed to store finalized data: '' @ st_message status)
                else resp_created)))"

definition handle_sparse_finalize :: "hasher \<Rightarrow> Timestamp \<Rightarrow> u64 \<Rightarrow> HttpRequest \<Rightarrow> HttpState \<Rightarrow> http_step" where
  "handle_sparse_finalize H now now_ms req s =
     (case str_rfind (hr_path req) ''/finalize'' of
        None \<Rightarrow> reply (bad_request ''Invalid path'') s
      | Some finalize_pos \<Rightarrow>
          if length (hr_path req) < 8 then Some (Inl Out_of_range, s)
          else
            let key = (if finalize_pos < 8 then drop 8 (hr_path req) else take (finalize_pos - 8) (drop 8 (hr_path req)))
            in if key = [] then reply (bad_request ''Missing key'') s
               else (case SparseCache_finalize key (hs_sparse s) of
                   (FinalizeNotFound, sp) \<Rightarrow> reply (not_found ''Sparse entry not found'') (s\<lparr>hs_sparse := sp\<rparr>)
                 | (FinalizeIncomplete, sp) \<Rightarrow>
                     reply (completion_header key sp (text_response 409 ''Conflict'' ''Not all ranges written'')) (s\<lparr>hs_sparse := sp\<rparr>)
                 | (Finalized data, sp) \<Rightarrow> store_finalized H now now_ms req key data (s\<lparr>hs_sparse := sp\<rparr>)))"

definition handle_sparse_status :: "HttpRequest \<Rightarrow> HttpState \<Rightarrow> http_step" where
  "handle_sparse_status req s =
     with_key 8 ''Missing key'' req s (\<lambda>key.
       if \<not> SparseCache_exists key (hs_sparse s) then reply (not_found ''Sparse entry not found'') s
       else
         let total_size = SparseCache_get_total_size key (hs_sparse s);
             completion = SparseCache_get_completion key (hs_sparse s)
         in reply (json_response (concat
           [''{'', eol,
            json_line 2 ''key'' (''\"'' @ key @ ''\"'') True,
            json_line 2 ''total_size'' (show_u64 total_size) True,
            json_line 2 ''completion_percent'' (show_double completion) True,
            json_line 2 ''complete'' (if completion \<ge> 100 then ''true'' else ''false'') False,
            ''}'', eol])) s)"

text \<open>The abort of a sparse upload is a lambda of the router that reads the path of the library's request.\<close>

definition sparse_abort :: "ElioRequest \<Rightarrow> HttpState \<Rightarrow> http_step" where
  "sparse_abort ctx s =
     (if length (er_path ctx) < 8 then Some (Inl Out_of_range, s)
      else reply (response 204 ''No Content'' []) (s\<lparr>hs_sparse := snd (SparseCache_remove (drop 8 (er_path ctx)) (hs_sparse s))\<rparr>))"

section \<open>Routing\<close>

datatype endpoint = EP_get | EP_put | EP_delete | EP_head | EP_options | EP_stats | EP_health | EP_metrics | EP_cluster
  | EP_sparse_create | EP_sparse_write | EP_sparse_finalize | EP_sparse_status | EP_sparse_abort

text \<open>The environment of a request: the hash functions and the three clocks.\<close>

record HttpEnv =
  he_hasher :: hasher
  he_now :: Timestamp
  he_now_ms :: u64
  he_steady :: int

definition http_handle ::
    "HttpEnv \<Rightarrow> (string \<times> string \<times> (HttpRequest \<Rightarrow> HttpState \<Rightarrow> http_step)) list \<Rightarrow> HttpRequest \<Rightarrow> HttpState \<Rightarrow> http_step" where
  "http_handle env routes req s =
     (case List.find (\<lambda>(m, pattern, h). hr_method req = m \<and> str_find (hr_path req) pattern 0 = Some 0) routes of
        Some (m, pattern, h) \<Rightarrow> h req s
      | None \<Rightarrow>
          let m = hr_method req; path = hr_path req; H = he_hasher env; now = he_now env; ms = he_now_ms env
          in if take 7 path = ''/cache/'' then
               (if m = ''GET'' then http_handle_get H now ms req s
                else if m = ''PUT'' \<or> m = ''POST'' then http_handle_put H now ms req s
                else if m = ''DELETE'' then http_handle_delete H ms req s
                else if m = ''HEAD'' then handle_head H req s
                else if m = ''OPTIONS'' then handle_options req s
                else reply (not_found ''Endpoint not found'') s)
             else if path = ''/stats'' \<and> m = ''GET'' then handle_stats req s
             else if path = ''/health'' \<and> m = ''GET'' then handle_health req s
             else if path = ''/metrics'' \<and> m = ''GET'' then handle_metrics (he_steady env) req s
             else if take 8 path = ''/cluster'' \<and> m = ''GET'' then handle_cluster req s
             else reply (not_found ''Endpoint not found'') s)"

definition add_route ::
    "string \<Rightarrow> string \<Rightarrow> (HttpRequest \<Rightarrow> HttpState \<Rightarrow> http_step) \<Rightarrow>
     (string \<times> string \<times> (HttpRequest \<Rightarrow> HttpState \<Rightarrow> http_step)) list \<Rightarrow>
     (string \<times> string \<times> (HttpRequest \<Rightarrow> HttpState \<Rightarrow> http_step)) list" where
  "add_route m pattern h routes = routes @ [(m, pattern, h)]"

text \<open>The routes the server registers with the library's router, which matches them.\<close>

definition build_router :: "(elio_method \<times> string \<times> endpoint) list" where
  "build_router =
     [(M_GET, ''/cache/:key'', EP_get), (M_PUT, ''/cache/:key'', EP_put), (M_POST, ''/cache/:key'', EP_put),
      (M_DELETE, ''/cache/:key'', EP_delete), (M_HEAD, ''/cache/:key'', EP_head), (M_OPTIONS, ''/cache/:key'', EP_options),
      (M_GET, ''/stats'', EP_stats), (M_GET, ''/health'', EP_health), (M_GET, ''/metrics'', EP_metrics),
      (M_GET, ''/cluster'', EP_cluster), (M_GET, ''/cluster/nodes'', EP_cluster),
      (M_POST, ''/sparse/:key'', EP_sparse_create), (M_PATCH, ''/sparse/:key'', EP_sparse_write),
      (M_PUT, ''/sparse/:key'', EP_sparse_write), (M_POST, ''/sparse/:key/finalize'', EP_sparse_finalize),
      (M_GET, ''/sparse/:key'', EP_sparse_status), (M_DELETE, ''/sparse/:key'', EP_sparse_abort)]"

fun run_endpoint :: "HttpEnv \<Rightarrow> endpoint \<Rightarrow> ElioRequest \<Rightarrow> HttpState \<Rightarrow> http_step" where
  "run_endpoint env EP_get ctx = http_handle_get (he_hasher env) (he_now env) (he_now_ms env) (from_context ctx)"
| "run_endpoint env EP_put ctx = http_handle_put (he_hasher env) (he_now env) (he_now_ms env) (from_context ctx)"
| "run_endpoint env EP_delete ctx = http_handle_delete (he_hasher env) (he_now_ms env) (from_context ctx)"
| "run_endpoint env EP_head ctx = handle_head (he_hasher env) (from_context ctx)"
| "run_endpoint env EP_options ctx = handle_options (from_context ctx)"
| "run_endpoint env EP_stats ctx = handle_stats (from_context ctx)"
| "run_endpoint env EP_health ctx = handle_health (from_context ctx)"
| "run_endpoint env EP_metrics ctx = handle_metrics (he_steady env) (from_context ctx)"
| "run_endpoint env EP_cluster ctx = handle_cluster (from_context ctx)"
| "run_endpoint env EP_sparse_create ctx = handle_sparse_create (from_context ctx)"
| "run_endpoint env EP_sparse_write ctx = handle_sparse_write (from_context ctx)"
| "run_endpoint env EP_sparse_finalize ctx =
     handle_sparse_finalize (he_hasher env) (he_now env) (he_now_ms env) (from_context ctx)"
| "run_endpoint env EP_sparse_status ctx = handle_sparse_status (from_context ctx)"
| "run_endpoint env EP_sparse_abort ctx = sparse_abort ctx"

section \<open>Range headers\<close>

lemma find_first:
  assumes "i \<le> k" and "P k" and "\<And>j. i \<le> j \<Longrightarrow> j < k \<Longrightarrow> \<not> P j" and "k < n"
  shows "List.find P [i..<n] = Some k"
proof -
  have "[i..<n] = [i..<k] @ k # [Suc k..<n]"
    using assms(1,4) upt_add_eq_append [of i k "n - k"] by (simp add: upt_conv_Cons)
  moreover have "List.find P [i..<k] = None"
    using assms(3) by (auto simp: find_None_iff)
  moreover have "List.find P (xs @ ys) = (case List.find P xs of None \<Rightarrow> List.find P ys | Some z \<Rightarrow> Some z)" for xs ys
    by (induction xs) auto
  ultimately show ?thesis using assms(2) by simp
qed

lemma str_find_char: "c \<notin> set xs \<Longrightarrow> str_find (xs @ c # ys) [c] 0 = Some (length xs)"
  unfolding str_find_def
  by (rule find_first) (auto simp: nth_append take_Suc_conv_app_nth Cons_nth_drop_Suc [symmetric])

lemma show_u64_no_dash: "CHR ''-'' \<notin> set (show_u64 w)"
  using show_u64_digits [of w] by (auto simp: is_base_digit_def digit_val_def)

text \<open>
  C23. The three forms of a \<^verbatim>\<open>Range\<close> header are read as they are meant, in 64-bit arithmetic: \<^verbatim>\<open>bytes=a-b\<close> is
  the bytes from a to b, \<^verbatim>\<open>bytes=a-\<close> the bytes from a to the end, and \<^verbatim>\<open>bytes=-k\<close> the last k bytes.
\<close>

theorem range_header_exact:
  "parse_range_value (''bytes='' @ show_u64 a @ ''-'' @ show_u64 b) n = Inr \<lparr>r_offset = a, r_length = b - a + 1\<rparr>
   \<and> parse_range_value (''bytes='' @ show_u64 a @ ''-'') n = Inr \<lparr>r_offset = a, r_length = n - a\<rparr>
   \<and> parse_range_value (''bytes='' @ ''-'' @ show_u64 k) n = Inr \<lparr>r_offset = n - k, r_length = k\<rparr>"
proof (intro conjI)
  have eq: "str_find (''bytes='' @ rest) ''='' 0 = Some 5" "drop (5 + 1) (''bytes='' @ rest) = rest" for rest
    using str_find_char [of "CHR ''=''" "''bytes''" rest] by simp_all
  have dash: "str_find (show_u64 a @ CHR ''-'' # rest) ''-'' 0 = Some (length (show_u64 a))" for rest
    by (rule str_find_char [OF show_u64_no_dash])
  have zero: "str_find (CHR ''-'' # rest) ''-'' 0 = Some 0" for rest
    using str_find_char [of "CHR ''-''" "[]" rest] by simp
  have len: "0 < length (show_u64 w)" for w using show_u64_digits [of w] by simp
  show "parse_range_value (''bytes='' @ show_u64 a @ ''-'' @ show_u64 b) n = Inr \<lparr>r_offset = a, r_length = b - a + 1\<rparr>"
    unfolding parse_range_value_def Let_def eq option.case
    using len [of a] len [of b] by (simp add: dash stoull_show_u64)
  show "parse_range_value (''bytes='' @ show_u64 a @ ''-'') n = Inr \<lparr>r_offset = a, r_length = n - a\<rparr>"
    unfolding parse_range_value_def Let_def eq option.case
    using len [of a] by (simp add: dash stoull_show_u64)
  show "parse_range_value (''bytes='' @ ''-'' @ show_u64 k) n = Inr \<lparr>r_offset = n - k, r_length = k\<rparr>"
    unfolding parse_range_value_def Let_def eq option.case
    using len [of k] by (simp add: zero stoull_show_u64)
qed

section \<open>Reads and writes over HTTP\<close>

lemma map_of_set_header [simp]:
  "map_of (hp_headers (set_header name v resp)) = (map_of (hp_headers resp))(name \<mapsto> v)"
  "hp_body (set_header name v resp) = hp_body resp" "hp_status_code (set_header name v resp) = hp_status_code resp"
  by (simp_all add: set_header_def update_conv)

lemmas header_setters = set_content_type_def set_content_length_def set_range_headers_def

lemma read_response_hit:
  assumes "map_of (hp_headers (read_response opts res)) ''X-ElCache-Hit'' = Some ''hit''"
  shows "is_hit res" and "hp_body (read_response opts res) = rr_data res"
    and "hp_status_code (read_response opts res) = (if ro_range opts = None then 200 else 206)"
proof -
  have m: "rr_result res \<noteq> Miss"
    using assms by (auto simp: read_response_def not_found_def text_response_def header_setters response_def)
  have src: "map_of (hp_headers (read_response opts res)) ''X-ElCache-Hit'' = Some (hit_source (rr_result res))"
    using m by (simp add: read_response_def Let_def header_setters split: option.split)
  show h: "is_hit res" using assms src by (auto simp: hit_source_def is_hit_def split: if_splits)
  then show "hp_body (read_response opts res) = rr_data res"
    and "hp_status_code (read_response opts res) = (if ro_range opts = None then 200 else 206)"
    by (auto simp: read_response_def Let_def header_setters is_hit_def partial_content_def resp_ok_def response_def split: option.split)
qed

lemma http_get_runs:
  assumes "hr_path req = ''/cache/'' @ key" and "key \<noteq> []" and "http_handle_get H now ms req s = Some (Inr resp, s')"
  obtains opts res co where "read_options req (CacheKey_new H key) (hs_cache s) = Inr opts"
    and "Coordinator_get H now ms (CacheKey_new H key) opts (hs_cache s) = Some (Inr res, co)"
    and "resp = read_response opts res" and "s' = s\<lparr>hs_cache := co\<rparr>"
  using assms by (auto simp: http_handle_get_def with_key_def attempt_def call_cache_def split: sum.splits bind_splits)

text \<open>
  A \<^verbatim>\<open>GET\<close> that reports a hit answers with the bytes last stored: after any run of the coordinator in
  which values are stored on and removed from all levels and no reads go to the cluster, the body is
  exactly the part of the value last stored under the key that the \<^verbatim>\<open>Range\<close> header or the query asks
  for, the value has not expired, and the status is 200 for the whole value and 206 for a part.
\<close>

theorem http_hit_sound:
  assumes "collision_free H S" and "co_run H S (hs_cache s) L" and "\<not> co_fetches (hs_cache s)"
    and "hr_path req = ''/cache/'' @ key" and "key \<noteq> []" and "http_handle_get H now ms req s = Some (Inr resp, s')"
    and "map_of (hp_headers resp) ''X-ElCache-Hit'' = Some ''hit''"
  shows "\<exists>opts v md. read_options req (CacheKey_new H key) (hs_cache s) = Inr opts
     \<and> L (CacheKey_new H key) = Some (v, md) \<and> \<not> CacheMetadata_is_expired now md
     \<and> hp_body resp = requested_bytes opts v \<and> hp_status_code resp = (if ro_range opts = None then 200 else 206)"
proof -
  obtain opts res co where r: "read_options req (CacheKey_new H key) (hs_cache s) = Inr opts"
    "Coordinator_get H now ms (CacheKey_new H key) opts (hs_cache s) = Some (Inr res, co)" "resp = read_response opts res"
    using http_get_runs [OF assms(4-6)] by metis
  note hit = read_response_hit [OF assms(7) [unfolded r(3)]]
  show ?thesis
    using Coordinator_get_local(3) [OF co_run_inv [OF assms(1,2)] assms(3) r(2)] hit r by auto
qed

lemma plain_read_options: "hr_headers req = [] \<Longrightarrow> hr_query req = [] \<Longrightarrow> read_options req key co = Inr ReadOptions_new"
  by (simp add: read_options_def has_range_header_def header_def ReadOptions_new_def)

lemma plain_write_options: "hr_headers req = [] \<Longrightarrow> write_options req = Inr WriteOptions_new"
  by (simp add: write_options_def parse_ttl_def header_def WriteOptions_new_def)

lemma Coordinator_put_then_memory_hit:
  assumes "collision_free H S" and inv: "co_inv H S L co" and m: "co_memory co = Some m" and "co_disk co = Some dc" and "dirs_ready (dc_store dc)"
    and "value_ok S v" and "v \<noteq> []" and "CacheKey_size key \<le> MAX_KEY_SIZE" and "vec_size v \<le> MAX_VALUE_SIZE"
    and "mc_bytes m + length v \<le> unat (mc_capacity m)" and "co_cluster co = None" and "cl_prefer_local (cfg_cluster (co_config co))"
    and "\<not> CacheMetadata_is_expired later (stored_md now WriteOptions_new v)"
  shows "\<exists>co' res co''. Coordinator_put H now ms key v WriteOptions_new co = Some (Inr Status_ok, co')
       \<and> Coordinator_get H later ms' key ReadOptions_new co' = Some (Inr res, co'') \<and> rr_result res = Hit \<and> rr_data res = v"
proof -
  have w: "\<not> wo_no_memory WriteOptions_new" "\<not> wo_no_disk WriteOptions_new" by (simp_all add: WriteOptions_new_def)
  have rng: "ro_range ReadOptions_new = None" by (simp add: ReadOptions_new_def)
  obtain A where A: "MC_rep H S m A" using inv m by (auto simp: co_inv_def agrees_def mem_level_def)
  obtain m' where m': "MemoryCache_put H now key v WriteOptions_new m = (Status_ok, m')"
    "rr_result (fst (MemoryCache_get later key ReadOptions_new m')) = Hit" "rr_data (fst (MemoryCache_get later key ReadOptions_new m')) = v"
    using MemoryCache_put_then_get [OF A assms(1,6-10,13) rng] by blast
  obtain co' where put: "Coordinator_put H now ms key v WriteOptions_new co = Some (Inr Status_ok, co')"
    using Coordinator_put_then_get [OF assms(1) inv assms(4-9) w, of later now ms 0] assms(11,13) by (auto simp: co_fetches_def)
  then have "co_memory co' = Some m'" "co_config co' = co_config co"
    using m m'(1) w assms(11)
    by (auto simp: Coordinator_put_def put_to_memory_def put_to_disk_def replicate_put_def on_key_nodes_def split: prod.splits if_splits sum.splits option.splits)
  then have "\<exists>co''. Coordinator_get H later ms' key ReadOptions_new co' = Some (Inr (fst (MemoryCache_get later key ReadOptions_new m')), co'')"
    using m'(2) assms(12)
    by (cases "MemoryCache_get later key ReadOptions_new m'") (simp add: Coordinator_get_def get_from_memory_def serves_def is_hit_def)
  then show ?thesis using put m'(2,3) by blast
qed

text \<open>
  C5. What is stored with \<^verbatim>\<open>PUT\<close> is read back with \<^verbatim>\<open>GET\<close>: for a non-empty key and value within the limits, on
  a node with a disk whose directories exist and a memory level with room for the value, the first
  request is answered 201 and the second, before the value expires, 200 with the same bytes, a
  \<^verbatim>\<open>Content-Length\<close> that is their number, and \<^verbatim>\<open>X-ElCache-Hit: hit\<close>.
\<close>

theorem http_put_get:
  assumes "collision_free H S" and "co_run H S (hs_cache s) L" and "co_memory (hs_cache s) = Some m"
    and "co_disk (hs_cache s) = Some dc" and "dirs_ready (dc_store dc)" and "co_cluster (hs_cache s) = None"
    and "cl_prefer_local (cfg_cluster (co_config (hs_cache s)))"
    and "key \<noteq> []" and "CacheKey_size (CacheKey_new H key) \<le> MAX_KEY_SIZE" and "value_ok S v" and "v \<noteq> []" and "vec_size v \<le> MAX_VALUE_SIZE"
    and "mc_bytes m + length v \<le> unat (mc_capacity m)" and "\<not> CacheMetadata_is_expired later (stored_md now WriteOptions_new v)"
  shows "\<exists>s' resp s''.
      http_handle_put H now ms \<lparr>hr_method = ''PUT'', hr_path = ''/cache/'' @ key, hr_query = [], hr_headers = [], hr_body = v\<rparr> s
        = Some (Inr resp_created, s')
    \<and> http_handle_get H later ms' \<lparr>hr_method = ''GET'', hr_path = ''/cache/'' @ key, hr_query = [], hr_headers = [], hr_body = []\<rparr> s'
        = Some (Inr resp, s'')
    \<and> hp_status_code resp = 200 \<and> hp_body resp = v
    \<and> map_of (hp_headers resp) ''X-ElCache-Hit'' = Some ''hit'' \<and> map_of (hp_headers resp) ''Content-Length'' = Some (show_u64 (vec_size v))"
proof -
  let ?k = "CacheKey_new H key"
  obtain co' res co'' where c: "Coordinator_put H now ms ?k v WriteOptions_new (hs_cache s) = Some (Inr Status_ok, co')"
    "Coordinator_get H later ms' ?k ReadOptions_new co' = Some (Inr res, co'')" "rr_result res = Hit" "rr_data res = v"
    using Coordinator_put_then_memory_hit [OF assms(1) co_run_inv [OF assms(1,2)] assms(3-5,10,11,9,12,13,6,7,14)] by metis
  have "vec_size key = CacheKey_size ?k" using assms(8) by (simp add: CacheKey_size_def CacheKey_new_def)
  then have "\<not> MAX_KEY_SIZE < vec_size key" using assms(9) by simp
  then show ?thesis
    using c assms(8)
    by (simp add: http_handle_put_def http_handle_get_def with_key_def attempt_def call_cache_def plain_write_options plain_read_options
        Status_ok_def Status_is_ok_def read_response_def hit_source_def header_setters resp_ok_def response_def Let_def ReadOptions_new_def
        split: option.split)
qed

theorem http_put_get_witness:
  "\<exists>s' resp s''.
      http_handle_put fnv_hasher 0 0 \<lparr>hr_method = ''PUT'', hr_path = ''/cache/'' @ ''k'', hr_query = [], hr_headers = [], hr_body = [1, 2, 3]\<rparr>
        \<lparr>hs_cache = fresh_coordinator, hs_sparse = [], hs_metrics = Metrics_new 0, hs_collector = None\<rparr> = Some (Inr resp_created, s')
    \<and> http_handle_get fnv_hasher 5 0 \<lparr>hr_method = ''GET'', hr_path = ''/cache/'' @ ''k'', hr_query = [], hr_headers = [], hr_body = []\<rparr> s'
        = Some (Inr resp, s'')
    \<and> hp_status_code resp = 200 \<and> hp_body resp = [1, 2, 3]
    \<and> map_of (hp_headers resp) ''X-ElCache-Hit'' = Some ''hit'' \<and> map_of (hp_headers resp) ''Content-Length'' = Some (show_u64 (vec_size ([1, 2, 3] :: byte list)))"
proof (rule http_put_get [where L = Map.empty])
  show "collision_free fnv_hasher {[1, 2, 3]}" by (rule collision_free_singleton)
  show "value_ok {[1, 2, 3]} [1, 2, 3]" by (rule small_value_ok) simp
  show "co_run fnv_hasher {[1, 2, 3]} (hs_cache \<lparr>hs_cache = fresh_coordinator, hs_sparse = [], hs_metrics = Metrics_new 0, hs_collector = None\<rparr>) Map.empty"
    using fresh_coordinator_run by simp
  show "dirs_ready (dc_store fresh_disk)" by (rule fresh_disk_ready)
qed (simp_all add: fresh_coordinator_facts small_request_ok,
     simp_all add: Config_new_def ClusterConfig_new_def MemoryCacheConfig_new_def MemoryCache_new_def ARCCache_new_def ARCCache_bytes_def arc_bytes_def)

lemma fresh_put_get:
  "\<exists>co' res co''. Coordinator_put fnv_hasher 0 0 (CacheKey_new fnv_hasher ''k'') [1, 2, 3] WriteOptions_new fresh_coordinator = Some (Inr Status_ok, co')
     \<and> Coordinator_get fnv_hasher 5 0 (CacheKey_new fnv_hasher ''k'') ReadOptions_new co' = Some (Inr res, co'') \<and> rr_result res = Hit \<and> rr_data res = [1, 2, 3]"
proof (rule Coordinator_put_then_memory_hit [where L = Map.empty])
  show cf: "collision_free fnv_hasher {[1, 2, 3]}" by (rule collision_free_singleton)
  show "value_ok {[1, 2, 3]} [1, 2, 3]" by (rule small_value_ok) simp
  show "co_inv fnv_hasher {[1, 2, 3]} Map.empty fresh_coordinator" by (rule co_run_inv [OF cf fresh_coordinator_run])
  show "dirs_ready (dc_store fresh_disk)" by (rule fresh_disk_ready)
qed (simp_all add: fresh_coordinator_facts small_request_ok,
     simp_all add: Config_new_def ClusterConfig_new_def MemoryCacheConfig_new_def MemoryCache_new_def ARCCache_new_def ARCCache_bytes_def arc_bytes_def)

theorem http_hit_sound_witness:
  "\<exists>co resp s' v md. Coordinator_put fnv_hasher 0 0 (CacheKey_new fnv_hasher ''k'') [1, 2, 3] WriteOptions_new fresh_coordinator = Some (Inr Status_ok, co)
     \<and> http_handle_get fnv_hasher 5 0 \<lparr>hr_method = ''GET'', hr_path = ''/cache/'' @ ''k'', hr_query = [], hr_headers = [], hr_body = []\<rparr>
         \<lparr>hs_cache = co, hs_sparse = [], hs_metrics = Metrics_new 0, hs_collector = None\<rparr> = Some (Inr resp, s')
     \<and> \<not> CacheMetadata_is_expired 5 md \<and> hp_body resp = requested_bytes ReadOptions_new [1, 2, 3]"
proof -
  let ?k = "CacheKey_new fnv_hasher ''k''" and ?v = "[1, 2, 3] :: byte list"
  let ?req = "\<lparr>hr_method = ''GET'', hr_path = ''/cache/'' @ ''k'', hr_query = [], hr_headers = [], hr_body = []\<rparr>"
  note cf = collision_free_singleton [of fnv_hasher ?v]
  have ok: "value_ok {?v} ?v" by (rule small_value_ok) simp
  have w: "\<not> wo_no_memory WriteOptions_new" "\<not> wo_no_disk WriteOptions_new" by (simp_all add: WriteOptions_new_def)
  obtain co res co'' where p: "Coordinator_put fnv_hasher 0 0 ?k ?v WriteOptions_new fresh_coordinator = Some (Inr Status_ok, co)"
    "Coordinator_get fnv_hasher 5 0 ?k ReadOptions_new co = Some (Inr res, co'')" "rr_result res = Hit"
    using fresh_put_get by blast
  let ?s = "\<lparr>hs_cache = co, hs_sparse = [], hs_metrics = Metrics_new 0, hs_collector = None\<rparr>"
  have run: "co_run fnv_hasher {?v} (hs_cache ?s) [?k \<mapsto> (?v, stored_md 0 WriteOptions_new ?v)]"
    using co_run.run_put [OF fresh_coordinator_run ok w p(1)] by simp
  have "co_cluster co = None"
    using p(1) by (auto simp: Coordinator_put_def put_to_memory_def put_to_disk_def replicate_put_def on_key_nodes_def fresh_coordinator_facts
        split: prod.splits if_splits sum.splits)
  then have nf: "\<not> co_fetches (hs_cache ?s)" by (simp add: co_fetches_def)
  have g: "http_handle_get fnv_hasher 5 0 ?req ?s = Some (Inr (read_response ReadOptions_new res), ?s\<lparr>hs_cache := co''\<rparr>)"
    using p(2) by (simp add: http_handle_get_def with_key_def attempt_def call_cache_def plain_read_options)
  have h: "map_of (hp_headers (read_response ReadOptions_new res)) ''X-ElCache-Hit'' = Some ''hit''"
    using p(3) by (simp add: read_response_def hit_source_def header_setters Let_def split: option.split)
  from http_hit_sound [OF cf run nf _ _ g h, of "''k''"] show ?thesis
    using p(1) g by (auto simp: plain_read_options split: if_splits)
qed

lemma str_rfind_suffix:
  assumes "pat \<noteq> []"
  shows "str_rfind (xs @ pat) pat = Some (length xs)"
proof -
  let ?n = "length xs + length pat"
  have "rev [0..<Suc ?n] ! j = ?n - j" if "j < Suc ?n" for j using that by (simp add: rev_nth del: upt_Suc)
  then show ?thesis
    unfolding str_rfind_def find_Some_iff using assms
    by (intro exI [of _ "length pat"]) (auto simp del: upt_Suc dest: arg_cong [where f = length])
qed

text \<open>
  C40. Finalizing an upload can lose it: the sparse entry is removed before the \<^verbatim>\<open>X-ElCache-TTL\<close> header is
  parsed, so a header that is not a number raises an exception after which the assembled bytes are in
  neither store.
\<close>

theorem http_finalize_loses_upload:
  assumes "hr_path req = ''/sparse/'' @ key @ ''/finalize''" and "key \<noteq> []"
    and "SparseCache_finalize key (hs_sparse s) = (Finalized data, sp)"
    and "header req ''X-ElCache-TTL'' \<noteq> []" and "stoll (header req ''X-ElCache-TTL'') = Inl ex"
  shows "handle_sparse_finalize H now ms req s = Some (Inl ex, s\<lparr>hs_sparse := sp\<rparr>) \<and> \<not> SparseCache_exists key sp"
proof -
  have "sp = AList.delete key (hs_sparse s)"
    using assms(3) by (auto simp: SparseCache_finalize_def split: option.splits if_splits)
  moreover have "str_rfind (hr_path req) ''/finalize'' = Some (8 + length key)"
    using str_rfind_suffix [of "''/finalize''" "''/sparse/'' @ key"] assms(1) by simp
  ultimately show ?thesis
    using assms
    by (simp add: handle_sparse_finalize_def store_finalized_def attempt_def parse_ttl_def SparseCache_exists_def delete_conv')
qed

theorem http_finalize_loses_upload_witness:
  "handle_sparse_finalize fnv_hasher 0 0
      \<lparr>hr_method = ''POST'', hr_path = ''/sparse/'' @ ''f'' @ ''/finalize'', hr_query = [], hr_headers = [(''X-ElCache-TTL'', ''soon'')], hr_body = []\<rparr>
      \<lparr>hs_cache = fresh_coordinator, hs_sparse = [(''f'', \<lparr>se_total_size = 1, se_data = [7], se_written = [True], se_finalized = False\<rparr>)],
       hs_metrics = Metrics_new 0, hs_collector = None\<rparr>
     = Some (Inl Invalid_argument, \<lparr>hs_cache = fresh_coordinator, hs_sparse = [], hs_metrics = Metrics_new 0, hs_collector = None\<rparr>)
   \<and> \<not> SparseCache_exists ''f'' []"
proof -
  let ?s = "\<lparr>hs_cache = fresh_coordinator, hs_sparse = [(''f'', \<lparr>se_total_size = 1, se_data = [7], se_written = [True], se_finalized = False\<rparr>)],
       hs_metrics = Metrics_new 0, hs_collector = None\<rparr>"
  let ?req = "\<lparr>hr_method = ''POST'', hr_path = ''/sparse/'' @ ''f'' @ ''/finalize'', hr_query = [], hr_headers = [(''X-ElCache-TTL'', ''soon'')], hr_body = []\<rparr>"
  have "SparseCache_finalize ''f'' (hs_sparse ?s) = (Finalized [7], [])"
    by (simp add: SparseCache_finalize_def SparseEntry_is_complete_def)
  moreover have "header ?req ''X-ElCache-TTL'' = ''soon''" by (simp add: header_def)
  moreover have "stoll ''soon'' = Inl Invalid_argument" by code_simp
  ultimately show ?thesis
    using http_finalize_loses_upload [of ?req "''f''" ?s "[7]" "[]" Invalid_argument fnv_hasher 0 0] by simp
qed

text \<open>The coordinator reports success for every removal, so a missing key is never answered with 404.\<close>

lemma http_delete_never_404:
  "http_handle_delete H ms req s = Some (Inr resp, s') \<Longrightarrow> hp_status_code resp = 204 \<or> hp_status_code resp = 400"
  by (auto simp: http_handle_delete_def with_key_def call_cache_def attempt_def Coordinator_remove_def Status_ok_def Status_is_ok_def
      no_content_def bad_request_def text_response_def set_content_type_def response_def Let_def
      map_sum_Inr not_found_def internal_error_def split: if_splits bind_splits sum.splits prod.splits)

end
