(* ===== verification/Server.thy ===== *)
theory Server
  imports Http_Api Unix_Server
begin

text \<open>
  The program: \<^verbatim>\<open>src/src/main.cpp\<close> and \<^verbatim>\<open>src/include/elcache/elcache.hpp\<close>, with the export of the configuration
  (\<^verbatim>\<open>Config::to_json\<close>). The server owns one coordinator that the HTTP handlers use, the map of the Unix socket
  server, and one store of sparse uploads that both interfaces share. A run is any interleaving of their
  requests; each request is one step.
\<close>

section \<open>Command line and configuration\<close>

definition stoi :: "string \<Rightarrow> int result" where
  "stoi s = bind_res (stoll s) (\<lambda>n. if n < - (2 ^ 31) \<or> 2 ^ 31 \<le> n then Inl Out_of_range else Inr n)"

datatype arguments = Exit nat | Run Config string

text \<open>An option with its value; \<open>None\<close> if there is no such option.\<close>

definition apply_option :: "string \<Rightarrow> string \<Rightarrow> Config \<Rightarrow> string \<Rightarrow> (Config \<times> string) option result" where
  "apply_option arg v config config_file =
     (if arg = ''-c'' \<or> arg = ''--config'' then Inr (Some (config, v))
      else if arg = ''-p'' \<or> arg = ''--port'' then
        bind_res (stoi v) (\<lambda>n. Inr (Some (config\<lparr>cfg_network := cfg_network config\<lparr>net_http_port := word_of_int n\<rparr>\<rparr>, config_file)))
      else if arg = ''-m'' \<or> arg = ''--memory'' then
        bind_res (stoull 10 v) (\<lambda>n. Inr (Some (config\<lparr>cfg_memory := cfg_memory config\<lparr>mem_max_size := n * 1024 * 1024\<rparr>\<rparr>, config_file)))
      else if arg = ''-d'' \<or> arg = ''--disk'' then Inr (Some (config\<lparr>cfg_disk := cfg_disk config\<lparr>disk_path := v\<rparr>\<rparr>, config_file))
      else if arg = ''-D'' \<or> arg = ''--disk-size'' then
        bind_res (stoull 10 v) (\<lambda>n. Inr (Some (config\<lparr>cfg_disk := cfg_disk config\<lparr>disk_max_size := n * 1024 * 1024 * 1024\<rparr>\<rparr>, config_file)))
      else if arg = ''-s'' \<or> arg = ''--seed'' then
        Inr (Some (config\<lparr>cfg_cluster := cfg_cluster config\<lparr>cl_seed_nodes := cl_seed_nodes (cfg_cluster config) @ [v]\<rparr>\<rparr>, config_file))
      else if arg = ''-u'' \<or> arg = ''--unix'' then
        Inr (Some (config\<lparr>cfg_network := cfg_network config\<lparr>net_unix_socket_path := v\<rparr>\<rparr>, config_file))
      else Inr None)"

definition asks_to_leave :: "string \<Rightarrow> bool" where
  "asks_to_leave arg = (arg = ''-h'' \<or> arg = ''--help'' \<or> arg = ''-v'' \<or> arg = ''--version'')"

text \<open>The loop over the arguments; an option that needs a value and has none is unknown.\<close>

fun parse_args :: "string list \<Rightarrow> Config \<Rightarrow> string \<Rightarrow> arguments result" where
  "parse_args [] config config_file = Inr (Run config config_file)"
| "parse_args [arg] config config_file = Inr (Exit (if asks_to_leave arg then 0 else 1))"
| "parse_args (arg # v # args) config config_file =
     (if asks_to_leave arg then Inr (Exit 0)
      else case apply_option arg v config config_file of
          Inl ex \<Rightarrow> Inl ex
        | Inr None \<Rightarrow> Inr (Exit 1)
        | Inr (Some (config, config_file)) \<Rightarrow> parse_args args config config_file)"

text \<open>\<open>file_text\<close> is the content of a file, if it can be opened.\<close>

definition Config_load :: "(string \<Rightarrow> string option) \<Rightarrow> string \<Rightarrow> Config result" where
  "Config_load file_text path =
     (case file_text path of
        None \<Rightarrow> Inl (Runtime_error (''Failed to open config file: '' @ path))
      | Some text \<Rightarrow> load_json text)"

definition main_config :: "(string \<Rightarrow> string option) \<Rightarrow> string list \<Rightarrow> (nat + Config) result" where
  "main_config file_text args =
     bind_res (parse_args args Config_new []) (\<lambda>a.
       case a of
         Exit n \<Rightarrow> Inr (Inl n)
       | Run config config_file \<Rightarrow>
           (case (if config_file \<noteq> [] then Config_load file_text config_file else Inr config) of
              Inl ex \<Rightarrow> Inr (Inl 1)
            | Inr config \<Rightarrow> Inr (if Status_is_ok (Config_validate config) then Inr config else Inl 1)))"

definition show_int :: "int \<Rightarrow> string" where
  "show_int n = (if n < 0 then ''-'' else []) @ to_base 10 (nat \<bar>n\<bar>)"

definition show_bool :: "bool \<Rightarrow> string" where
  "show_bool b = (if b then ''true'' else ''false'')"

definition Config_to_json :: "Config \<Rightarrow> string" where
  "Config_to_json c =
     (let m = cfg_memory c; d = cfg_disk c; n = cfg_network c; cl = cfg_cluster c; p = cfg_pool c; pf = cfg_perf c in concat
     [''{'', eol,
      json_line 2 ''node_name'' (quoted (cfg_node_name c)) True,
      json_line 2 ''memory'' ''{'' False,
      json_line 4 ''max_size'' (show_u64 (mem_max_size m)) True,
      json_line 4 ''arc_ghost_size'' (show_u64 (mem_arc_ghost_size m)) True,
      json_line 4 ''high_watermark'' (show_double (mem_high_watermark m)) True,
      json_line 4 ''low_watermark'' (show_double (mem_low_watermark m)) False,
      ''  },'', eol,
      json_line 2 ''disk'' ''{'' False,
      json_line 4 ''path'' (quoted (disk_path d)) True,
      json_line 4 ''max_size'' (show_u64 (disk_max_size d)) True,
      json_line 4 ''use_direct_io'' (show_bool (disk_use_direct_io d)) True,
      json_line 4 ''use_fallocate'' (show_bool (disk_use_fallocate d)) True,
      json_line 4 ''high_watermark'' (show_double (disk_high_watermark d)) True,
      json_line 4 ''low_watermark'' (show_double (disk_low_watermark d)) False,
      ''  },'', eol,
      json_line 2 ''network'' ''{'' False,
      json_line 4 ''bind_address'' (quoted (net_bind_address n)) True,
      json_line 4 ''cluster_port'' (to_base 10 (unat (net_cluster_port n))) True,
      json_line 4 ''http_port'' (to_base 10 (unat (net_http_port n))) True,
      json_line 4 ''sdk_port'' (to_base 10 (unat (net_sdk_port n))) True,
      json_line 4 ''unix_socket_path'' (quoted (net_unix_socket_path n)) True,
      json_line 4 ''shm_path'' (quoted (net_shm_path n)) True,
      json_line 4 ''shm_size'' (show_u64 (net_shm_size n)) True,
      json_line 4 ''max_connections'' (show_u64 (net_max_connections n)) False,
      ''  },'', eol,
      json_line 2 ''cluster'' ''{'' False,
      json_line 4 ''cluster_name'' (quoted (cl_cluster_name cl)) True,
      json_line 4 ''seed_nodes'' (''['' @ concat (case cl_seed_nodes cl of [] \<Rightarrow> [] | s # ss \<Rightarrow> quoted s # map (\<lambda>s. '', '' @ quoted s) ss) @ '']'') True,
      json_line 4 ''gossip_interval_ms'' (show_int (cl_gossip_interval cl)) True,
      json_line 4 ''failure_detection_timeout_ms'' (show_int (cl_failure_detection_timeout cl)) True,
      json_line 4 ''gossip_fanout'' (show_u64 (cl_gossip_fanout cl)) True,
      json_line 4 ''replication_factor'' (show_u64 (cl_replication_factor cl)) True,
      json_line 4 ''prefer_local'' (show_bool (cl_prefer_local cl)) True,
      json_line 4 ''virtual_nodes'' (show_u64 (cl_virtual_nodes cl)) False,
      ''  },'', eol,
      json_line 2 ''pool'' ''{'' False,
      json_line 4 ''memory_contribution'' (show_u64 (pool_memory_contribution p)) True,
      json_line 4 ''disk_contribution'' (show_u64 (pool_disk_contribution p)) True,
      json_line 4 ''accept_remote_reads'' (show_bool (pool_accept_remote_reads p)) True,
      json_line 4 ''accept_remote_writes'' (show_bool (pool_accept_remote_writes p)) False,
      ''  },'', eol,
      json_line 2 ''performance'' ''{'' False,
      json_line 4 ''io_threads'' (show_u64 (perf_io_threads pf)) True,
      json_line 4 ''worker_threads'' (show_u64 (perf_worker_threads pf)) True,
      json_line 4 ''max_concurrent_disk_ops'' (show_u64 (perf_max_concurrent_disk_ops pf)) True,
      json_line 4 ''max_concurrent_network_ops'' (show_u64 (perf_max_concurrent_network_ops pf)) True,
      json_line 4 ''prefetch_chunks'' (show_u64 (perf_prefetch_chunks pf)) True,
      json_line 4 ''enable_metrics'' (show_bool (perf_enable_metrics pf)) True,
      json_line 4 ''metrics_interval_s'' (show_int (perf_metrics_interval pf)) False,
      ''  }'', eol,
      ''}'', eol])"

section \<open>The server\<close>

record ElCacheServer =
  sv_running :: bool
  sv_http :: HttpState
  sv_unix :: "(string \<times> byte list) list"

text \<open>
  The environment of the constructor: the state of the file system and the values the cluster draws
  or finds uninitialised, as in \<^const>\<open>Coordinator_new\<close> and \<^const>\<open>Cluster_new\<close>.
\<close>

record ServerEnv =
  sve_base :: path
  sve_fs :: FileSystem
  sve_disk_clock :: "nat \<Rightarrow> int"
  sve_node :: NodeId
  sve_memory_used :: u64
  sve_disk_used :: u64
  sve_dials :: "Connection option list"
  sve_cluster_clock :: "nat \<Rightarrow> int"
  sve_steady :: int

definition clustered :: "Config \<Rightarrow> bool" where
  "clustered config =
     (cl_seed_nodes (cfg_cluster config) \<noteq> [] \<or> pool_memory_contribution (cfg_pool config) > 0
      \<or> pool_disk_contribution (cfg_pool config) > 0)"

definition ElCacheServer_new :: "ServerEnv \<Rightarrow> Config \<Rightarrow> ElCacheServer" where
  "ElCacheServer_new env config =
     (let co = Coordinator_new config (sve_base env) (sve_fs env) (sve_disk_clock env);
          co = (if clustered config
                then set_cluster (Some (Cluster_new config (sve_node env) (sve_memory_used env) (sve_disk_used env) (sve_dials env) (sve_cluster_clock env))) co
                else co)
      in \<lparr>sv_running = False,
          sv_http = \<lparr>hs_cache = co, hs_sparse = [], hs_metrics = Metrics_new (sve_steady env), hs_collector = Some (True, clustered config)\<rparr>,
          sv_unix = []\<rparr>)"

definition with_cache :: "Coordinator \<Rightarrow> ElCacheServer \<Rightarrow> ElCacheServer" where
  "with_cache co sv = sv\<lparr>sv_http := sv_http sv\<lparr>hs_cache := co\<rparr>\<rparr>"

text \<open>
  \<open>bound\<close> is whether the cluster port could be bound. The HTTP server always reports success, and the
  result of the Unix socket server is not awaited.
\<close>

definition ElCacheServer_start :: "hasher \<Rightarrow> u64 \<Rightarrow> bool \<Rightarrow> ElCacheServer \<Rightarrow> (Status result \<times> ElCacheServer) option" where
  "ElCacheServer_start H now_ms bound sv =
     (let sv = sv\<lparr>sv_running := True\<rparr>
      in case Coordinator_start (hs_cache (sv_http sv)) of
          (Inl ex, co) \<Rightarrow> Some (Inl ex, with_cache co sv)
        | (Inr status, co) \<Rightarrow>
            if \<not> Status_is_ok status then Some (Inr status, with_cache co sv)
            else case co_cluster co of
                None \<Rightarrow> Some (Inr Status_ok, with_cache co sv)
              | Some c \<Rightarrow>
                  map_option (\<lambda>(r, c). (map_sum id (\<lambda>status. if \<not> Status_is_ok status then status else Status_ok) r,
                      with_cache (set_cluster (Some c) co) sv))
                    (Cluster_start H now_ms bound c))"

definition ElCacheServer_stop :: "ElCacheServer \<Rightarrow> ElCacheServer" where
  "ElCacheServer_stop sv =
     (let sv = sv\<lparr>sv_running := False\<rparr>; co = hs_cache (sv_http sv)
      in with_cache (Coordinator_stop (set_cluster (map_option Cluster_stop (co_cluster co)) co)) sv)"

text \<open>What a connection of the Unix socket server sees: its own map and the shared sparse store.\<close>

definition unix_view :: "ElCacheServer \<Rightarrow> UdsServer" where
  "unix_view sv = \<lparr>us_cache = sv_unix sv, us_sparse = hs_sparse (sv_http sv)\<rparr>"

definition from_unix :: "UdsServer \<Rightarrow> ElCacheServer \<Rightarrow> ElCacheServer" where
  "from_unix srv sv = sv\<lparr>sv_unix := us_cache srv, sv_http := sv_http sv\<lparr>hs_sparse := us_sparse srv\<rparr>\<rparr>"

section \<open>Interleaved requests\<close>

text \<open>
  The runs of a server with the values last stored through HTTP: starting, stopping and requests of both
  interfaces in any order. The file system of the first state is reliable (\<^const>\<open>store_sound\<close>): no system
  call fails or is cut short in the run. A \<^verbatim>\<open>PUT\<close> is accepted on both local levels, refused by the memory
  level, rejected with 400 or ends with an exception while its headers are read; a finalize request
  stores its upload, is refused, or ends with an exception while its header is read. Not among the
  steps are writes that skip a level and writes that fail after the memory level took them. Reads do
  not go to the cluster. A request whose handler lets an exception escape changes the server as far as
  it came.
\<close>

inductive server_run :: "hasher \<Rightarrow> Chunk set \<Rightarrow> ElCacheServer \<Rightarrow> cache_map \<Rightarrow> bool" for H S where
  sr_new: "store_sound H S (DiskStore_new (cfg_disk config) (sve_base env) (sve_fs env)) \<Longrightarrow>
    server_run H S (ElCacheServer_new env config) L"
| sr_start: "server_run H S sv L \<Longrightarrow> ElCacheServer_start H ms bound sv = Some (r, sv') \<Longrightarrow> server_run H S sv' L"
| sr_stop: "server_run H S sv L \<Longrightarrow> server_run H S (ElCacheServer_stop sv) L"
| sr_unix: "server_run H S sv L \<Longrightarrow> process_request_thread now s (unix_view sv) = Inr (b, s', srv) \<Longrightarrow> server_run H S (from_unix srv sv) L"
| sr_get: "server_run H S sv L \<Longrightarrow> \<not> co_fetches (hs_cache (sv_http sv)) \<Longrightarrow>
    http_handle_get H now ms req (sv_http sv) = Some (r, hs) \<Longrightarrow> server_run H S (sv\<lparr>sv_http := hs\<rparr>) L"
| sr_put: "server_run H S sv L \<Longrightarrow> hr_path req = ''/cache/'' @ key \<Longrightarrow> write_options req = Inr opts \<Longrightarrow>
    \<not> wo_no_memory opts \<Longrightarrow> \<not> wo_no_disk opts \<Longrightarrow> value_ok S (hr_body req) \<Longrightarrow>
    http_handle_put H now ms req (sv_http sv) = Some (Inr resp, hs) \<Longrightarrow> hp_status_code resp = 201 \<Longrightarrow>
    server_run H S (sv\<lparr>sv_http := hs\<rparr>) (L(CacheKey_new H key \<mapsto> (hr_body req, stored_md now opts (hr_body req))))"
| sr_put_refused: "server_run H S sv L \<Longrightarrow> hr_path req = ''/cache/'' @ key \<Longrightarrow> write_options req = Inr opts \<Longrightarrow>
    \<not> wo_no_memory opts \<Longrightarrow> value_ok S (hr_body req) \<Longrightarrow> co_memory (hs_cache (sv_http sv)) = Some m \<Longrightarrow>
    \<not> Status_is_ok (fst (MemoryCache_put H now (CacheKey_new H key) (hr_body req) opts m)) \<Longrightarrow>
    http_handle_put H now ms req (sv_http sv) = Some (r, hs) \<Longrightarrow> server_run H S (sv\<lparr>sv_http := hs\<rparr>) L"
| sr_put_rejected: "server_run H S sv L \<Longrightarrow> http_handle_put H now ms req (sv_http sv) = Some (r, hs) \<Longrightarrow>
    write_options req = Inl ex \<or> (\<exists>resp. r = Inr resp \<and> hp_status_code resp = 400) \<Longrightarrow> server_run H S (sv\<lparr>sv_http := hs\<rparr>) L"
| sr_delete: "server_run H S sv L \<Longrightarrow> hr_path req = ''/cache/'' @ key \<Longrightarrow> key \<noteq> [] \<Longrightarrow>
    http_handle_delete H ms req (sv_http sv) = Some (r, hs) \<Longrightarrow> server_run H S (sv\<lparr>sv_http := hs\<rparr>) (L(CacheKey_new H key := None))"
| sr_sparse: "server_run H S sv L \<Longrightarrow> ep \<in> {EP_sparse_create, EP_sparse_write, EP_sparse_status, EP_sparse_abort, EP_head, EP_options, EP_stats, EP_health, EP_metrics, EP_cluster} \<Longrightarrow>
    he_hasher he = H \<Longrightarrow> run_endpoint he ep ctx (sv_http sv) = Some (r, hs) \<Longrightarrow> server_run H S (sv\<lparr>sv_http := hs\<rparr>) L"
| sr_finalize: "server_run H S sv L \<Longrightarrow> hr_path req = ''/sparse/'' @ key @ ''/finalize'' \<Longrightarrow> key \<noteq> [] \<Longrightarrow> parse_ttl req = Inr ttl \<Longrightarrow>
    SparseCache_finalize key (hs_sparse (sv_http sv)) = (Finalized data, sp) \<Longrightarrow> value_ok S data \<Longrightarrow>
    handle_sparse_finalize H now ms req (sv_http sv) = Some (Inr resp, hs) \<Longrightarrow> hp_status_code resp = 201 \<Longrightarrow>
    server_run H S (sv\<lparr>sv_http := hs\<rparr>) (L(CacheKey_new H key \<mapsto> (data, stored_md now (WriteOptions_new\<lparr>wo_ttl := ttl\<rparr>) data)))"
| sr_finalize_refused: "server_run H S sv L \<Longrightarrow> hr_path req = ''/sparse/'' @ key @ ''/finalize'' \<Longrightarrow> key \<noteq> [] \<Longrightarrow>
    parse_ttl req = Inl ex \<or> (\<forall>data. fst (SparseCache_finalize key (hs_sparse (sv_http sv))) \<noteq> Finalized data) \<Longrightarrow>
    handle_sparse_finalize H now ms req (sv_http sv) = Some (r, hs) \<Longrightarrow> server_run H S (sv\<lparr>sv_http := hs\<rparr>) L"

lemma http_get_state:
  assumes "http_handle_get H now ms req s = Some (r, s')"
  shows "s' = s \<or> (\<exists>key opts r' co. Coordinator_get H now ms key opts (hs_cache s) = Some (r', co) \<and> s' = s\<lparr>hs_cache := co\<rparr>)"
  using assms
  by (fastforce simp: http_handle_get_def with_key_def attempt_def call_cache_def Let_def split: if_splits sum.splits bind_splits)

lemma Coordinator_put_status: "Coordinator_put H now ms key v opts co = Some (Inr st, co') \<Longrightarrow> Status_is_ok st \<Longrightarrow> st = Status_ok"
  by (auto simp: Coordinator_put_def replicate_put_def map_sum_Inr Status_is_ok_def Status_error_def split: prod.splits sum.splits if_splits)

lemma call_cache_created:
  assumes "call_cache r s (\<lambda>status. reply (if Status_is_ok status then resp_created else internal_error (f status))) = Some (Inr resp, s')"
    and "hp_status_code resp = 201"
  shows "\<exists>st co. r = Some (Inr st, co) \<and> Status_is_ok st \<and> s' = s\<lparr>hs_cache := co\<rparr>"
  using assms
  by (auto simp: call_cache_def attempt_def internal_error_def text_response_def set_content_type_def response_def split: bind_splits sum.splits if_splits)

lemma http_put_state:
  assumes "hr_path req = ''/cache/'' @ key" and "write_options req = Inr opts"
    and "http_handle_put H now ms req s = Some (Inr resp, s')" and "hp_status_code resp = 201"
  shows "\<exists>co. Coordinator_put H now ms (CacheKey_new H key) (hr_body req) opts (hs_cache s) = Some (Inr Status_ok, co) \<and> s' = s\<lparr>hs_cache := co\<rparr>"
proof -
  have "call_cache (Coordinator_put H now ms (CacheKey_new H key) (hr_body req) opts (hs_cache s)) s
      (\<lambda>status. reply (if Status_is_ok status then resp_created else internal_error (st_message status))) = Some (Inr resp, s')"
    using assms by (auto simp: http_handle_put_def with_key_def attempt_def bad_request_def text_response_def set_content_type_def response_def Let_def split: if_splits)
  from call_cache_created [OF this assms(4)] show ?thesis by (auto dest: Coordinator_put_status)
qed

lemma http_put_attempt:
  assumes "hr_path req = ''/cache/'' @ key" and "write_options req = Inr opts" and "http_handle_put H now ms req s = Some (r, s')"
  shows "s' = s \<or> (\<exists>r' co. Coordinator_put H now ms (CacheKey_new H key) (hr_body req) opts (hs_cache s) = Some (r', co) \<and> s' = s\<lparr>hs_cache := co\<rparr>)"
  using assms by (fastforce simp: http_handle_put_def with_key_def attempt_def call_cache_def Let_def split: if_splits sum.splits bind_splits)

lemma http_put_rejected:
  assumes "http_handle_put H now ms req s = Some (r, s')" and "write_options req = Inl ex \<or> (\<exists>resp. r = Inr resp \<and> hp_status_code resp = 400)"
  shows "s' = s"
  using assms
  by (auto simp: http_handle_put_def with_key_def attempt_def call_cache_def Let_def resp_created_def internal_error_def text_response_def
      set_content_type_def response_def split: if_splits sum.splits bind_splits)

lemma http_delete_state:
  assumes "hr_path req = ''/cache/'' @ key" and "key \<noteq> []" and "http_handle_delete H ms req s = Some (r, s')"
  shows "\<exists>r' co. Coordinator_remove H ms (CacheKey_new H key) DeleteOptions_new (hs_cache s) = Some (r', co) \<and> s' = s\<lparr>hs_cache := co\<rparr>"
  using assms by (auto simp: http_handle_delete_def with_key_def call_cache_def attempt_def split: bind_splits sum.splits)

lemma finalize_state:
  assumes "hr_path req = ''/sparse/'' @ key @ ''/finalize''" and "key \<noteq> []" and "parse_ttl req = Inr ttl"
    and "SparseCache_finalize key (hs_sparse s) = (Finalized data, sp)"
    and "handle_sparse_finalize H now ms req s = Some (Inr resp, s')" and "hp_status_code resp = 201"
  shows "\<exists>co. Coordinator_put H now ms (CacheKey_new H key) data (WriteOptions_new\<lparr>wo_ttl := ttl\<rparr>) (hs_cache s) = Some (Inr Status_ok, co)
     \<and> s' = s\<lparr>hs_cache := co, hs_sparse := sp\<rparr>"
proof -
  have "str_rfind (hr_path req) ''/finalize'' = Some (8 + length key)"
    using str_rfind_suffix [of "''/finalize''" "''/sparse/'' @ key"] assms(1) by simp
  moreover have "(case ttl of None \<Rightarrow> wo_ttl WriteOptions_new | Some n \<Rightarrow> Some n) = ttl"
    by (simp add: WriteOptions_new_def split: option.split)
  moreover have flip: "(if \<not> P then a else b) = (if P then b else a)" for P and a b :: HttpResponse by simp
  ultimately have "call_cache (Coordinator_put H now ms (CacheKey_new H key) data (WriteOptions_new\<lparr>wo_ttl := ttl\<rparr>) (hs_cache s)) (s\<lparr>hs_sparse := sp\<rparr>)
      (\<lambda>status. reply (if Status_is_ok status then resp_created else internal_error (''Failed to store finalized data: '' @ st_message status))) = Some (Inr resp, s')"
    using assms by (simp add: handle_sparse_finalize_def store_finalized_def attempt_def flip)
  from call_cache_created [OF this assms(6)] show ?thesis by (auto dest: Coordinator_put_status)
qed

lemma finalize_refused_state:
  assumes "hr_path req = ''/sparse/'' @ key @ ''/finalize''" and "key \<noteq> []"
    and "parse_ttl req = Inl ex \<or> (\<forall>data. fst (SparseCache_finalize key (hs_sparse s)) \<noteq> Finalized data)"
    and "handle_sparse_finalize H now ms req s = Some (r, s')"
  shows "s' = s\<lparr>hs_sparse := snd (SparseCache_finalize key (hs_sparse s))\<rparr>"
proof -
  have "str_rfind (hr_path req) ''/finalize'' = Some (8 + length key)"
    using str_rfind_suffix [of "''/finalize''" "''/sparse/'' @ key"] assms(1) by simp
  then show ?thesis
    using assms by (auto simp: handle_sparse_finalize_def store_finalized_def attempt_def split: prod.splits finalize_result.splits)
qed

lemma sparse_finalize_ok: "sparse_ok c \<Longrightarrow> sparse_ok (snd (SparseCache_finalize key c))"
  by (auto simp: SparseCache_finalize_def intro: sparse_ok_delete split: option.split)

lemma other_endpoints_state:
  assumes "ep \<in> {EP_sparse_create, EP_sparse_write, EP_sparse_status, EP_sparse_abort, EP_head, EP_options, EP_stats, EP_health, EP_metrics, EP_cluster}"
    and "run_endpoint he ep ctx s = Some (r, s')" and "sparse_ok (hs_sparse s)"
  shows "hs_cache s' = hs_cache s \<and> sparse_ok (hs_sparse s')"
  using assms
  by (auto simp: handle_sparse_create_def handle_sparse_write_def handle_sparse_status_def sparse_abort_def handle_head_def handle_options_def
      handle_stats_def handle_health_def handle_metrics_def handle_cluster_def with_key_def attempt_def Let_def SparseCache_create_def SparseCache_remove_def
      intro!: sparse_ok_update sparse_ok_delete dest!: sparse_ok_write [OF assms(3)] split: if_splits sum.splits prod.splits option.splits)

lemma unix_view_ok: "uds_server_ok (unix_view sv) \<longleftrightarrow> distinct (map fst (sv_unix sv)) \<and> sparse_ok (hs_sparse (sv_http sv))"
  by (simp add: uds_ok_sparse unix_view_def)

lemma server_new_run:
  assumes "store_sound H S (DiskStore_new (cfg_disk config) (sve_base env) (sve_fs env))"
  shows "co_run H S (hs_cache (sv_http (ElCacheServer_new env config))) L" and "uds_server_ok (unix_view (ElCacheServer_new env config))"
  using co_run.run_new [OF assms] by (auto simp: ElCacheServer_new_def Let_def unix_view_ok sparse_ok_def intro: co_run.run_set_cluster)

lemma set_cluster_same: "set_cluster (co_cluster co) co = co"
  by (simp add: set_cluster_def)

lemma server_start_state:
  assumes "ElCacheServer_start H ms bound sv = Some (r, sv')"
  shows "\<exists>q co cluster. Coordinator_start (hs_cache (sv_http sv)) = (q, co) \<and> sv' = with_cache (set_cluster cluster co) (sv\<lparr>sv_running := True\<rparr>)"
proof -
  obtain q co where c: "Coordinator_start (hs_cache (sv_http sv)) = (q, co)" by fastforce
  have "sv' = with_cache co (sv\<lparr>sv_running := True\<rparr>) \<or> (\<exists>cluster. sv' = with_cache (set_cluster cluster co) (sv\<lparr>sv_running := True\<rparr>))"
    using assms c by (auto simp: ElCacheServer_start_def Let_def split: sum.splits if_splits option.splits)
  then show ?thesis using c set_cluster_same [of co] by metis
qed

lemma server_start_alone:
  assumes "Coordinator_start (hs_cache (sv_http sv)) = (q, co)" and "co_cluster co = None"
  shows "\<exists>r. ElCacheServer_start H ms bound sv = Some (r, with_cache co (sv\<lparr>sv_running := True\<rparr>))"
  using assms by (simp add: ElCacheServer_start_def Let_def split: sum.split)

lemma server_run_inv:
  "server_run H S sv L \<Longrightarrow> co_run H S (hs_cache (sv_http sv)) L \<and> uds_server_ok (unix_view sv)"
proof (induction rule: server_run.induct)
  case (sr_new config env L)
  then show ?case using server_new_run by blast
next
  case (sr_start sv L ms bound r sv')
  from server_start_state [OF sr_start.hyps(2)] obtain co q where
    co: "Coordinator_start (hs_cache (sv_http sv)) = (q, co)" "\<exists>cluster. sv' = with_cache (set_cluster cluster co) (sv\<lparr>sv_running := True\<rparr>)"
    by blast
  from co_run.run_set_cluster [OF co_run.run_start [OF conjunct1 [OF sr_start.IH] co(1)]] co(2) show ?case
    using sr_start.IH by (auto simp: with_cache_def unix_view_ok)
next
  case (sr_stop sv L)
  then show ?case by (auto simp: ElCacheServer_stop_def with_cache_def unix_view_ok Let_def intro: co_run.run_stop co_run.run_set_cluster)
next
  case (sr_unix sv L now s b s' srv)
  have "uds_server_ok srv" using process_keeps_ok [OF _ sr_unix.hyps(2)] sr_unix.IH by blast
  then show ?case using sr_unix.IH by (simp add: from_unix_def unix_view_def uds_ok_sparse)
next
  case (sr_get sv L now ms req r hs)
  from http_get_state [OF sr_get.hyps(3)] show ?case
    using sr_get.IH sr_get.hyps(2) by (auto simp: unix_view_ok intro: co_run.run_get)
next
  case (sr_put sv L req key opts now ms resp hs)
  from http_put_state [OF sr_put.hyps(2,3,7,8)] show ?case
    using sr_put.IH co_run.run_put [OF conjunct1 [OF sr_put.IH] sr_put.hyps(6,4,5)] by (auto simp: unix_view_ok simp del: fun_upd_apply)
next
  case (sr_put_refused sv L req key opts m now ms r hs)
  from http_put_attempt [OF sr_put_refused.hyps(2,3,8)] show ?case
    using sr_put_refused.IH co_run.run_put_refused [OF conjunct1 [OF sr_put_refused.IH] sr_put_refused.hyps(5,6,4,7)]
    by (auto simp: unix_view_ok)
next
  case (sr_put_rejected sv L now ms req r hs ex)
  then show ?case using http_put_rejected [OF sr_put_rejected.hyps(2,3)] by simp
next
  case (sr_delete sv L req key ms r hs)
  from http_delete_state [OF sr_delete.hyps(2-4)] show ?case
    using sr_delete.IH co_run.run_remove [OF conjunct1 [OF sr_delete.IH], of DeleteOptions_new]
    by (auto simp: unix_view_ok DeleteOptions_new_def simp del: fun_upd_apply)
next
  case (sr_sparse sv L ep he ctx r hs)
  from other_endpoints_state [OF sr_sparse.hyps(2,4)] show ?case using sr_sparse.IH by (auto simp: unix_view_ok)
next
  case (sr_finalize sv L req key ttl data sp now ms resp hs)
  have w: "\<not> wo_no_memory (WriteOptions_new\<lparr>wo_ttl := ttl\<rparr>)" "\<not> wo_no_disk (WriteOptions_new\<lparr>wo_ttl := ttl\<rparr>)"
    by (simp_all add: WriteOptions_new_def)
  have "sparse_ok sp" using sparse_finalize_ok [of "hs_sparse (sv_http sv)" key] sr_finalize.hyps(5) sr_finalize.IH by (simp add: unix_view_ok)
  then show ?case
    using finalize_state [OF sr_finalize.hyps(2-5,7,8)] sr_finalize.IH co_run.run_put [OF conjunct1 [OF sr_finalize.IH] sr_finalize.hyps(6) w]
    by (auto simp: unix_view_ok simp del: fun_upd_apply)
next
  case (sr_finalize_refused sv L req key ex now ms r hs)
  from finalize_refused_state [OF sr_finalize_refused.hyps(2-5)] show ?case
    using sr_finalize_refused.IH sparse_finalize_ok by (simp add: unix_view_ok)
qed

text \<open>
  C4. The two interfaces do not disturb each other. In any run on a reliable file system that
  interleaves starting and stopping the server, HTTP requests and requests on Unix sockets, where values
  are stored on both local levels and reads do not go to the cluster, the maps of the Unix socket server
  and the shared sparse store are well formed after every step; and if the chunk hash is injective on
  the chunks that occur, a \<^verbatim>\<open>GET\<close> over HTTP in any state of the run that reports a hit answers with the
  requested part of the value last stored through HTTP under its key, which has not expired.
\<close>

theorem interleaved_requests_safe:
  assumes "server_run H S sv L"
  shows "uds_server_ok (unix_view sv)
     \<and> (\<forall>req key now ms resp hs. collision_free H S \<longrightarrow> \<not> co_fetches (hs_cache (sv_http sv)) \<longrightarrow>
          hr_path req = ''/cache/'' @ key \<longrightarrow> key \<noteq> [] \<longrightarrow> http_handle_get H now ms req (sv_http sv) = Some (Inr resp, hs) \<longrightarrow>
          map_of (hp_headers resp) ''X-ElCache-Hit'' = Some ''hit'' \<longrightarrow>
          (\<exists>opts v md. read_options req (CacheKey_new H key) (hs_cache (sv_http sv)) = Inr opts
             \<and> L (CacheKey_new H key) = Some (v, md) \<and> \<not> CacheMetadata_is_expired now md \<and> hp_body resp = requested_bytes opts v))"
proof (intro conjI allI impI)
  note inv = server_run_inv [OF assms]
  show "uds_server_ok (unix_view sv)" using inv by blast
  fix req key now ms resp hs
  assume cf: "collision_free H S" and local: "\<not> co_fetches (hs_cache (sv_http sv))"
    and get: "hr_path req = ''/cache/'' @ key" "key \<noteq> []" "http_handle_get H now ms req (sv_http sv) = Some (Inr resp, hs)"
    and hit: "map_of (hp_headers resp) ''X-ElCache-Hit'' = Some ''hit''"
  obtain opts res co where r: "read_options req (CacheKey_new H key) (hs_cache (sv_http sv)) = Inr opts"
    "Coordinator_get H now ms (CacheKey_new H key) opts (hs_cache (sv_http sv)) = Some (Inr res, co)" "resp = read_response opts res"
    using http_get_runs [OF get] by metis
  then show "\<exists>opts v md. read_options req (CacheKey_new H key) (hs_cache (sv_http sv)) = Inr opts
      \<and> L (CacheKey_new H key) = Some (v, md) \<and> \<not> CacheMetadata_is_expired now md \<and> hp_body resp = requested_bytes opts v"
    using Coordinator_get_local(3) [OF co_run_inv [OF cf conjunct1 [OF inv]] local r(2)] read_response_hit [OF hit [unfolded r(3)]] by auto
qed

text \<open>A server with the default configuration on an empty disk.\<close>

definition example_env :: ServerEnv where
  "example_env = \<lparr>sve_base = [''c''], sve_fs = \<lparr>fs_files = [], fs_dirs = [], fs_script = []\<rparr>, sve_disk_clock = int, sve_node = NodeId 1,
     sve_memory_used = 0, sve_disk_used = 0, sve_dials = [], sve_cluster_clock = int, sve_steady = 0\<rparr>"

lemma example_server_run:
  fixes S :: "Chunk set" and L :: cache_map
  shows "server_run H S (with_cache fresh_coordinator (ElCacheServer_new example_env Config_new\<lparr>sv_running := True\<rparr>)) L"
proof -
  have "store_sound H S (DiskStore_new (cfg_disk Config_new) (sve_base example_env) (sve_fs example_env))"
    by (simp add: store_sound_def chunks_sound_def store_chunk_def reliable_def DiskStore_new_def example_env_def)
  from server_run.sr_new [OF this] have new: "server_run H S (ElCacheServer_new example_env Config_new) L" .
  have co: "hs_cache (sv_http (ElCacheServer_new example_env Config_new)) = Coordinator_new Config_new [''c''] \<lparr>fs_files = [], fs_dirs = [], fs_script = []\<rparr> int"
    by (simp add: ElCacheServer_new_def example_env_def clustered_def Let_def) (simp add: Config_new_def ClusterConfig_new_def PoolConfig_new_def)
  obtain q where st: "Coordinator_start (hs_cache (sv_http (ElCacheServer_new example_env Config_new))) = (q, fresh_coordinator)"
    unfolding co by (metis prod.collapse)
  have "\<exists>r. ElCacheServer_start H 0 True (ElCacheServer_new example_env Config_new)
      = Some (r, with_cache fresh_coordinator (ElCacheServer_new example_env Config_new\<lparr>sv_running := True\<rparr>))"
    by (rule server_start_alone [OF st fresh_coordinator_facts(2)])
  then show ?thesis using server_run.sr_start [OF new] by blast
qed

theorem interleaved_requests_safe_witness:
  "\<exists>hs resp hs' opts v. http_handle_put fnv_hasher 0 0 \<lparr>hr_method = ''PUT'', hr_path = ''/cache/'' @ ''k'', hr_query = [], hr_headers = [], hr_body = [1, 2, 3]\<rparr>
        (sv_http (with_cache fresh_coordinator (ElCacheServer_new example_env Config_new\<lparr>sv_running := True\<rparr>))) = Some (Inr resp_created, hs)
     \<and> http_handle_get fnv_hasher 5 0 \<lparr>hr_method = ''GET'', hr_path = ''/cache/'' @ ''k'', hr_query = [], hr_headers = [], hr_body = []\<rparr> hs
        = Some (Inr resp, hs') \<and> v = [1, 2, 3] \<and> hp_body resp = requested_bytes opts v"
proof -
  let ?sv = "with_cache fresh_coordinator (ElCacheServer_new example_env Config_new\<lparr>sv_running := True\<rparr>)" and ?v = "[1, 2, 3] :: byte list"
  let ?put = "\<lparr>hr_method = ''PUT'', hr_path = ''/cache/'' @ ''k'', hr_query = [], hr_headers = [], hr_body = ?v\<rparr>"
  let ?get = "\<lparr>hr_method = ''GET'', hr_path = ''/cache/'' @ ''k'', hr_query = [], hr_headers = [], hr_body = []\<rparr>"
  let ?k = "CacheKey_new fnv_hasher ''k''"
  note cf = collision_free_singleton [of fnv_hasher ?v]
  have ok: "value_ok {?v} ?v" by (rule small_value_ok) simp
  have w: "write_options ?put = Inr WriteOptions_new" "\<not> wo_no_memory WriteOptions_new" "\<not> wo_no_disk WriteOptions_new"
    using plain_write_options [of ?put] by (simp_all add: WriteOptions_new_def)
  obtain co res co'' where p: "Coordinator_put fnv_hasher 0 0 ?k ?v WriteOptions_new fresh_coordinator = Some (Inr Status_ok, co)"
    "Coordinator_get fnv_hasher 5 0 ?k ReadOptions_new co = Some (Inr res, co'')" "rr_result res = Hit"
    using fresh_put_get by blast
  let ?hs = "sv_http ?sv\<lparr>hs_cache := co\<rparr>"
  have put: "http_handle_put fnv_hasher 0 0 ?put (sv_http ?sv) = Some (Inr resp_created, ?hs)"
    using p(1) w(1) by (simp add: http_handle_put_def with_key_def attempt_def call_cache_def with_cache_def Status_ok_def Status_is_ok_def MAX_KEY_SIZE_def vec_size_def)
  have run: "server_run fnv_hasher {?v} (?sv\<lparr>sv_http := ?hs\<rparr>) [?k \<mapsto> (?v, stored_md 0 WriteOptions_new ?v)]"
    using server_run.sr_put [OF example_server_run _ w _ put, of "''k''" "{?v}" Map.empty] ok by (simp add: resp_created_def response_def)
  have "co_cluster co = None"
    using p(1) by (auto simp: Coordinator_put_def put_to_memory_def put_to_disk_def replicate_put_def on_key_nodes_def fresh_coordinator_facts
        split: prod.splits if_splits sum.splits)
  then have nf: "\<not> co_fetches (hs_cache (sv_http (?sv\<lparr>sv_http := ?hs\<rparr>)))" by (simp add: co_fetches_def)
  have g: "http_handle_get fnv_hasher 5 0 ?get (sv_http (?sv\<lparr>sv_http := ?hs\<rparr>)) = Some (Inr (read_response ReadOptions_new res), ?hs\<lparr>hs_cache := co''\<rparr>)"
    using p(2) by (simp add: http_handle_get_def with_key_def attempt_def call_cache_def plain_read_options)
  have h: "map_of (hp_headers (read_response ReadOptions_new res)) ''X-ElCache-Hit'' = Some ''hit''"
    using p(3) by (simp add: read_response_def hit_source_def header_setters Let_def split: option.split)
  have "\<exists>opts. hp_body (read_response ReadOptions_new res) = requested_bytes opts ?v"
    using interleaved_requests_safe [OF run, THEN conjunct2, rule_format, OF cf nf _ _ g h, of "''k''"] by auto
  then show ?thesis using put g by auto
qed

end
